(* ===== verification/Prelude.thy ===== *)
theory Prelude
  imports Complex_Main "HOL-Library.Word" "HOL-Library.AList" "HOL-Library.Multiset"
    "HOL-Library.Sublist" "HOL-Library.List_Lexorder" "HOL-Library.Char_ord"
begin

text \<open>
  Shared vocabulary of the development.

  Machine integers are words: \<open>uint64_t\<close> and \<open>size_t\<close> fields that the code adds,
  subtracts or multiplies are \<open>u64\<close>, \<open>uint32_t\<close> is \<open>u32\<close>; the wrap-around is the
  one of the hardware.  Lengths of containers are \<open>nat\<close> (a container never holds
  \<open>2 ^ 64\<close> elements).  \<open>double\<close> and \<open>float\<close> are \<open>real\<close>: rounding is not modelled.

  \<open>std::unordered_map\<close> is an association list with distinct keys, read by
  \<open>map_of\<close>, written by \<open>AList.update\<close> and \<open>AList.delete\<close>; the order of the list
  stands for the (unspecified) iteration order.  \<open>std::map\<close> is an association list
  sorted by its keys (\<open>omap_put\<close>).  \<open>std::string\<close> is a list of bytes.
  \<open>std::sort\<close> with a comparator is \<open>sort_by\<close>.
\<close>

section \<open>Types\<close>

type_synonym u64 = "64 word"
type_synonym u32 = "32 word"
type_synonym ('k, 'v) umap = "('k \<times> 'v) list"
type_synonym ('k, 'v) omap = "('k \<times> 'v) list"

named_theorems umap_simps "lookups and sums over association lists"
named_theorems inv_intros "preservation of component invariants"

section \<open>Unordered maps: association lists with distinct keys\<close>

abbreviation umap_put :: "'k \<Rightarrow> 'v \<Rightarrow> ('k, 'v) umap \<Rightarrow> ('k, 'v) umap" where
  "umap_put \<equiv> AList.update"

abbreviation umap_erase :: "'k \<Rightarrow> ('k, 'v) umap \<Rightarrow> ('k, 'v) umap" where
  "umap_erase \<equiv> AList.delete"

abbreviation umap_ok :: "('k, 'v) umap \<Rightarrow> bool" where
  "umap_ok m \<equiv> distinct (map fst m)"

lemma map_of_umap_put [umap_simps]: "map_of (umap_put k v m) = (map_of m)(k \<mapsto> v)"
  by (rule update_conv')

lemma map_of_umap_erase [umap_simps]: "map_of (umap_erase k m) = (map_of m)(k := None)"
  by (rule delete_conv')

lemma umap_ok_put [simp, inv_intros]: "umap_ok m \<Longrightarrow> umap_ok (umap_put k v m)"
  by (rule distinct_update)

lemma umap_ok_erase [simp, inv_intros]: "umap_ok m \<Longrightarrow> umap_ok (umap_erase k m)"
  by (rule distinct_delete)

lemma umap_mem_iff: "umap_ok m \<Longrightarrow> (k, v) \<in> set m \<longleftrightarrow> map_of m k = Some v"
  by simp

lemma umap_ok_ConsD: "umap_ok ((a, b) # m) \<Longrightarrow> map_of m a = None \<and> umap_ok m"
  by (auto simp: map_of_eq_None_iff)

lemma set_umap_put:
  assumes "umap_ok m"
  shows "set (umap_put k v m) = insert (k, v) {p \<in> set m. fst p \<noteq> k}"
proof -
  have "(x, y) \<in> set (umap_put k v m) \<longleftrightarrow> map_of (umap_put k v m) x = Some y" for x y
    using assms by (simp only: umap_mem_iff umap_ok_put)
  then show ?thesis
    using assms by (auto simp: umap_simps split: if_splits)
qed

lemma set_umap_erase: "set (umap_erase k m) = {p \<in> set m. fst p \<noteq> k}"
  by (auto simp: AList.delete_eq)

lemma umap_erase_absent: "map_of m k = None \<Longrightarrow> umap_erase k m = m"
  by (induction m) (auto split: if_splits)

text \<open>
  The sum of a quantity over a map, before and after a write or an erase.  The
  equations hold in any commutative monoid, so the same lemma serves machine words and
  natural numbers.
\<close>

abbreviation umap_sum :: "('k \<times> 'v \<Rightarrow> 'a::comm_monoid_add) \<Rightarrow> ('k, 'v) umap \<Rightarrow> 'a" where
  "umap_sum f m \<equiv> sum_list (map f m)"

lemma umap_sum_put:
  "umap_ok m \<Longrightarrow>
   umap_sum f (umap_put k v m) + (case map_of m k of None \<Rightarrow> 0 | Some w \<Rightarrow> f (k, w)) =
   umap_sum f m + f (k, v)"
proof (induction m)
  case Nil
  then show ?case by simp
next
  case (Cons p m)
  obtain a b where p: "p = (a, b)" by (cases p)
  show ?case
  proof (cases "a = k")
    case True
    then show ?thesis by (simp add: p add_ac)
  next
    case False
    with Cons.IH Cons.prems show ?thesis by (simp add: p add.assoc)
  qed
qed

lemma umap_sum_erase:
  "umap_ok m \<Longrightarrow>
   umap_sum f (umap_erase k m) + (case map_of m k of None \<Rightarrow> 0 | Some w \<Rightarrow> f (k, w)) =
   umap_sum f m"
proof (induction m)
  case Nil
  then show ?case by simp
next
  case (Cons p m)
  obtain a b where p: "p = (a, b)" by (cases p)
  show ?case
  proof (cases "a = k")
    case True
    with umap_ok_ConsD [OF Cons.prems [unfolded p]] show ?thesis
      by (simp add: p umap_erase_absent add.commute)
  next
    case False
    with Cons.IH Cons.prems show ?thesis by (simp add: p add.assoc)
  qed
qed

lemma length_umap_put:
  "umap_ok m \<Longrightarrow>
   length (umap_put k v m) = (case map_of m k of None \<Rightarrow> Suc (length m) | Some _ \<Rightarrow> length m)"
  by (induction m) (auto split: option.splits)

lemma length_umap_erase_less:
  "map_of m k \<noteq> None \<Longrightarrow> length (umap_erase k m) < length m"
proof (induction m)
  case Nil
  then show ?case by simp
next
  case (Cons p m)
  have "length (umap_erase k m) \<le> length m"
    by (simp add: AList.delete_eq)
  with Cons show ?case by (cases p) (auto simp: less_Suc_eq_le)
qed

text \<open>Counting the entries that satisfy a predicate, over a write or an erase.\<close>

definition umap_count :: "('k \<times> 'v \<Rightarrow> bool) \<Rightarrow> ('k, 'v) umap \<Rightarrow> nat" where
  "umap_count P m = length (filter P m)"

lemma umap_count_sum: "umap_count P m = umap_sum (\<lambda>p. if P p then 1 else 0) m"
  by (induction m) (auto simp: umap_count_def)

lemma umap_count_put:
  assumes "umap_ok m"
  shows "umap_count P (umap_put k v m) +
      (case map_of m k of None \<Rightarrow> 0 | Some w \<Rightarrow> if P (k, w) then 1 else 0) =
    umap_count P m + (if P (k, v) then 1 else 0)"
  using umap_sum_put [OF assms, of "\<lambda>p. if P p then 1 else (0::nat)" k v]
  by (simp add: umap_count_sum)

lemma umap_count_put_le:
  assumes "umap_ok m"
  shows "umap_count P (umap_put k v m) \<le> umap_count P m + (if P (k, v) then 1 else 0)"
  using umap_count_put [OF assms, of P k v] by linarith

lemma umap_count_erase_le: "umap_count P (umap_erase k m) \<le> umap_count P m"
  by (induction m) (auto simp: umap_count_def)

section \<open>Ordered maps\<close>

fun omap_put :: "'k::linorder \<Rightarrow> 'v \<Rightarrow> ('k, 'v) omap \<Rightarrow> ('k, 'v) omap" where
  "omap_put k v [] = [(k, v)]"
| "omap_put k v ((a, b) # m) =
     (if k < a then (k, v) # (a, b) # m
      else if k = a then (k, v) # m
      else (a, b) # omap_put k v m)"

abbreviation omap_ok :: "('k::linorder, 'v) omap \<Rightarrow> bool" where
  "omap_ok m \<equiv> sorted_wrt (<) (map fst m)"

lemma map_of_omap_put [umap_simps]: "map_of (omap_put k v m) = (map_of m)(k \<mapsto> v)"
  by (induction m) auto

lemma keys_omap_put: "fst ` set (omap_put k v m) = insert k (fst ` set m)"
  using map_of_omap_put [of k v m]
  by (metis dom_fun_upd dom_map_of_conv_image_fst option.distinct(1))

lemma omap_ok_put [simp, inv_intros]: "omap_ok m \<Longrightarrow> omap_ok (omap_put k v m)"
proof (induction m)
  case Nil
  then show ?case by simp
next
  case (Cons p m)
  obtain a b where p: "p = (a, b)" by (cases p)
  from Cons p have "omap_ok (omap_put k v m)" by simp
  moreover have "x \<in> fst ` set (omap_put k v m) \<Longrightarrow> x = k \<or> x \<in> fst ` set m" for x
    by (auto simp: keys_omap_put)
  ultimately show ?case
    using Cons.prems by (fastforce simp: p)
qed

lemma fold_omap_put_sorted:
  "omap_ok (acc @ m) \<Longrightarrow> fold (\<lambda>kv. omap_put (fst kv) (snd kv)) m acc = acc @ m"
proof (induction m arbitrary: acc)
  case Nil
  then show ?case by simp
next
  case (Cons p m)
  have "omap_put k v acc = acc @ [(k, v)]" if "\<forall>a \<in> fst ` set acc. a < k" for k and v :: 'b
    using that by (induction acc) auto
  with Cons show ?case by (cases p) (auto simp: sorted_wrt_append)
qed

lemma omap_ok_distinct: "omap_ok m \<Longrightarrow> umap_ok m"
  by (induction m) (auto simp: map_of_eq_None_iff)

lemma omap_ok_erase [simp, inv_intros]: "omap_ok m \<Longrightarrow> omap_ok (umap_erase k m)"
  by (induction m) (auto simp: AList.delete_eq)

lemma omap_sum_put:
  "omap_ok m \<Longrightarrow>
   umap_sum f (omap_put k v m) + (case map_of m k of None \<Rightarrow> 0 | Some w \<Rightarrow> f (k, w)) =
   umap_sum f m + f (k, v)"
proof (induction m)
  case Nil
  then show ?case by simp
next
  case (Cons p m)
  obtain a b where p: "p = (a, b)" by (cases p)
  consider "k < a" | "k = a" | "a < k" by (metis linorder_less_linear)
  then show ?case
  proof cases
    case 1
    with Cons.prems p have "map_of m k = None"
      by (auto simp: map_of_eq_None_iff)
    moreover from 1 have "k \<noteq> a" by simp
    ultimately show ?thesis using 1 by (simp add: p add_ac)
  next
    case 2
    then show ?thesis by (simp add: p add_ac)
  next
    case 3
    then have "k \<noteq> a" "\<not> k < a" by auto
    with Cons.IH Cons.prems show ?thesis by (simp add: p add.assoc)
  qed
qed

lemma omap_lower_bound:
  "omap_ok m \<Longrightarrow> set (dropWhile (\<lambda>p. fst p < b) m) = {p \<in> set m. b \<le> fst p}"
  by (induction m) (auto simp: not_less dest: less_imp_le)

lemma omap_upper_bound:
  "omap_ok m \<Longrightarrow> set (takeWhile (\<lambda>p. fst p < e) m) = {p \<in> set m. fst p < e}"
  by (induction m) (auto simp: not_less dest: less_le_trans)

lemma omap_ok_dropWhile: "omap_ok m \<Longrightarrow> omap_ok (dropWhile P m)"
  by (induction m) auto

section \<open>Sorting with a comparator\<close>

text \<open>
  \<open>std::sort\<close> requires its comparator to be a strict weak order; it then leaves a
  permutation of the range in which no element is less than an earlier one.  Elements
  that compare equal may come in any order: \<open>sort_by\<close> keeps them in the order of the
  list, which is one of the orders \<open>std::sort\<close> may produce.
\<close>

fun insert_by :: "('a \<Rightarrow> 'a \<Rightarrow> bool) \<Rightarrow> 'a \<Rightarrow> 'a list \<Rightarrow> 'a list" where
  "insert_by lt x [] = [x]"
| "insert_by lt x (y # ys) = (if lt y x then y # insert_by lt x ys else x # y # ys)"

definition sort_by :: "('a \<Rightarrow> 'a \<Rightarrow> bool) \<Rightarrow> 'a list \<Rightarrow> 'a list" where
  "sort_by lt xs = foldr (insert_by lt) xs []"

lemma sort_by_simps [simp]:
  "sort_by lt [] = []"
  "sort_by lt (x # xs) = insert_by lt x (sort_by lt xs)"
  by (simp_all add: sort_by_def)

lemma mset_insert_by [simp]: "mset (insert_by lt x xs) = add_mset x (mset xs)"
  by (induction xs) auto

lemma mset_sort_by [simp]: "mset (sort_by lt xs) = mset xs"
  by (induction xs) auto

lemma set_insert_by [simp]: "set (insert_by lt x xs) = insert x (set xs)"
  by (induction xs) auto

lemma set_sort_by [simp]: "set (sort_by lt xs) = set xs"
  by (induction xs) auto

lemma length_sort_by [simp]: "length (sort_by lt xs) = length xs"
  by (rule mset_eq_length) simp

lemma distinct_map_sort_by [simp]: "distinct (map f (sort_by lt xs)) = distinct (map f xs)"
  by (rule mset_eq_imp_distinct_iff) (simp add: mset_map)

lemma filter_mset_sort_by: "mset (filter P (sort_by lt xs)) = mset (filter P xs)"
  by (simp add: mset_filter)

locale weak_order =
  fixes lt :: "'a \<Rightarrow> 'a \<Rightarrow> bool"
  assumes lt_asym: "lt x y \<Longrightarrow> \<not> lt y x"
    and lt_negtrans: "lt x z \<Longrightarrow> lt x y \<or> lt y z"
begin

lemma sorted_insert_by:
  "sorted_wrt (\<lambda>a b. \<not> lt b a) xs \<Longrightarrow> sorted_wrt (\<lambda>a b. \<not> lt b a) (insert_by lt x xs)"
proof (induction xs)
  case Nil
  then show ?case by simp
next
  case (Cons y ys)
  show ?case
  proof (cases "lt y x")
    case True
    with Cons show ?thesis by (auto dest: lt_asym)
  next
    case False
    have "\<not> lt z x" if "z \<in> set ys" for z
      using that Cons.prems False lt_negtrans [of z x y] by auto
    with False Cons.prems show ?thesis by auto
  qed
qed

lemma sorted_sort_by: "sorted_wrt (\<lambda>a b. \<not> lt b a) (sort_by lt xs)"
  by (induction xs) (auto intro: sorted_insert_by)

lemma sorted_take_sort_by: "sorted_wrt (\<lambda>a b. \<not> lt b a) (take n (sort_by lt xs))"
  by (rule sorted_wrt_take [OF sorted_sort_by])

text \<open>What a truncation to the first \<open>n\<close> leaves out is not less than what it keeps.\<close>

lemma take_sort_by_best:
  assumes "x \<in> set (take n (sort_by lt xs))" and "y \<in> set (drop n (sort_by lt xs))"
  shows "\<not> lt y x"
proof -
  have "sorted_wrt (\<lambda>a b. \<not> lt b a) (take n (sort_by lt xs) @ drop n (sort_by lt xs))"
    by (simp add: sorted_sort_by)
  with assms show ?thesis
    unfolding sorted_wrt_append by blast
qed

end

lemma set_take_sort_by: "x \<in> set (take n (sort_by lt xs)) \<Longrightarrow> x \<in> set xs"
  by (metis in_set_takeD set_sort_by)

lemma take_sort_by_all: "length xs \<le> n \<Longrightarrow> take n (sort_by lt xs) = sort_by lt xs"
  by simp

text \<open>\<open>out.resize(limit)\<close> when the vector is longer, with a \<open>size_t\<close> limit.\<close>

definition truncate_to :: "u64 \<Rightarrow> 'a list \<Rightarrow> 'a list" where
  "truncate_to n xs = (if unat n < length xs then take (unat n) xs else xs)"

lemma truncate_to_take: "truncate_to n xs = take (unat n) xs"
  by (simp add: truncate_to_def)

end
