(* ===== verification/Byte_Strings.thy ===== *)
theory Byte_Strings
  imports Prelude
begin

text \<open>
  The parts of \<open>std::string\<close> and \<open><cctype>\<close> the sources use, on byte strings: search,
  sub-strings, case folding in the C locale, and decimal rendering of unsigned integers
  with and without zero padding.
\<close>

section \<open>Characters\<close>

abbreviation byte :: "char \<Rightarrow> nat" where
  "byte c \<equiv> of_char c"

definition is_digit :: "char \<Rightarrow> bool" where
  "is_digit c \<longleftrightarrow> 48 \<le> byte c \<and> byte c \<le> 57"

definition is_alnum :: "char \<Rightarrow> bool" where
  "is_alnum c \<longleftrightarrow> is_digit c \<or> 65 \<le> byte c \<and> byte c \<le> 90 \<or> 97 \<le> byte c \<and> byte c \<le> 122"

definition is_space :: "char \<Rightarrow> bool" where
  "is_space c \<longleftrightarrow> 9 \<le> byte c \<and> byte c \<le> 13 \<or> byte c = 32"

definition to_lower_char :: "char \<Rightarrow> char" where
  "to_lower_char c = (if 65 \<le> byte c \<and> byte c \<le> 90 then char_of (byte c + 32) else c)"

lemma byte_less_256: "byte c < 256"
  by simp

lemma to_lower_char_idem [simp]: "to_lower_char (to_lower_char c) = to_lower_char c"
  by (auto simp: to_lower_char_def of_char_of)

lemma is_alnum_to_lower [simp]: "is_alnum (to_lower_char c) = is_alnum c"
  by (auto simp: to_lower_char_def is_alnum_def is_digit_def of_char_of)

section \<open>Searching\<close>

text \<open>\<open>s.rfind(p, 0) == 0\<close> is \<open>prefix p s\<close>; \<open>s.find(p)\<close> is \<open>str_find s p\<close>.\<close>

fun str_find :: "string \<Rightarrow> string \<Rightarrow> nat option" where
  "str_find [] p = (if p = [] then Some 0 else None)"
| "str_find (c # s) p = (if prefix p (c # s) then Some 0 else map_option Suc (str_find s p))"

definition substr :: "string \<Rightarrow> nat \<Rightarrow> nat \<Rightarrow> string" where
  "substr s pos n = take n (drop pos s)"

lemma str_find_Some:
  "str_find s p = Some i \<Longrightarrow> prefix p (drop i s) \<and> i + length p \<le> length s"
proof (induction s arbitrary: i)
  case Nil
  then show ?case by (auto split: if_splits)
next
  case (Cons c s)
  then show ?case
    by (auto split: if_splits dest: prefix_length_le)
qed

lemma str_find_first:
  "str_find s p = Some i \<Longrightarrow> j < i \<Longrightarrow> \<not> prefix p (drop j s)"
proof (induction s arbitrary: i j)
  case Nil
  then show ?case by (auto split: if_splits)
next
  case (Cons c s)
  then show ?case
    by (cases j) (auto split: if_splits)
qed

lemma str_find_None: "str_find s p = None \<Longrightarrow> \<not> prefix p (drop j s)"
proof (induction s arbitrary: j)
  case Nil
  then show ?case by (auto split: if_splits)
next
  case (Cons c s)
  then show ?case
    by (cases j) (auto split: if_splits)
qed

lemma str_findI:
  assumes "prefix p (drop i s)" and "i \<le> length s"
    and "\<And>j. j < i \<Longrightarrow> \<not> prefix p (drop j s)"
  shows "str_find s p = Some i"
proof (cases "str_find s p")
  case None
  with assms(1) show ?thesis using str_find_None by blast
next
  case (Some k)
  with assms str_find_Some str_find_first show ?thesis
    by (metis linorder_neqE_nat)
qed

text \<open>A marker that starts with a character the text before it lacks is found there.\<close>

lemma str_find_marker:
  assumes "c \<notin> set a"
  shows "str_find (a @ c # p @ b) (c # p) = Some (length a)"
proof (rule str_findI)
  fix j assume "j < length a"
  then show "\<not> prefix (c # p) (drop j (a @ c # p @ b))"
    using assms by (auto simp: Cons_nth_drop_Suc [symmetric] nth_append)
qed auto

section \<open>Decimal numbers\<close>

definition digit_char :: "nat \<Rightarrow> char" where
  "digit_char d = char_of (48 + d)"

fun dec_string :: "nat \<Rightarrow> string" where
  "dec_string n =
     (if n < 10 then [digit_char n] else dec_string (n div 10) @ [digit_char (n mod 10)])"

declare dec_string.simps [simp del]

text \<open>\<open>std::setw(w) << std::setfill('0')\<close>: pad on the left, never truncate.\<close>

definition zero_pad :: "nat \<Rightarrow> string \<Rightarrow> string" where
  "zero_pad w s = replicate (w - length s) (CHR ''0'') @ s"

fun dec_val :: "string \<Rightarrow> nat" where
  "dec_val [] = 0"
| "dec_val (c # s) = (byte c - 48) * 10 ^ length s + dec_val s"

lemma byte_digit_char: "d < 10 \<Longrightarrow> byte (digit_char d) = 48 + d"
  by (simp add: digit_char_def of_char_of)

lemma is_digit_digit_char: "d < 10 \<Longrightarrow> is_digit (digit_char d)"
  by (simp add: is_digit_def byte_digit_char)

lemma dec_val_append: "dec_val (s @ t) = dec_val s * 10 ^ length t + dec_val t"
  by (induction s) (auto simp: power_add algebra_simps)

lemma dec_val_bound: "list_all is_digit s \<Longrightarrow> dec_val s < 10 ^ length s"
proof (induction s)
  case Nil
  then show ?case by simp
next
  case (Cons c s)
  then have "byte c - 48 \<le> 9" and IH: "dec_val s < 10 ^ length s"
    by (auto simp: is_digit_def)
  then have "(byte c - 48) * 10 ^ length s \<le> 9 * 10 ^ length s"
    by (intro mult_le_mono1)
  with IH have "(byte c - 48) * 10 ^ length s + dec_val s < 9 * 10 ^ length s + 10 ^ length s"
    by (rule add_le_less_mono [rotated])
  then show ?case by simp
qed

lemma digits_dec_string: "list_all is_digit (dec_string n)"
proof (induction n rule: dec_string.induct)
  case (1 n)
  then show ?case
    by (subst dec_string.simps) (auto simp: is_digit_digit_char)
qed

lemma dec_val_dec_string [simp]: "dec_val (dec_string n) = n"
proof (induction n rule: dec_string.induct)
  case (1 n)
  show ?case
  proof (cases "n < 10")
    case True
    then show ?thesis by (subst dec_string.simps) (simp add: byte_digit_char)
  next
    case False
    with 1 show ?thesis
      by (subst dec_string.simps) (simp add: dec_val_append byte_digit_char)
  qed
qed

lemma length_dec_string: "n < 10 ^ k \<Longrightarrow> 0 < k \<Longrightarrow> length (dec_string n) \<le> k"
proof (induction n arbitrary: k rule: dec_string.induct)
  case (1 n)
  show ?case
  proof (cases "n < 10")
    case True
    with 1 show ?thesis by (subst dec_string.simps) simp
  next
    case False
    with 1 obtain j where k: "k = Suc j" and j: "0 < j"
      by (cases k; cases "k - 1") auto
    from 1 k have "n div 10 < 10 ^ j" by (simp add: div_less_iff_less_mult mult.commute)
    with 1 False j have "length (dec_string (n div 10)) \<le> j" by blast
    with False k show ?thesis by (subst dec_string.simps) simp
  qed
qed

lemma dec_val_zero_pad [simp]: "dec_val (zero_pad w s) = dec_val s"
proof -
  have "dec_val (replicate k (CHR ''0'')) = 0" for k
    by (induction k) auto
  then show ?thesis by (simp add: zero_pad_def dec_val_append)
qed

lemma digits_zero_pad: "list_all is_digit s \<Longrightarrow> list_all is_digit (zero_pad w s)"
  by (auto simp: zero_pad_def list_all_iff is_digit_def)

lemma length_zero_pad: "length s \<le> w \<Longrightarrow> length (zero_pad w s) = w"
  by (simp add: zero_pad_def)

text \<open>Digit strings of one length compare as the numbers they denote.\<close>

lemma digits_less_iff:
  "length s = length t \<Longrightarrow> list_all is_digit s \<Longrightarrow> list_all is_digit t \<Longrightarrow>
   s < t \<longleftrightarrow> dec_val s < dec_val t"
proof (induction s t rule: list_induct2)
  case Nil
  then show ?case by simp
next
  case (Cons c s d t)
  have b: "dec_val s < 10 ^ length t" "dec_val t < 10 ^ length t"
    using dec_val_bound [of s] dec_val_bound [of t] Cons by auto
  have cd: "48 \<le> byte c" "48 \<le> byte d"
    using Cons.prems by (auto simp: is_digit_def)
  consider "byte c < byte d" | "c = d" | "byte d < byte c"
    by (metis linorder_neqE_nat of_char_eq_iff)
  then show ?case
  proof cases
    case 1
    then have "Suc (byte c - 48) \<le> byte d - 48" using cd by linarith
    then have "Suc (byte c - 48) * 10 ^ length t \<le> (byte d - 48) * 10 ^ length t"
      by (rule mult_le_mono1)
    with 1 b Cons.hyps show ?thesis by (auto simp: less_char_def)
  next
    case 2
    with Cons show ?thesis by auto
  next
    case 3
    then have "Suc (byte d - 48) \<le> byte c - 48" using cd by linarith
    then have "Suc (byte d - 48) * 10 ^ length t \<le> (byte c - 48) * 10 ^ length t"
      by (rule mult_le_mono1)
    with 3 b Cons.hyps show ?thesis by (auto simp: less_char_def)
  qed
qed

lemma digits_eq_iff:
  "length s = length t \<Longrightarrow> list_all is_digit s \<Longrightarrow> list_all is_digit t \<Longrightarrow>
   s = t \<longleftrightarrow> dec_val s = dec_val t"
  by (metis digits_less_iff linorder_neqE order_less_irrefl)

text \<open>\<open>std::to_string\<close> and \<open><<\<close> of a signed integer.\<close>

definition int_string :: "int \<Rightarrow> string" where
  "int_string n = (if n < 0 then CHR ''-'' # dec_string (nat (- n)) else dec_string (nat n))"

section \<open>Parsing\<close>

text \<open>
  \<open>std::stoul\<close> (\<open>std::stoull\<close>) in base ten: white space, an optional sign, the longest run of
  digits, the rest ignored.  It throws (\<open>None\<close>) when there is no digit or the number does not
  fit in 64 bits; a minus sign negates in the unsigned type.
\<close>

definition sign_split :: "string \<Rightarrow> bool \<times> string" where
  "sign_split s =
     (case s of [] \<Rightarrow> (False, [])
      | c # t \<Rightarrow> if c = CHR ''-'' then (True, t) else if c = CHR ''+'' then (False, t) else (False, s))"

definition std_stoul :: "string \<Rightarrow> u64 option" where
  "std_stoul s =
     (let (negative, t) = sign_split (dropWhile is_space s); ds = takeWhile is_digit t; n = dec_val ds in
      if ds = [] \<or> 2 ^ 64 \<le> n then None else Some (if negative then - of_nat n else of_nat n))"

text \<open>The lines that repeated \<open>std::getline\<close> yields.\<close>

function getlines :: "string \<Rightarrow> string list" where
  "getlines s =
     (if s = [] then []
      else (let l = takeWhile (\<lambda>c. c \<noteq> CHR 0x0A) s in l # getlines (drop (Suc (length l)) s)))"
  by pat_completeness auto
termination
proof (relation "measure length")
  show "s \<noteq> [] \<Longrightarrow> l = takeWhile (\<lambda>c. c \<noteq> CHR 0x0A) s \<Longrightarrow> (drop (Suc (length l)) s, s) \<in> measure length" for s l
    by (cases s) simp_all
qed simp

declare getlines.simps [simp del]

lemma getlines_Nil [simp]: "getlines [] = []"
  by (simp add: getlines.simps)

lemma getlines_line [simp]:
  "CHR 0x0A \<notin> set l \<Longrightarrow> getlines (l @ CHR 0x0A # s) = l # getlines s"
proof -
  assume l: "CHR 0x0A \<notin> set l"
  then have "takeWhile (\<lambda>c. c \<noteq> CHR 0x0A) (l @ CHR 0x0A # s) = l"
    by (subst takeWhile_append2) auto
  then show ?thesis by (subst getlines.simps) (simp add: Let_def)
qed

lemma std_stoul_dec_string:
  assumes "n < 2 ^ 64" shows "std_stoul (dec_string n) = Some (of_nat n)"
proof -
  have "dec_string n \<noteq> []" by (subst dec_string.simps) simp
  then obtain c t where s: "dec_string n = c # t" by (cases "dec_string n") simp_all
  have d: "list_all is_digit (c # t)" using digits_dec_string [of n] by (simp add: s)
  then have "\<not> is_space c" "c \<noteq> CHR ''-''" "c \<noteq> CHR ''+''"
    by (auto simp: is_digit_def is_space_def)
  moreover have tw: "takeWhile is_digit (c # t) = c # t"
    by (rule takeWhile_eq_all_conv [THEN iffD2]) (use d in \<open>simp add: list_all_iff\<close>)
  moreover have "dec_val (c # t) = n" using dec_val_dec_string [of n] by (simp add: s)
  ultimately show ?thesis using assms unfolding std_stoul_def s
    by (simp add: sign_split_def Let_def tw del: dec_val.simps takeWhile.simps)
qed

end
