(* ===== verification/Json_Api.thy ===== *)
theory Json_Api
  imports Byte_Strings
begin

text \<open>
  \<open>src/util/json.cpp\<close> over \<open>boost::property_tree\<close>.

  The property tree and its JSON reader and writer are third-party code: the record
  \<open>json_api\<close> holds the operations the sources call, and every definition that builds or
  reads JSON takes it as a parameter.  The locale \<open>json_laws\<close> states the documented
  behaviour that round trips rely on (reading what was put under a key without a dot;
  reading back a written document; floating-point values only up to their printed
  precision \<open>rnd\<close>).  It is interpreted on a small concrete property tree, which shows
  that the laws can hold together.
\<close>

section \<open>The operations of a property tree\<close>

datatype jscalar = JStr string | JBool bool | JU64 u64 | JInt int | JReal real

record 'j json_api =
  j_empty :: 'j
  j_put :: "string \<Rightarrow> jscalar \<Rightarrow> 'j \<Rightarrow> 'j"
  j_add_child :: "string \<Rightarrow> 'j \<Rightarrow> 'j \<Rightarrow> 'j"
  j_push_back :: "string \<Rightarrow> 'j \<Rightarrow> 'j \<Rightarrow> 'j"
  j_get_string :: "'j \<Rightarrow> string \<Rightarrow> string option"
  j_get_bool :: "'j \<Rightarrow> string \<Rightarrow> bool option"
  j_get_u64 :: "'j \<Rightarrow> string \<Rightarrow> u64 option"
  j_get_int :: "'j \<Rightarrow> string \<Rightarrow> int option"
  j_get_double :: "'j \<Rightarrow> string \<Rightarrow> real option"
  j_get_child :: "'j \<Rightarrow> string \<Rightarrow> 'j option"
  j_children :: "'j \<Rightarrow> (string \<times> 'j) list"
  j_value :: "'j \<Rightarrow> string"
  j_write :: "bool \<Rightarrow> 'j \<Rightarrow> string"
  j_read :: "string \<Rightarrow> string + 'j"

section \<open>The helpers of util/json.cpp\<close>

definition ParseJson :: "'j json_api \<Rightarrow> string \<Rightarrow> string + 'j" where
  "ParseJson J s = j_read J s"

definition ToJsonString :: "'j json_api \<Rightarrow> 'j \<Rightarrow> bool \<Rightarrow> string" where
  "ToJsonString J json pretty = j_write J pretty json"

definition MakeArray :: "'j json_api \<Rightarrow> string list \<Rightarrow> 'j" where
  "MakeArray J values =
     fold (\<lambda>v arr. j_push_back J '''' (j_put J '''' (JStr v) (j_empty J)) arr) values (j_empty J)"

definition ReadStringArray :: "'j json_api \<Rightarrow> 'j \<Rightarrow> string \<Rightarrow> string list" where
  "ReadStringArray J json path =
     (case j_get_child J json path of
        None \<Rightarrow> []
      | Some arr \<Rightarrow> map (\<lambda>it. j_value J (snd it)) (j_children J arr))"

definition value_or :: "'a option \<Rightarrow> 'a \<Rightarrow> 'a" where
  "value_or opt fallback = (case opt of None \<Rightarrow> fallback | Some v \<Rightarrow> v)"

definition GetStringOr :: "'j json_api \<Rightarrow> 'j \<Rightarrow> string \<Rightarrow> string \<Rightarrow> string" where
  "GetStringOr J json path fallback = value_or (j_get_string J json path) fallback"

definition GetIntOr :: "'j json_api \<Rightarrow> 'j \<Rightarrow> string \<Rightarrow> int \<Rightarrow> int" where
  "GetIntOr J json path fallback = value_or (j_get_int J json path) fallback"

definition GetUint64Or :: "'j json_api \<Rightarrow> 'j \<Rightarrow> string \<Rightarrow> u64 \<Rightarrow> u64" where
  "GetUint64Or J json path fallback = value_or (j_get_u64 J json path) fallback"

definition GetBoolOr :: "'j json_api \<Rightarrow> 'j \<Rightarrow> string \<Rightarrow> bool \<Rightarrow> bool" where
  "GetBoolOr J json path fallback = value_or (j_get_bool J json path) fallback"

definition put_fields :: "'j json_api \<Rightarrow> (string \<times> jscalar) list \<Rightarrow> 'j \<Rightarrow> 'j" where
  "put_fields J kvs json = fold (\<lambda>(k, v). j_put J k v) kvs json"

lemma value_or_simps [simp]: "value_or None x = x" "value_or (Some v) x = v"
  by (simp_all add: value_or_def)

section \<open>The laws\<close>

text \<open>
  A path is split at its dots: \<open>put\<close> and \<open>add_child\<close> walk down from the child named by the
  first segment, making what is missing.  Reading is stated for plain keys: non-empty and
  without a dot.
\<close>

definition path_head :: "string \<Rightarrow> string" where
  "path_head path = takeWhile (\<lambda>c. c \<noteq> CHR ''.'') path"

definition plain_key :: "string \<Rightarrow> bool" where
  "plain_key k \<longleftrightarrow> k \<noteq> [] \<and> CHR ''.'' \<notin> set k"

locale json_laws =
  fixes J :: "'j json_api"
    and rnd :: "real \<Rightarrow> real"
    and readable :: "'j \<Rightarrow> bool"
  assumes get_string_put: "plain_key k \<Longrightarrow> j_get_string J (j_put J k (JStr v) j) k = Some v"
    and get_bool_put: "plain_key k \<Longrightarrow> j_get_bool J (j_put J k (JBool b) j) k = Some b"
    and get_u64_put: "plain_key k \<Longrightarrow> j_get_u64 J (j_put J k (JU64 n) j) k = Some n"
    and get_double_put: "plain_key k \<Longrightarrow> j_get_double J (j_put J k (JReal x) j) k = Some (rnd x)"
    and get_int_put: "plain_key k \<Longrightarrow> - (2 ^ 31) \<le> m \<Longrightarrow> m < 2 ^ 31 \<Longrightarrow>
      j_get_int J (j_put J k (JInt m) j) k = Some m"
    and get_put_path: "plain_key k \<Longrightarrow> plain_key (path_head p) \<Longrightarrow> k \<noteq> path_head p \<Longrightarrow>
      j_get_string J (j_put J p i j) k = j_get_string J j k \<and>
      j_get_bool J (j_put J p i j) k = j_get_bool J j k \<and>
      j_get_u64 J (j_put J p i j) k = j_get_u64 J j k \<and>
      j_get_double J (j_put J p i j) k = j_get_double J j k \<and>
      j_get_int J (j_put J p i j) k = j_get_int J j k \<and>
      j_get_child J (j_put J p i j) k = j_get_child J j k"
    and get_add_path: "plain_key k \<Longrightarrow> plain_key (path_head p) \<Longrightarrow> k \<noteq> path_head p \<Longrightarrow>
      j_get_string J (j_add_child J p c j) k = j_get_string J j k \<and>
      j_get_bool J (j_add_child J p c j) k = j_get_bool J j k \<and>
      j_get_u64 J (j_add_child J p c j) k = j_get_u64 J j k \<and>
      j_get_double J (j_add_child J p c j) k = j_get_double J j k \<and>
      j_get_int J (j_add_child J p c j) k = j_get_int J j k \<and>
      j_get_child J (j_add_child J p c j) k = j_get_child J j k"
    and put_path_child: "plain_key (path_head p) \<Longrightarrow> j_get_child J (j_put J p i j) (path_head p) \<noteq> None"
    and add_path_child: "plain_key (path_head p) \<Longrightarrow> j_get_child J (j_add_child J p c j) (path_head p) \<noteq> None"
    and get_child_add: "plain_key k \<Longrightarrow> j_get_child J j k = None \<Longrightarrow>
      j_get_child J (j_add_child J k c j) k = Some c"
    and get_absent: "plain_key k \<Longrightarrow> j_get_child J j k = None \<Longrightarrow>
      j_get_string J j k = None \<and> j_get_bool J j k = None \<and> j_get_u64 J j k = None \<and>
      j_get_double J j k = None \<and> j_get_int J j k = None"
    and get_int_path: "plain_key k \<Longrightarrow> plain_key k' \<Longrightarrow>
      j_get_int J j (k @ ''.'' @ k') = Option.bind (j_get_child J j k) (\<lambda>c. j_get_int J c k')"
    and get_string_path: "plain_key k \<Longrightarrow> plain_key k' \<Longrightarrow>
      j_get_string J j (k @ ''.'' @ k') = Option.bind (j_get_child J j k) (\<lambda>c. j_get_string J c k')"
    and get_child_empty: "plain_key k \<Longrightarrow> j_get_child J (j_empty J) k = None"
    and children_empty: "j_children J (j_empty J) = []"
    and children_push: "j_children J (j_push_back J k c j) = j_children J j @ [(k, c)]"
    and children_put: "plain_key k \<Longrightarrow> k \<notin> fst ` set (j_children J j) \<Longrightarrow>
      \<exists>leaf. j_children J (j_put J k (JStr v) j) = j_children J j @ [(k, leaf)] \<and> j_value J leaf = v"
    and value_leaf: "j_value J (j_put J '''' (JStr v) j) = v"
    and read_write: "readable j \<Longrightarrow> j_read J (j_write J pretty j) = Inr j"
begin

lemma path_head_plain: "plain_key k \<Longrightarrow> path_head k = k"
  by (simp add: path_head_def plain_key_def takeWhile_eq_all_conv) metis

lemma get_child_put: "plain_key k \<Longrightarrow> j_get_child J (j_put J k i j) k \<noteq> None"
  using put_path_child [of k] by (simp add: path_head_plain)

lemma get_put_other: "plain_key k \<Longrightarrow> plain_key k' \<Longrightarrow> k \<noteq> k' \<Longrightarrow>
    j_get_string J (j_put J k' i j) k = j_get_string J j k \<and>
    j_get_bool J (j_put J k' i j) k = j_get_bool J j k \<and>
    j_get_u64 J (j_put J k' i j) k = j_get_u64 J j k \<and>
    j_get_double J (j_put J k' i j) k = j_get_double J j k \<and>
    j_get_int J (j_put J k' i j) k = j_get_int J j k \<and>
    j_get_child J (j_put J k' i j) k = j_get_child J j k"
  using get_put_path [of k k'] by (simp add: path_head_plain)

lemma get_add_child_other: "plain_key k \<Longrightarrow> plain_key k' \<Longrightarrow> k \<noteq> k' \<Longrightarrow>
    j_get_string J (j_add_child J k' c j) k = j_get_string J j k \<and>
    j_get_bool J (j_add_child J k' c j) k = j_get_bool J j k \<and>
    j_get_u64 J (j_add_child J k' c j) k = j_get_u64 J j k \<and>
    j_get_double J (j_add_child J k' c j) k = j_get_double J j k \<and>
    j_get_int J (j_add_child J k' c j) k = j_get_int J j k \<and>
    j_get_child J (j_add_child J k' c j) k = j_get_child J j k"
  using get_add_path [of k k'] by (simp add: path_head_plain)

lemma read_MakeArray: "map (\<lambda>it. j_value J (snd it)) (j_children J (MakeArray J vs)) = vs"
proof -
  have "map (\<lambda>it. j_value J (snd it)) (j_children J (fold (\<lambda>v arr.
      j_push_back J '''' (j_put J '''' (JStr v) (j_empty J)) arr) vs a)) =
    map (\<lambda>it. j_value J (snd it)) (j_children J a) @ vs" for a
    by (induction vs arbitrary: a) (simp_all add: children_push value_leaf)
  then show ?thesis by (simp add: MakeArray_def children_empty)
qed

text \<open>An object built by putting strings under distinct plain keys lists them in order.\<close>

lemma children_put_strings:
  assumes "list_all plain_key (map fst kvs)" "distinct (map fst kvs)"
    "fst ` set kvs \<inter> fst ` set (j_children J j) = {}"
  shows "map (\<lambda>it. (fst it, j_value J (snd it)))
      (j_children J (put_fields J (map (\<lambda>(k, v). (k, JStr v)) kvs) j)) =
    map (\<lambda>it. (fst it, j_value J (snd it))) (j_children J j) @ kvs"
  using assms
proof (induction kvs arbitrary: j)
  case Nil
  then show ?case by (simp add: put_fields_def)
next
  case (Cons kv kvs)
  obtain k v where kv: "kv = (k, v)" by (cases kv)
  from Cons.prems kv obtain leaf where leaf:
    "j_children J (j_put J k (JStr v) j) = j_children J j @ [(k, leaf)]" "j_value J leaf = v"
    using children_put [of k j v] by auto
  have "fst ` set kvs \<inter> fst ` set (j_children J (j_put J k (JStr v) j)) = {}"
    using Cons.prems by (auto simp: leaf kv)
  with Cons.IH [of "j_put J k (JStr v) j"] Cons.prems show ?case
    by (simp add: put_fields_def kv leaf)
qed

end

section \<open>A concrete property tree\<close>

text \<open>
  A tree with a string at every node, as the library has it.  Its textual form here is not
  JSON but a length-prefixed one, since the laws speak of reading back what was written.
\<close>

datatype ptree = PT (pt_data: string) (pt_kids: "(string \<times> ptree) list")

definition pt_set :: "string \<Rightarrow> ptree \<Rightarrow> ptree \<Rightarrow> ptree" where
  "pt_set k c t = PT (pt_data t)
     (if k \<in> fst ` set (pt_kids t) then AList.update k c (pt_kids t) else pt_kids t @ [(k, c)])"

definition bool_string :: "bool \<Rightarrow> string" where
  "bool_string b = (if b then ''true'' else ''false'')"

definition scalar_string :: "jscalar \<Rightarrow> string" where
  "scalar_string x =
     (case x of JStr s \<Rightarrow> s | JBool b \<Rightarrow> bool_string b | JU64 n \<Rightarrow> dec_string (unat n)
      | JInt n \<Rightarrow> int_string n | JReal r \<Rightarrow> dec_string (nat \<lfloor>r\<rfloor>))"

text \<open>A path, segment by segment; a change at the end of a path; what is found there.\<close>

function path_segments :: "string \<Rightarrow> string list" where
  "path_segments path =
     (if path = [] then []
      else path_head path # path_segments (drop 1 (dropWhile (\<lambda>c. c \<noteq> CHR ''.'') path)))"
  by pat_completeness auto
termination
  by (relation "measure length") (auto intro: le_less_trans [OF diff_le_mono [OF length_dropWhile_le]])

declare path_segments.simps [simp del]

fun pt_at :: "(ptree \<Rightarrow> ptree) \<Rightarrow> string list \<Rightarrow> ptree \<Rightarrow> ptree" where
  "pt_at f [] t = f t"
| "pt_at f (k # ks) t =
     pt_set k (pt_at f ks (case map_of (pt_kids t) k of None \<Rightarrow> PT '''' [] | Some c \<Rightarrow> c)) t"

fun pt_walk :: "string list \<Rightarrow> ptree \<Rightarrow> ptree option" where
  "pt_walk [] t = Some t"
| "pt_walk (k # ks) t = Option.bind (map_of (pt_kids t) k) (pt_walk ks)"

definition pt_put :: "string \<Rightarrow> jscalar \<Rightarrow> ptree \<Rightarrow> ptree" where
  "pt_put path x t = pt_at (\<lambda>c. PT (scalar_string x) (pt_kids c)) (path_segments path) t"

definition pt_push :: "string \<Rightarrow> ptree \<Rightarrow> ptree \<Rightarrow> ptree" where
  "pt_push k c t = PT (pt_data t) (pt_kids t @ [(k, c)])"

definition pt_add_child :: "string \<Rightarrow> ptree \<Rightarrow> ptree \<Rightarrow> ptree" where
  "pt_add_child path c t =
     (let ks = path_segments path in if ks = [] then t else pt_at (pt_push (last ks) c) (butlast ks) t)"

definition pt_find :: "ptree \<Rightarrow> string \<Rightarrow> ptree option" where
  "pt_find t path = pt_walk (path_segments path) t"

definition nat_of_digits :: "string \<Rightarrow> nat option" where
  "nat_of_digits s = (if s \<noteq> [] \<and> list_all is_digit s then Some (dec_val s) else None)"

definition int_of_digits :: "string \<Rightarrow> int option" where
  "int_of_digits s =
     (case s of [] \<Rightarrow> None
      | c # t \<Rightarrow> if c = CHR ''-'' then map_option (\<lambda>n. - int n) (nat_of_digits t) else map_option int (nat_of_digits s))"

text \<open>The textual form: unary length, a separator, the data, and the children likewise.\<close>

definition enc_string :: "string \<Rightarrow> string" where
  "enc_string s = replicate (length s) (CHR ''#'') @ '':'' @ s"

fun enc_tree :: "ptree \<Rightarrow> string" and enc_kids :: "(string \<times> ptree) list \<Rightarrow> string" where
  "enc_tree (PT d ks) = enc_string d @ enc_kids ks"
| "enc_kids [] = '';''"
| "enc_kids ((k, c) # ks) = '','' @ enc_string k @ enc_tree c @ enc_kids ks"

definition dec_str :: "string \<Rightarrow> (string \<times> string) option" where
  "dec_str s =
     (let n = length (takeWhile (\<lambda>c. c = CHR ''#'') s); r = drop (Suc n) s in
      if length r < n then None else Some (take n r, drop n r))"

fun dec_tree :: "nat \<Rightarrow> string \<Rightarrow> (ptree \<times> string) option"
  and dec_kids :: "nat \<Rightarrow> string \<Rightarrow> ((string \<times> ptree) list \<times> string) option" where
  "dec_tree 0 s = None"
| "dec_tree (Suc f) s =
     (case dec_str s of
        None \<Rightarrow> None
      | Some (d, r) \<Rightarrow>
          (case dec_kids f r of None \<Rightarrow> None | Some (ks, r) \<Rightarrow> Some (PT d ks, r)))"
| "dec_kids 0 s = None"
| "dec_kids (Suc f) s =
     (case s of
        [] \<Rightarrow> None
      | c # r \<Rightarrow>
          if c = CHR '';'' then Some ([], r)
          else
            (case dec_str r of
               None \<Rightarrow> None
             | Some (k, r) \<Rightarrow>
                 (case dec_tree f r of
                    None \<Rightarrow> None
                  | Some (t, r) \<Rightarrow>
                      (case dec_kids f r of None \<Rightarrow> None | Some (ks, r) \<Rightarrow> Some ((k, t) # ks, r)))))"

definition pt_api :: "ptree json_api" where
  "pt_api =
     \<lparr> j_empty = PT '''' [], j_put = pt_put, j_add_child = pt_add_child, j_push_back = pt_push,
       j_get_string = (\<lambda>t k. map_option pt_data (pt_find t k)),
       j_get_bool = (\<lambda>t k. Option.bind (pt_find t k) (\<lambda>c.
          if pt_data c = ''true'' then Some True
          else if pt_data c = ''false'' then Some False else None)),
       j_get_u64 = (\<lambda>t k. Option.bind (pt_find t k) (\<lambda>c. map_option of_nat (nat_of_digits (pt_data c)))),
       j_get_int = (\<lambda>t k. Option.bind (pt_find t k) (\<lambda>c. int_of_digits (pt_data c))),
       j_get_double = (\<lambda>t k. Option.bind (pt_find t k) (\<lambda>c. map_option real (nat_of_digits (pt_data c)))),
       j_get_child = pt_find, j_children = pt_kids, j_value = pt_data,
       j_write = (\<lambda>_ t. enc_tree t),
       j_read = (\<lambda>s. case dec_tree (Suc (length s)) s of Some (t, []) \<Rightarrow> Inr t | _ \<Rightarrow> Inl ''parse error'') \<rparr>"

lemma dec_enc_string: "dec_str (enc_string s @ r) = Some (s, r)"
proof -
  have "takeWhile (\<lambda>c. c = CHR ''#'') (replicate n (CHR ''#'') @ CHR '':'' # t) = replicate n (CHR ''#'')"
    for n t
    by (induction n) auto
  then show ?thesis by (simp add: dec_str_def enc_string_def Let_def)
qed

lemma dec_enc_tree:
  "length (enc_tree t) \<le> f \<Longrightarrow> dec_tree f (enc_tree t @ r) = Some (t, r)"
  "length (enc_kids ks) \<le> f \<Longrightarrow> dec_kids f (enc_kids ks @ r) = Some (ks, r)"
proof (induction t and ks arbitrary: f r and f r rule: enc_tree_enc_kids.induct)
  case (1 d ks)
  then obtain g where f: "f = Suc g" by (cases f) (auto simp: enc_string_def)
  from 1 have "length (enc_kids ks) \<le> g" by (simp add: f enc_string_def)
  with 1 show ?case by (simp add: f dec_enc_string)
next
  case 2
  then show ?case by (cases f) auto
next
  case (3 k c ks)
  then obtain g where f: "f = Suc g" by (cases f) auto
  from 3 have "length (enc_tree c) \<le> g" "length (enc_kids ks) \<le> g" by (simp_all add: f)
  with 3 show ?case by (simp add: f dec_enc_string)
qed

lemma path_segments_head: "plain_key (path_head p) \<Longrightarrow> \<exists>ks. path_segments p = path_head p # ks"
  by (cases "p = []") (simp_all add: path_segments.simps [of p] path_head_def plain_key_def)

lemma path_segments_plain: "plain_key k \<Longrightarrow> path_segments k = [k]"
proof -
  assume k: "plain_key k"
  have all: "takeWhile (\<lambda>c. c \<noteq> CHR ''.'') k = k" using k by (auto simp: plain_key_def takeWhile_eq_all_conv)
  from all have none: "dropWhile (\<lambda>c. c \<noteq> CHR ''.'') k = []"
    using takeWhile_dropWhile_id [of "\<lambda>c. c \<noteq> CHR ''.''" k] by simp
  have "path_segments [] = []" by (simp add: path_segments.simps)
  with k all show ?thesis
    by (subst path_segments.simps) (simp add: path_head_def plain_key_def none)
qed

lemma path_segments_Nil [simp]: "path_segments [] = []"
  by (simp add: path_segments.simps)

lemma path_segments_two: "plain_key k \<Longrightarrow> plain_key k' \<Longrightarrow> path_segments (k @ ''.'' @ k') = [k, k']"
proof -
  assume k: "plain_key k" "plain_key k'"
  then have "\<forall>c \<in> set k. c \<noteq> CHR ''.''" by (auto simp: plain_key_def)
  then have "takeWhile (\<lambda>c. c \<noteq> CHR ''.'') (k @ CHR ''.'' # k') = k"
    "dropWhile (\<lambda>c. c \<noteq> CHR ''.'') (k @ CHR ''.'' # k') = CHR ''.'' # k'"
    by (induction k) simp_all
  with k show ?thesis
    by (subst path_segments.simps) (simp add: path_head_def path_segments_plain)
qed

lemma pt_find_plain: "plain_key k \<Longrightarrow> pt_find t k = map_of (pt_kids t) k"
  by (cases "map_of (pt_kids t) k") (simp_all add: pt_find_def path_segments_plain)

lemma map_of_pt_set: "map_of (pt_kids (pt_set k c t)) k' = (if k' = k then Some c else map_of (pt_kids t) k')"
proof (cases "k \<in> fst ` set (pt_kids t)")
  case True
  then show ?thesis by (simp add: pt_set_def update_conv')
next
  case False
  then have "map_of (pt_kids t) k = None" by (simp add: map_of_eq_None_iff)
  with False show ?thesis by (simp add: pt_set_def map_add_def split: option.splits)
qed

lemma map_of_pt_push: "map_of (pt_kids (pt_push s c t)) k =
    (case map_of (pt_kids t) k of None \<Rightarrow> if k = s then Some c else None | Some x \<Rightarrow> Some x)"
  by (simp add: pt_push_def map_add_def split: option.split)

lemma map_of_pt_put:
  assumes "plain_key (path_head p)"
  shows "k \<noteq> path_head p \<Longrightarrow> map_of (pt_kids (pt_put p x t)) k = map_of (pt_kids t) k"
    "\<exists>y. map_of (pt_kids (pt_put p x t)) (path_head p) = Some y"
  using path_segments_head [OF assms] by (auto simp: pt_put_def map_of_pt_set)

lemma map_of_pt_add_child:
  assumes "plain_key (path_head p)"
  shows "k \<noteq> path_head p \<Longrightarrow> map_of (pt_kids (pt_add_child p c t)) k = map_of (pt_kids t) k"
    "\<exists>y. map_of (pt_kids (pt_add_child p c t)) (path_head p) = Some y"
proof -
  obtain ks where ks: "path_segments p = path_head p # ks" using path_segments_head [OF assms] by blast
  show "k \<noteq> path_head p \<Longrightarrow> map_of (pt_kids (pt_add_child p c t)) k = map_of (pt_kids t) k"
    by (cases ks) (simp_all add: pt_add_child_def ks map_of_pt_set map_of_pt_push split: option.split)
  show "\<exists>y. map_of (pt_kids (pt_add_child p c t)) (path_head p) = Some y"
    by (cases ks) (simp_all add: pt_add_child_def ks map_of_pt_set map_of_pt_push split: option.split)
qed

lemma map_of_pt_put_plain: "plain_key k \<Longrightarrow> \<exists>kids. map_of (pt_kids (pt_put k x t)) k = Some (PT (scalar_string x) kids)"
  by (simp add: pt_put_def path_segments_plain map_of_pt_set)

lemma nat_of_digits_dec_string [simp]: "nat_of_digits (dec_string n) = Some n"
proof -
  have "dec_string n \<noteq> []" by (subst dec_string.simps) simp
  then show ?thesis by (simp add: nat_of_digits_def digits_dec_string)
qed

lemma int_of_digits_int_string [simp]: "int_of_digits (int_string n) = Some n"
proof (cases "n < 0")
  case False
  obtain c t where s: "dec_string (nat n) = c # t"
    by (cases "dec_string (nat n)") (simp_all add: dec_string.simps [of "nat n"] split: if_splits)
  then have "c \<noteq> CHR ''-''" using digits_dec_string [of "nat n"] by (auto simp: is_digit_def)
  moreover have "nat_of_digits (c # t) = Some (nat n)" using nat_of_digits_dec_string [of "nat n"] by (simp add: s)
  ultimately show ?thesis using False by (simp add: int_of_digits_def int_string_def s)
qed (simp add: int_of_digits_def int_string_def)

interpretation pt: json_laws pt_api "\<lambda>x. real (nat \<lfloor>x\<rfloor>)" "\<lambda>_. True"
proof unfold_locales
  fix k :: string and v :: string and b n x m j c pretty p i
  assume k: "plain_key k"
  show "j_get_string pt_api (j_put pt_api k (JStr v) j) k = Some v"
    "j_get_bool pt_api (j_put pt_api k (JBool b) j) k = Some b"
    "j_get_u64 pt_api (j_put pt_api k (JU64 n) j) k = Some n"
    "j_get_double pt_api (j_put pt_api k (JReal x) j) k = Some (real (nat \<lfloor>x\<rfloor>))"
    "j_get_int pt_api (j_put pt_api k (JInt m) j) k = Some m"
    using map_of_pt_put_plain [OF k, of "JStr v" j] map_of_pt_put_plain [OF k, of "JBool b" j]
      map_of_pt_put_plain [OF k, of "JU64 n" j] map_of_pt_put_plain [OF k, of "JReal x" j]
      map_of_pt_put_plain [OF k, of "JInt m" j]
    by (auto simp: pt_api_def pt_find_plain [OF k] scalar_string_def bool_string_def)
  show "j_get_child pt_api (j_add_child pt_api k c j) k = Some c" if "j_get_child pt_api j k = None"
    using that by (simp add: pt_api_def pt_find_plain [OF k] pt_add_child_def path_segments_plain [OF k] map_of_pt_push)
  show "j_get_string pt_api j k = None \<and> j_get_bool pt_api j k = None \<and> j_get_u64 pt_api j k = None \<and>
      j_get_double pt_api j k = None \<and> j_get_int pt_api j k = None" if "j_get_child pt_api j k = None"
    using that by (simp add: pt_api_def)
  show "j_get_child pt_api (j_empty pt_api) k = None"
    by (simp add: pt_api_def pt_find_plain [OF k])
  show "\<exists>leaf. j_children pt_api (j_put pt_api k (JStr v) j) = j_children pt_api j @ [(k, leaf)] \<and>
      j_value pt_api leaf = v" if "k \<notin> fst ` set (j_children pt_api j)"
    using that by (simp add: pt_api_def pt_put_def path_segments_plain [OF k] pt_set_def scalar_string_def)
  show "j_get_int pt_api j (k @ ''.'' @ k') = Option.bind (j_get_child pt_api j k) (\<lambda>c. j_get_int pt_api c k')"
    "j_get_string pt_api j (k @ ''.'' @ k') = Option.bind (j_get_child pt_api j k) (\<lambda>c. j_get_string pt_api c k')"
    if "plain_key k'" for k'
    by (cases "map_of (pt_kids j) k";
        simp add: pt_api_def pt_find_def path_segments_two [OF k that, simplified] path_segments_plain [OF k]
          path_segments_plain [OF that])+
  assume p: "plain_key (path_head p)" "k \<noteq> path_head p"
  note other = map_of_pt_put(1) [OF p, of i j] map_of_pt_add_child(1) [OF p, of c j]
  show "j_get_string pt_api (j_put pt_api p i j) k = j_get_string pt_api j k \<and>
      j_get_bool pt_api (j_put pt_api p i j) k = j_get_bool pt_api j k \<and>
      j_get_u64 pt_api (j_put pt_api p i j) k = j_get_u64 pt_api j k \<and>
      j_get_double pt_api (j_put pt_api p i j) k = j_get_double pt_api j k \<and>
      j_get_int pt_api (j_put pt_api p i j) k = j_get_int pt_api j k \<and>
      j_get_child pt_api (j_put pt_api p i j) k = j_get_child pt_api j k"
    by (simp add: pt_api_def pt_find_plain [OF k] other)
  show "j_get_string pt_api (j_add_child pt_api p c j) k = j_get_string pt_api j k \<and>
      j_get_bool pt_api (j_add_child pt_api p c j) k = j_get_bool pt_api j k \<and>
      j_get_u64 pt_api (j_add_child pt_api p c j) k = j_get_u64 pt_api j k \<and>
      j_get_double pt_api (j_add_child pt_api p c j) k = j_get_double pt_api j k \<and>
      j_get_int pt_api (j_add_child pt_api p c j) k = j_get_int pt_api j k \<and>
      j_get_child pt_api (j_add_child pt_api p c j) k = j_get_child pt_api j k"
    by (simp add: pt_api_def pt_find_plain [OF k] other)
next
  fix p i j c
  assume p: "plain_key (path_head p)"
  show "j_get_child pt_api (j_put pt_api p i j) (path_head p) \<noteq> None"
    using map_of_pt_put(2) [OF p, of i j] by (auto simp: pt_api_def pt_find_plain [OF p])
  show "j_get_child pt_api (j_add_child pt_api p c j) (path_head p) \<noteq> None"
    using map_of_pt_add_child(2) [OF p, of c j] by (auto simp: pt_api_def pt_find_plain [OF p])
next
  fix k v c j pretty
  show "j_children pt_api (j_empty pt_api) = []"
    "j_children pt_api (j_push_back pt_api k c j) = j_children pt_api j @ [(k, c)]"
    "j_value pt_api (j_put pt_api '''' (JStr v) j) = v"
    by (simp_all add: pt_api_def pt_put_def pt_push_def scalar_string_def)
  show "j_read pt_api (j_write pt_api pretty j) = Inr j"
    using dec_enc_tree(1) [of j "Suc (length (enc_tree j))" "[]"] by (simp add: pt_api_def)
qed

end
