(* ===== verification/Mcp_Schema.thy ===== *)
theory Mcp_Schema
  imports Json_Api
begin

text \<open>
  The self-description of the service in \<open>src/mcp/mcp_dispatcher.cpp\<close>: the helpers that
  build schema objects, the schema of each method with its examples, and the error tables.
  \<open>put\<close> and \<open>add_child\<close> are those of the property tree; a run of them is a fold over the
  pairs in the order of the code.
\<close>

section \<open>Builders\<close>

definition StringArray :: "'j json_api \<Rightarrow> string list \<Rightarrow> 'j" where
  "StringArray J values = MakeArray J values"

definition add_children :: "'j json_api \<Rightarrow> (string \<times> 'j) list \<Rightarrow> 'j \<Rightarrow> 'j" where
  "add_children J kcs json = fold (\<lambda>(k, c). j_add_child J k c) kcs json"

definition object_of :: "'j json_api \<Rightarrow> (string \<times> jscalar) list \<Rightarrow> 'j" where
  "object_of J kvs = put_fields J kvs (j_empty J)"

definition array_of :: "'j json_api \<Rightarrow> 'j list \<Rightarrow> 'j" where
  "array_of J items = fold (\<lambda>c arr. j_push_back J '''' c arr) items (j_empty J)"

definition JsonSchema :: "'j json_api \<Rightarrow> string \<Rightarrow> string \<Rightarrow> 'j" where
  "JsonSchema J type description =
     (let schema = j_put J ''type'' (JStr type) (j_empty J) in
      if description \<noteq> '''' then j_put J ''description'' (JStr description) schema else schema)"

definition SetRequired :: "'j json_api \<Rightarrow> string list \<Rightarrow> 'j \<Rightarrow> 'j" where
  "SetRequired J names schema =
     (if names = [] then schema else j_add_child J ''required'' (StringArray J names) schema)"

definition SetEnum :: "'j json_api \<Rightarrow> string list \<Rightarrow> 'j \<Rightarrow> 'j" where
  "SetEnum J values schema =
     (if values = [] then schema else j_add_child J ''enum'' (StringArray J values) schema)"

text \<open>
  \<open>SetDefault\<close> has one overload for each of \<open>std::string\<close>, \<open>bool\<close>, \<open>int\<close> and \<open>double\<close>.  A
  string literal is a \<open>const char*\<close>: its conversion to \<open>bool\<close> is a standard conversion and wins
  over the user-defined one to \<open>std::string\<close>, so the calls with a literal put \<open>true\<close>.
\<close>

definition SetDefault_string :: "'j json_api \<Rightarrow> string \<Rightarrow> 'j \<Rightarrow> 'j" where
  "SetDefault_string J val schema = j_put J ''default'' (JStr val) schema"

definition SetDefault_bool :: "'j json_api \<Rightarrow> bool \<Rightarrow> 'j \<Rightarrow> 'j" where
  "SetDefault_bool J val schema = j_put J ''default'' (JBool val) schema"

definition SetDefault_int :: "'j json_api \<Rightarrow> int \<Rightarrow> 'j \<Rightarrow> 'j" where
  "SetDefault_int J val schema = j_put J ''default'' (JInt val) schema"

definition SetDefault_double :: "'j json_api \<Rightarrow> real \<Rightarrow> 'j \<Rightarrow> 'j" where
  "SetDefault_double J val schema = j_put J ''default'' (JReal val) schema"

definition SetDefault_literal :: "'j json_api \<Rightarrow> string \<Rightarrow> 'j \<Rightarrow> 'j" where
  "SetDefault_literal J literal schema = SetDefault_bool J True schema"

definition HttpError :: "'j json_api \<Rightarrow> string \<Rightarrow> int \<Rightarrow> string \<Rightarrow> string \<Rightarrow> 'j" where
  "HttpError J name status message when =
     object_of J [(''name'', JStr name), (''status'', JInt status), (''message'', JStr message), (''when'', JStr when)]"

definition JsonRpcErrorEntry :: "'j json_api \<Rightarrow> string \<Rightarrow> int \<Rightarrow> string \<Rightarrow> string \<Rightarrow> 'j" where
  "JsonRpcErrorEntry J name error_code message when =
     object_of J [(''name'', JStr name), (''code'', JInt error_code), (''message'', JStr message), (''when'', JStr when)]"

definition MakeExample :: "'j json_api \<Rightarrow> string \<Rightarrow> 'j \<Rightarrow> 'j \<Rightarrow> 'j" where
  "MakeExample J name request response =
     add_children J [(''request'', request), (''response'', response)] (object_of J [(''name'', JStr name)])"

section \<open>Examples\<close>

definition example_request :: "'j json_api \<Rightarrow> string \<Rightarrow> 'j \<Rightarrow> 'j" where
  "example_request J method params = j_add_child J ''params'' params (object_of J [(''method'', JStr method)])"

definition example_response :: "'j json_api \<Rightarrow> 'j \<Rightarrow> 'j" where
  "example_response J result = j_add_child J ''result'' result (j_empty J)"

definition BuildDescribeExamples :: "'j json_api \<Rightarrow> 'j" where
  "BuildDescribeExamples J = array_of J
     [MakeExample J ''describe_with_examples''
        (example_request J ''memory.describe'' (object_of J [(''include_examples'', JBool True)]))
        (example_response J (object_of J [(''describe_version'', JStr ''2.0.0''),
           (''schema_revision'', JStr ''2026-02-19.1'')]))]"

definition example_write_result :: "'j json_api \<Rightarrow> bool \<Rightarrow> 'j \<Rightarrow> int \<Rightarrow> 'j \<Rightarrow> 'j" where
  "example_write_result J is_ok stored_ids index_generation warnings =
     j_add_child J ''warnings'' warnings
       (j_put J ''index_generation'' (JInt index_generation)
         (j_add_child J ''deduped_ids'' (j_empty J)
           (j_add_child J ''stored_ids'' stored_ids (j_put J ''ok'' (JBool is_ok) (j_empty J)))))"

definition BuildWriteExamples :: "'j json_api \<Rightarrow> 'j" where
  "BuildWriteExamples J = array_of J
     [MakeExample J ''write_success''
        (example_request J ''memory.write''
           (j_add_child J ''records''
              (array_of J [object_of J [(''source'', JStr ''turn''),
                 (''content'', JStr ''remember retry with exponential backoff'')]])
              (object_of J [(''workspace_id'', JStr ''demo''), (''session_id'', JStr ''s1'')])))
        (example_response J (example_write_result J True (StringArray J [''m-demo-1'']) 1 (j_empty J))),
      MakeExample J ''write_validation_error''
        (example_request J ''memory.write''
           (j_add_child J ''records''
              (array_of J [object_of J [(''content'', JStr ''invalid without workspace'')]]) (j_empty J)))
        (example_response J (example_write_result J False (j_empty J) 0 (StringArray J [''workspace_id is required''])))]"

definition BuildQueryExamples :: "'j json_api \<Rightarrow> 'j" where
  "BuildQueryExamples J = array_of J
     [MakeExample J ''query_success''
        (example_request J ''memory.query''
           (object_of J [(''workspace_id'', JStr ''demo''), (''query'', JStr ''retry backoff''), (''top_k'', JInt 3),
              (''token_budget'', JInt 1200)]))
        (example_response J (add_children J
           [(''hits'', array_of J [object_of J [(''memory_id'', JStr ''m-demo-1''),
               (''content'', JStr ''remember retry with exponential backoff'')]]),
            (''debug_stats'', object_of J [(''merged_candidates'', JInt 1)])] (j_empty J))),
      MakeExample J ''query_empty_result''
        (example_request J ''memory.query''
           (object_of J [(''workspace_id'', JStr ''demo''), (''query'', JStr ''retry backoff'')]))
        (example_response J (add_children J [(''hits'', j_empty J), (''debug_stats'', j_empty J)] (j_empty J)))]"

definition BuildPinExamples :: "'j json_api \<Rightarrow> 'j" where
  "BuildPinExamples J = array_of J
     [MakeExample J ''pin_success''
        (example_request J ''memory.pin''
           (object_of J [(''workspace_id'', JStr ''demo''), (''memory_id'', JStr ''m-demo-1''), (''pin'', JBool True)]))
        (example_response J (object_of J [(''ok'', JBool True)])),
      MakeExample J ''pin_not_found''
        (example_request J ''memory.pin''
           (object_of J [(''workspace_id'', JStr ''demo''), (''memory_id'', JStr ''m-not-exist''), (''pin'', JBool True)]))
        (example_response J (object_of J [(''ok'', JBool False), (''error'', JStr ''record not found'')]))]"

definition BuildStatsExamples :: "'j json_api \<Rightarrow> 'j" where
  "BuildStatsExamples J = array_of J
     [MakeExample J ''stats_snapshot''
        (example_request J ''memory.stats'' (object_of J [(''workspace_id'', JStr ''demo''), (''window'', JStr ''5m'')]))
        (example_response J
           (j_add_child J ''index_stats'' (object_of J [(''segment_count'', JInt 1)])
              (object_of J [(''write_ack_mode'', JStr ''durable''), (''effective_backend'', JStr ''eloqstore'')])))]"

definition BuildCompactExamples :: "'j json_api \<Rightarrow> 'j" where
  "BuildCompactExamples J = array_of J
     [MakeExample J ''compact_success''
        (example_request J ''memory.compact'' (object_of J [(''workspace_id'', JStr ''demo'')]))
        (example_response J
           (object_of J [(''triggered'', JBool True), (''capacity_blocked'', JBool False), (''deleted_count'', JInt 0)]))]"

section \<open>Method schemas\<close>

definition closed_object :: "'j json_api \<Rightarrow> string \<Rightarrow> (string \<times> 'j) list \<Rightarrow> string list \<Rightarrow> 'j" where
  "closed_object J description props required =
     SetRequired J required
       (j_add_child J ''properties'' (add_children J props (j_empty J))
         (j_put J ''additionalProperties'' (JBool False) (JsonSchema J ''object'' description)))"

definition array_schema :: "'j json_api \<Rightarrow> string \<Rightarrow> 'j \<Rightarrow> 'j" where
  "array_schema J description items = j_add_child J ''items'' items (JsonSchema J ''array'' description)"

text \<open>What the method builders do with their parts at the end.\<close>

definition method_of :: "'j json_api \<Rightarrow> string \<Rightarrow> 'j \<Rightarrow> 'j \<Rightarrow> (string \<times> jscalar) list \<Rightarrow> string list \<Rightarrow> 'j option \<Rightarrow> 'j" where
  "method_of J summary input_schema output_schema semantics errors examples =
     (let method = add_children J
            [(''input_schema'', input_schema), (''output_schema'', output_schema),
             (''semantics'', object_of J semantics), (''errors'', StringArray J errors)]
            (object_of J [(''summary'', JStr summary)])
      in case examples of None \<Rightarrow> method | Some ex \<Rightarrow> j_add_child J ''examples'' ex method)"

definition describe_required :: "string list" where
  "describe_required = [''describe_version'', ''schema_revision'', ''generated_at_ms'', ''server'', ''method_names'',
     ''methods'', ''errors'']"

definition BuildDescribeMethod :: "'j json_api \<Rightarrow> bool \<Rightarrow> 'j" where
  "BuildDescribeMethod J include_examples =
     method_of J ''Return machine-readable server contract and method schemas.''
       (closed_object J ''Describe request.''
          [(''include_examples'', SetDefault_bool J False (JsonSchema J ''boolean'' ''Include request/response examples.''))] [])
       (closed_object J ''Describe response payload.''
          [(''describe_version'', JsonSchema J ''string'' ''Describe contract major version.''),
           (''schema_revision'', JsonSchema J ''string'' ''Schema revision identifier.''),
           (''generated_at_ms'', JsonSchema J ''integer'' ''Server generation timestamp in ms.''),
           (''server'', JsonSchema J ''object'' ''Server metadata.''),
           (''method_names'', JsonSchema J ''array'' ''Exposed method names.''),
           (''methods'', JsonSchema J ''object'' ''Per-method contract map.''),
           (''errors'', JsonSchema J ''object'' ''Error contract by protocol layer.'')] describe_required)
       [(''payload_size'', JStr ''Examples are omitted unless include_examples=true.''),
        (''stability'', JStr ''describe_version and schema_revision gate client parser compatibility.'')]
       [''jsonrpc.method_not_found'', ''jsonrpc.invalid_params'']
       (if include_examples then Some (BuildDescribeExamples J) else None)"

definition write_record_schema :: "'j json_api \<Rightarrow> 'j" where
  "write_record_schema J = closed_object J ''Write record item.''
     [(''record_id'', JsonSchema J ''string'' ''Optional caller-provided record id.''),
      (''source'', SetDefault_literal J ''turn'' (JsonSchema J ''string'' ''Record source label.'')),
      (''content'', JsonSchema J ''string'' ''Record content.''),
      (''tags'', array_schema J ''Tag list.'' (JsonSchema J ''string'' '''')),
      (''importance'', SetDefault_double J 1 (JsonSchema J ''number'' ''Importance score.'')),
      (''ttl_s'', SetDefault_int J 0 (JsonSchema J ''integer'' ''TTL in seconds. 0 means no expiry.'')),
      (''pin'', SetDefault_bool J False (JsonSchema J ''boolean'' ''Pin flag.'')),
      (''dedup_key'', JsonSchema J ''string'' ''Deduplication key.''),
      (''metadata'', JsonSchema J ''object'' ''String key/value metadata.'')] [''content'']"

definition write_required :: "string list" where
  "write_required = [''ok'', ''stored_ids'', ''deduped_ids'', ''index_generation'', ''warnings'']"

definition BuildWriteMethod :: "'j json_api \<Rightarrow> bool \<Rightarrow> 'j" where
  "BuildWriteMethod J include_examples =
     method_of J ''Write memory records into durable storage and index.''
       (closed_object J ''memory.write input.''
          [(''workspace_id'', JsonSchema J ''string'' ''Workspace id.''),
           (''session_id'', SetDefault_literal J ''default'' (JsonSchema J ''string'' ''Session id.'')),
           (''records'', array_schema J ''Records to write.'' (write_record_schema J)),
           (''write_mode'', SetDefault_literal J ''upsert''
              (SetEnum J [''upsert'', ''append''] (JsonSchema J ''string'' ''Write mode.'')))]
          [''workspace_id'', ''records''])
       (closed_object J ''memory.write output.''
          [(''ok'', JsonSchema J ''boolean'' ''Durable write success.''),
           (''stored_ids'', array_schema J ''Stored memory ids.'' (JsonSchema J ''string'' '''')),
           (''deduped_ids'', array_schema J ''Deduplicated memory ids.'' (JsonSchema J ''string'' '''')),
           (''index_generation'', JsonSchema J ''integer'' ''Index generation after write.''),
           (''warnings'', array_schema J ''Write warnings.'' (JsonSchema J ''string'' ''''))] write_required)
       [(''idempotency'', JStr ''With write_mode=upsert, dedup_key may suppress duplicate writes.''),
        (''ordering'', JStr ''stored_ids preserves accepted record order in this request.''),
        (''pin_governance'', JStr ''pin=true may be downgraded with warning when quota/ratio limits are hit.'')]
       [''jsonrpc.invalid_params'']
       (if include_examples then Some (BuildWriteExamples J) else None)"

definition query_input_schema :: "'j json_api \<Rightarrow> 'j" where
  "query_input_schema J =
     (let filter_schema = closed_object J ''Query filters.''
            [(''session_id'', JsonSchema J ''string'' ''Filter by session.''),
             (''sources'', array_schema J ''Allowed source values.'' (JsonSchema J ''string'' '''')),
             (''tags_any'', array_schema J ''Match any tag.'' (JsonSchema J ''string'' '''')),
             (''updated_after_ms'', JsonSchema J ''integer'' ''Lower update-time bound.''),
             (''updated_before_ms'', JsonSchema J ''integer'' ''Upper update-time bound.''),
             (''pinned_only'', JsonSchema J ''boolean'' ''Return pinned records only.'')] [];
          recall_schema = closed_object J ''Recall options.''
            [(''sparse_k'', SetDefault_int J 200 (JsonSchema J ''integer'' ''Sparse candidate count.'')),
             (''dense_k'', SetDefault_int J 200 (JsonSchema J ''integer'' ''Dense candidate count.'')),
             (''oversample'', SetDefault_int J 4 (JsonSchema J ''integer'' ''Candidate oversampling factor.''))] [];
          rerank_schema = closed_object J ''Rerank options.''
            [(''w_sparse'', SetDefault_double J 0.55 (JsonSchema J ''number'' ''Sparse score weight.'')),
             (''w_dense'', SetDefault_double J 0.30 (JsonSchema J ''number'' ''Dense score weight.'')),
             (''w_freshness'', SetDefault_double J 0.10 (JsonSchema J ''number'' ''Freshness score weight.'')),
             (''w_pin'', SetDefault_double J 0.05 (JsonSchema J ''number'' ''Pin score weight.''))] []
      in closed_object J ''memory.query input.''
           [(''workspace_id'', JsonSchema J ''string'' ''Workspace id.''),
            (''query'', JsonSchema J ''string'' ''Query text.''),
            (''top_k'', SetDefault_int J 8 (JsonSchema J ''integer'' ''Returned hit count.'')),
            (''token_budget'', SetDefault_int J 2048 (JsonSchema J ''integer'' ''Token budget; 0 means unlimited.'')),
            (''filters'', filter_schema), (''recall'', recall_schema), (''rerank'', rerank_schema),
            (''debug'', SetDefault_bool J False (JsonSchema J ''boolean'' ''Include debug stats.''))]
           [''workspace_id'', ''query''])"

definition score_required :: "string list" where
  "score_required = [''sparse'', ''dense'', ''freshness'', ''pin'', ''final'']"

definition hit_required :: "string list" where
  "hit_required = [''memory_id'', ''source'', ''content'', ''tags'', ''metadata'', ''scores'', ''updated_at_ms'', ''pinned'']"

definition query_output_schema :: "'j json_api \<Rightarrow> 'j" where
  "query_output_schema J =
     (let number = JsonSchema J ''number'' ''''; integer = JsonSchema J ''integer'' ''''; str = JsonSchema J ''string'' '''';
          score_schema = closed_object J ''Score breakdown.''
            [(''sparse'', number), (''dense'', number), (''freshness'', number), (''pin'', number), (''final'', number)]
            score_required;
          hit_schema = closed_object J ''Query hit.''
            [(''memory_id'', str), (''source'', str), (''content'', str), (''tags'', array_schema J '''' str),
             (''metadata'', JsonSchema J ''object'' ''''), (''scores'', score_schema), (''updated_at_ms'', integer),
             (''pinned'', JsonSchema J ''boolean'' '''')] hit_required;
          debug_latency = closed_object J ''''
            [(''sparse'', number), (''dense'', number), (''rerank'', number), (''total'', number)]
            [''sparse'', ''dense'', ''rerank'', ''total''];
          debug_schema = closed_object J ''Debug stats.''
            [(''sparse_candidates'', integer), (''dense_candidates'', integer), (''merged_candidates'', integer),
             (''latency_ms'', debug_latency)]
            [''sparse_candidates'', ''dense_candidates'', ''merged_candidates'', ''latency_ms'']
      in closed_object J ''memory.query output.''
           [(''hits'', array_schema J ''Ranked hits.'' hit_schema), (''debug_stats'', debug_schema)]
           [''hits'', ''debug_stats''])"

definition BuildQueryMethod :: "'j json_api \<Rightarrow> bool \<Rightarrow> 'j" where
  "BuildQueryMethod J include_examples =
     method_of J ''Query memory via sparse+dense hybrid retrieval.'' (query_input_schema J) (query_output_schema J)
       [(''ranking'', JStr ''Hits are ordered by final score descending.''),
        (''token_budget'', JStr ''Results are truncated when cumulative token estimate exceeds token_budget.''),
        (''expiry'', JStr ''Expired records are filtered before final output.'')]
       [''jsonrpc.invalid_params'']
       (if include_examples then Some (BuildQueryExamples J) else None)"

definition BuildPinMethod :: "'j json_api \<Rightarrow> bool \<Rightarrow> 'j" where
  "BuildPinMethod J include_examples =
     method_of J ''Pin or unpin an existing memory record.''
       (closed_object J ''memory.pin input.''
          [(''workspace_id'', JsonSchema J ''string'' ''Workspace id.''),
           (''memory_id'', JsonSchema J ''string'' ''Target memory id.''),
           (''pin'', SetDefault_bool J True (JsonSchema J ''boolean'' ''Pin=true, unpin=false.''))]
          [''workspace_id'', ''memory_id''])
       (closed_object J ''memory.pin output.''
          [(''ok'', JsonSchema J ''boolean'' ''Operation status.''),
           (''error'', JsonSchema J ''string'' ''Present when ok=false.'')] [''ok''])
       [(''governance'', JStr ''Pin operation may be rejected by quota or ratio limits.'')]
       [''jsonrpc.invalid_params'']
       (if include_examples then Some (BuildPinExamples J) else None)"

definition index_stats_required :: "string list" where
  "index_stats_required = [''segment_count'', ''posting_terms'', ''vector_count'', ''query_cache_hit_rate'',
     ''dense_probe_count_p95'', ''cold_rehydrate_count'']"

definition stats_required :: "string list" where
  "stats_required = [''p95_read_ms'', ''p95_write_ms'', ''token_reduction_ratio'', ''fallback_rate'', ''mem_used_bytes'',
     ''disk_used_bytes'', ''resident_used_bytes'', ''resident_limit_bytes'', ''resident_evicted_count'',
     ''disk_fallback_search_count'', ''item_count'', ''tombstone_count'', ''gc_last_run_ms'', ''gc_evicted_count'',
     ''capacity_blocked'', ''write_ack_mode'', ''effective_backend'', ''index_stats'']"

definition BuildStatsMethod :: "'j json_api \<Rightarrow> bool \<Rightarrow> 'j" where
  "BuildStatsMethod J include_examples =
     (let number = JsonSchema J ''number'' ''''; integer = JsonSchema J ''integer'' ''''; str = JsonSchema J ''string'' '''';
          index_schema = closed_object J ''Index statistics.''
            [(''segment_count'', integer), (''posting_terms'', integer), (''vector_count'', integer),
             (''query_cache_hit_rate'', number), (''dense_probe_count_p95'', number), (''cold_rehydrate_count'', integer)]
            index_stats_required
      in method_of J ''Return runtime usage and index counters.''
           (closed_object J ''memory.stats input.''
              [(''workspace_id'', JsonSchema J ''string'' ''Optional workspace scope.''),
               (''window'', SetDefault_literal J ''5m'' (JsonSchema J ''string'' ''Window hint.''))] [])
           (closed_object J ''memory.stats output.''
              [(''p95_read_ms'', number), (''p95_write_ms'', number), (''token_reduction_ratio'', number),
               (''fallback_rate'', number), (''mem_used_bytes'', integer), (''disk_used_bytes'', integer),
               (''resident_used_bytes'', integer), (''resident_limit_bytes'', integer),
               (''resident_evicted_count'', integer), (''disk_fallback_search_count'', integer), (''item_count'', integer),
               (''tombstone_count'', integer), (''gc_last_run_ms'', integer), (''gc_evicted_count'', integer),
               (''capacity_blocked'', JsonSchema J ''boolean'' ''''), (''write_ack_mode'', str),
               (''effective_backend'', str), (''index_stats'', index_schema)] stats_required)
           [(''scope'', JStr ''workspace_id omitted means global snapshot.''),
            (''mode'', JStr ''write_ack_mode is fixed to durable.'')]
           [''jsonrpc.invalid_params'']
           (if include_examples then Some (BuildStatsExamples J) else None))"

definition compact_required :: "string list" where
  "compact_required = [''triggered'', ''capacity_blocked'', ''mem_before_bytes'', ''disk_before_bytes'',
     ''mem_after_bytes'', ''disk_after_bytes'', ''summarized_count'', ''tombstoned_count'', ''deleted_count'',
     ''segments_before'', ''segments_after'', ''postings_reclaimed'', ''vectors_reclaimed'']"

definition BuildCompactMethod :: "'j json_api \<Rightarrow> bool \<Rightarrow> 'j" where
  "BuildCompactMethod J include_examples =
     (let integer = JsonSchema J ''integer'' ''''; boolean = JsonSchema J ''boolean'' '''' in
      method_of J ''Run compaction and return reclamation counters.''
        (closed_object J ''memory.compact input.''
           [(''workspace_id'', JsonSchema J ''string'' ''Optional workspace scope.'')] [])
        (closed_object J ''memory.compact output.''
           [(''triggered'', boolean), (''capacity_blocked'', boolean), (''mem_before_bytes'', integer),
            (''disk_before_bytes'', integer), (''mem_after_bytes'', integer), (''disk_after_bytes'', integer),
            (''summarized_count'', integer), (''tombstoned_count'', integer), (''deleted_count'', integer),
            (''segments_before'', integer), (''segments_after'', integer), (''postings_reclaimed'', integer),
            (''vectors_reclaimed'', integer)] compact_required)
        [(''effect'', JStr ''Compaction may create tombstones and reclaim storage asynchronously.'')]
        [''jsonrpc.invalid_params'']
        (if include_examples then Some (BuildCompactExamples J) else None))"

section \<open>The whole description\<close>

definition described_methods :: "'j json_api \<Rightarrow> bool \<Rightarrow> (string \<times> 'j) list" where
  "described_methods J include_examples =
     [(''memory.describe'', BuildDescribeMethod J include_examples),
      (''memory.write'', BuildWriteMethod J include_examples),
      (''memory.query'', BuildQueryMethod J include_examples),
      (''memory.pin'', BuildPinMethod J include_examples),
      (''memory.stats'', BuildStatsMethod J include_examples),
      (''memory.compact'', BuildCompactMethod J include_examples)]"

definition described_errors :: "'j json_api \<Rightarrow> 'j" where
  "described_errors J = add_children J
     [(''http'', array_of J
         [HttpError J ''invalid_json_http'' 400 ''invalid JSON'' ''malformed request body'',
          HttpError J ''route_not_found_http'' 404 ''route not found''
            ''unsupported path such as /sync/push or /sync/pull'']),
      (''jsonrpc'', array_of J
         [JsonRpcErrorEntry J ''invalid_request'' (- 32600) ''invalid request'' ''invalid jsonrpc envelope'',
          JsonRpcErrorEntry J ''method_not_found'' (- 32601) ''method not found'' ''unknown method on POST /mcp'',
          JsonRpcErrorEntry J ''invalid_params'' (- 32602) ''invalid params'' ''params or arguments shape mismatch'',
          JsonRpcErrorEntry J ''store_compact_busy'' (- 32001) ''store compact is busy''
            ''store.compact async task already running''])] (j_empty J)"

definition Describe :: "'j json_api \<Rightarrow> u64 \<Rightarrow> bool \<Rightarrow> 'j" where
  "Describe J now_ms include_examples =
     (let result = object_of J [(''describe_version'', JStr ''2.0.0''), (''schema_revision'', JStr ''2026-02-19.1''),
            (''generated_at_ms'', JU64 now_ms)];
          result = put_fields J [(''server.name'', JStr ''poorguy-mem''), (''server.kind'', JStr ''memory-server''),
            (''server.protocol'', JStr ''jsonrpc-2.0''), (''server.transport'', JStr ''http''),
            (''server.endpoint'', JStr ''/mcp''), (''server.describe_endpoint'', JStr ''/mcp/describe''),
            (''server.sync_routes_available'', JBool False), (''server.write_ack_mode'', JStr ''durable'')] result
      in add_children J
           [(''server.supported_backends'', StringArray J [''eloqstore'', ''inmemory'']),
            (''method_names'', StringArray J [''memory.describe'', ''memory.write'', ''memory.query'', ''memory.pin'',
               ''memory.stats'', ''memory.compact'']),
            (''methods'', fold (\<lambda>(k, c). j_push_back J k c) (described_methods J include_examples) (j_empty J)),
            (''errors'', described_errors J)] result)"

section \<open>Reading what was built\<close>

lemma put_fields_simps [simp]:
  "put_fields J [] j = j" "put_fields J ((k, v) # kvs) j = put_fields J kvs (j_put J k v j)"
  by (simp_all add: put_fields_def)

lemma add_children_simps [simp]:
  "add_children J [] j = j" "add_children J ((k, c) # kcs) j = add_children J kcs (j_add_child J k c j)"
  by (simp_all add: add_children_def)

lemma plain_key_simps [simp]: "plain_key [] = False" "plain_key (c # s) = (CHR ''.'' \<notin> set (c # s))"
  by (simp_all add: plain_key_def)

context json_laws begin

lemma put_fields_child_other:
  "plain_key k \<Longrightarrow> list_all plain_key (map fst kvs) \<Longrightarrow> k \<notin> fst ` set kvs \<Longrightarrow>
   j_get_child J (put_fields J kvs j) k = j_get_child J j k"
  by (induction kvs arbitrary: j) (auto simp: get_put_other)

lemma put_fields_child:
  assumes "plain_key k" "list_all plain_key (map fst kvs)" "k \<in> fst ` set kvs \<or> j_get_child J j k \<noteq> None"
  shows "j_get_child J (put_fields J kvs j) k \<noteq> None"
  using assms(2,3)
proof (induction kvs arbitrary: j)
  case (Cons p kvs)
  obtain k' v where p: "p = (k', v)" by (cases p)
  have "j_get_child J (j_put J k' v j) k \<noteq> None" if "k' = k \<or> j_get_child J j k \<noteq> None"
    using that get_child_put [of k'] get_put_other [OF assms(1), of k' v j] Cons.prems(1) assms(1) by (cases "k' = k") (auto simp: p)
  with Cons show ?case by (auto simp: p)
qed simp

lemma object_child:
  "plain_key k \<Longrightarrow> list_all plain_key (map fst kvs) \<Longrightarrow> k \<in> fst ` set kvs \<Longrightarrow> j_get_child J (object_of J kvs) k \<noteq> None"
  unfolding object_of_def by (rule put_fields_child) simp_all

lemma object_child_iff:
  "plain_key k \<Longrightarrow> list_all plain_key (map fst kvs) \<Longrightarrow>
   j_get_child J (object_of J kvs) k = None \<longleftrightarrow> k \<notin> fst ` set kvs"
  using object_child [of k kvs] put_fields_child_other [of k kvs "j_empty J"] get_child_empty [of k]
  unfolding object_of_def by metis

lemma add_children_other:
  "plain_key k \<Longrightarrow> list_all plain_key (map fst kcs) \<Longrightarrow> k \<notin> fst ` set kcs \<Longrightarrow>
   j_get_child J (add_children J kcs j) k = j_get_child J j k"
  by (induction kcs arbitrary: j) (auto simp: get_add_child_other)

lemma add_children_child:
  assumes "list_all plain_key (map fst kcs)" "distinct (map fst kcs)" "\<forall>k \<in> fst ` set kcs. j_get_child J j k = None"
    and "map_of kcs k = Some c"
  shows "j_get_child J (add_children J kcs j) k = Some c"
  using assms
proof (induction kcs arbitrary: j)
  case (Cons p kcs)
  obtain k' c' where p: "p = (k', c')" by (cases p)
  have pk: "plain_key k'" "list_all plain_key (map fst kcs)" "k' \<notin> fst ` set kcs" "distinct (map fst kcs)"
    using Cons.prems by (auto simp: p)
  show ?case
  proof (cases "k = k'")
    case True
    with add_children_other [OF pk(1,2,3)] get_child_add [OF pk(1)] Cons.prems(3,4) show ?thesis by (simp add: p)
  next
    case False
    have "\<forall>k \<in> fst ` set kcs. j_get_child J (j_add_child J k' c' j) k = None"
      using get_add_child_other pk Cons.prems(3) by (fastforce simp: p list_all_iff)
    with Cons.IH [OF pk(2,4)] Cons.prems(4) False show ?thesis by (simp add: p)
  qed
qed simp

lemma children_array: "j_children J (array_of J xs) = map (\<lambda>c. ('''', c)) xs"
proof -
  have "j_children J (fold (j_push_back J '''') xs a) = j_children J a @ map (\<lambda>c. ('''', c)) xs" for a
    by (induction xs arbitrary: a) (simp_all add: children_push)
  then show ?thesis by (simp add: array_of_def children_empty)
qed

lemma JsonSchema_child:
  "plain_key k \<Longrightarrow> k \<noteq> ''type'' \<Longrightarrow> k \<noteq> ''description'' \<Longrightarrow> j_get_child J (JsonSchema J ty d) k = None"
  using get_child_empty [of k] by (simp add: JsonSchema_def get_put_other Let_def)

lemma closed_object_required:
  assumes "required \<noteq> []"
  shows "ReadStringArray J (closed_object J d props required) ''required'' = required"
proof -
  have "j_get_child J (closed_object J d props required) ''required'' = Some (MakeArray J required)"
    using assms by (simp add: closed_object_def SetRequired_def StringArray_def get_child_add get_add_child_other
        get_put_other JsonSchema_child)
  then show ?thesis by (simp add: ReadStringArray_def read_MakeArray)
qed

lemma closed_object_properties:
  "j_get_child J (closed_object J d props required) ''properties'' = Some (add_children J props (j_empty J))"
  by (simp add: closed_object_def SetRequired_def get_child_add get_add_child_other get_put_other JsonSchema_child)

lemma method_of_schemas:
  "j_get_child J (method_of J s i r sem errs ex) ''input_schema'' = Some i"
  "j_get_child J (method_of J s i r sem errs ex) ''output_schema'' = Some r"
  using get_child_empty [of "''input_schema''"] get_child_empty [of "''output_schema''"]
  by (simp_all add: method_of_def object_of_def get_child_add get_add_child_other get_put_other Let_def
      split: option.split)

end

end
