(* ===== verification/Model_Types.thy ===== *)
theory Model_Types
  imports Byte_Strings
begin

text \<open>
  The data model of \<open>include/pgmem/types.h\<close>, struct by struct.  A field is named as in
  the header, prefixed by a short tag of its struct (\<open>r_\<close> for \<open>MemoryRecord\<close>,
  \<open>h_\<close> for \<open>QueryHit\<close>, and so on), because record fields of a theory share one name
  space.  \<open>StringMap\<close> is a \<open>std::map\<close>, hence a sorted association list.
\<close>

datatype OpType = OpUpsert | OpPin | OpDelete

type_synonym StringMap = "(string, string) omap"

record MemoryRecord =
  r_id :: string
  r_workspace_id :: string
  r_session_id :: string
  r_source :: string
  r_content :: string
  r_tags :: "string list"
  r_metadata :: StringMap
  r_dedup_key :: string
  r_pinned :: bool
  r_tombstone :: bool
  r_created_at_ms :: u64
  r_updated_at_ms :: u64
  r_version :: u64
  r_size_bytes :: u64
  r_last_access_ms :: u64
  r_hit_count :: u64
  r_importance_score :: real
  r_tier :: string
  r_node_id :: string
  r_ttl_s :: u64
  r_shard_id :: string
  r_replica_role :: string
  r_routing_epoch :: u64
  r_shard_hint :: string

definition default_MemoryRecord :: MemoryRecord where
  "default_MemoryRecord =
    \<lparr> r_id = '''', r_workspace_id = '''', r_session_id = '''', r_source = '''', r_content = '''',
      r_tags = [], r_metadata = [], r_dedup_key = '''', r_pinned = False, r_tombstone = False,
      r_created_at_ms = 0, r_updated_at_ms = 0, r_version = 0, r_size_bytes = 0,
      r_last_access_ms = 0, r_hit_count = 0, r_importance_score = 1, r_tier = ''hot'',
      r_node_id = '''', r_ttl_s = 0, r_shard_id = '''', r_replica_role = '''',
      r_routing_epoch = 0, r_shard_hint = '''' \<rparr>"

record IndexStats =
  is_segment_count :: u64
  is_posting_terms :: u64
  is_vector_count :: u64
  is_query_cache_hit_rate :: real
  is_dense_probe_count_p95 :: real
  is_cold_rehydrate_count :: u64

record ScoreBreakdown =
  sc_sparse :: real
  sc_dense :: real
  sc_freshness :: real
  sc_pin :: real
  sc_final :: real

definition zero_ScoreBreakdown :: ScoreBreakdown where
  "zero_ScoreBreakdown =
    \<lparr> sc_sparse = 0, sc_dense = 0, sc_freshness = 0, sc_pin = 0, sc_final = 0 \<rparr>"

record QueryHit =
  h_memory_id :: string
  h_source :: string
  h_content :: string
  h_tags :: "string list"
  h_metadata :: StringMap
  h_scores :: ScoreBreakdown
  h_updated_at_ms :: u64
  h_pinned :: bool

record QueryDebugStats =
  qd_sparse_candidates :: nat
  qd_dense_candidates :: nat
  qd_merged_candidates :: nat
  qd_sparse_ms :: real
  qd_dense_ms :: real
  qd_rerank_ms :: real
  qd_total_ms :: real

definition zero_QueryDebugStats :: QueryDebugStats where
  "zero_QueryDebugStats =
    \<lparr> qd_sparse_candidates = 0, qd_dense_candidates = 0, qd_merged_candidates = 0,
      qd_sparse_ms = 0, qd_dense_ms = 0, qd_rerank_ms = 0, qd_total_ms = 0 \<rparr>"

record StatsSnapshot =
  ss_p95_read_ms :: real
  ss_p95_write_ms :: real
  ss_token_reduction_ratio :: real
  ss_fallback_rate :: real
  ss_mem_used_bytes :: u64
  ss_disk_used_bytes :: u64
  ss_resident_used_bytes :: u64
  ss_resident_limit_bytes :: u64
  ss_resident_evicted_count :: u64
  ss_disk_fallback_search_count :: u64
  ss_item_count :: u64
  ss_tombstone_count :: u64
  ss_gc_last_run_ms :: u64
  ss_gc_evicted_count :: u64
  ss_capacity_blocked :: bool
  ss_write_ack_mode :: string
  ss_effective_backend :: string
  ss_index_stats :: IndexStats

record WriteRecordInput =
  wr_record_id :: string
  wr_source :: string
  wr_content :: string
  wr_tags :: "string list"
  wr_importance :: real
  wr_ttl_s :: u64
  wr_pin :: bool
  wr_dedup_key :: string
  wr_metadata :: StringMap

record WriteInput =
  wi_workspace_id :: string
  wi_session_id :: string
  wi_records :: "WriteRecordInput list"
  wi_write_mode :: string

record WriteOutput =
  wo_ok :: bool
  wo_stored_ids :: "string list"
  wo_deduped_ids :: "string list"
  wo_index_generation :: u64
  wo_warnings :: "string list"

definition default_WriteOutput :: WriteOutput where
  "default_WriteOutput =
    \<lparr> wo_ok = False, wo_stored_ids = [], wo_deduped_ids = [], wo_index_generation = 0,
      wo_warnings = [] \<rparr>"

record QueryFilter =
  f_session_id :: string
  f_sources :: "string list"
  f_tags_any :: "string list"
  f_updated_after_ms :: u64
  f_updated_before_ms :: u64
  f_pinned_only :: bool

record RecallOptions =
  ro_sparse_k :: u64
  ro_dense_k :: u64
  ro_oversample :: u64

record RerankWeights =
  w_sparse :: real
  w_dense :: real
  w_freshness :: real
  w_pin :: real

text \<open>\<open>token_budget\<close> is a signed \<open>int\<close>; every other count is an unsigned \<open>size_t\<close>.\<close>

record QueryInput =
  q_workspace_id :: string
  q_query :: string
  q_top_k :: u64
  q_token_budget :: int
  q_filters :: QueryFilter
  q_recall :: RecallOptions
  q_rerank :: RerankWeights
  q_debug :: bool

record QueryOutput =
  qo_hits :: "QueryHit list"
  qo_debug_stats :: QueryDebugStats

definition empty_QueryOutput :: QueryOutput where
  "empty_QueryOutput = \<lparr> qo_hits = [], qo_debug_stats = zero_QueryDebugStats \<rparr>"

record StoreResult =
  sr_ok :: bool
  sr_error :: string

record GetResult =
  gr_found :: bool
  gr_value :: string
  gr_error :: string

record KeyValueEntry =
  kv_name_space :: string
  kv_key :: string
  kv_value :: string
  kv_ts :: u64

datatype WriteOp = WUpsert | WDelete

record WriteEntry =
  we_op :: WriteOp
  we_entry :: KeyValueEntry

record StoreUsage =
  su_mem_used_bytes :: u64
  su_disk_used_bytes :: u64
  su_item_count :: u64

record StoreCompactTriggerResult =
  ct_triggered :: bool
  ct_noop :: bool
  ct_busy :: bool
  ct_async :: bool
  ct_partition_count :: u32
  ct_message :: string

section \<open>Version stamps\<close>

text \<open>
  Two copies of a record are compared by update time, then version, then node id.  The
  stamp of a record carries the three, and the lexicographic order on stamps makes them a
  linear order, so that the library's \<open>max\<close> and \<open>Max\<close> apply to them.
\<close>

datatype stamp = Stamp (st_updated: u64) (st_version: u64) (st_node: string)

instantiation stamp :: linorder
begin

definition less_stamp :: "stamp \<Rightarrow> stamp \<Rightarrow> bool" where
  "less_stamp a b \<longleftrightarrow>
     st_updated a < st_updated b \<or> st_updated a = st_updated b \<and>
       (st_version a < st_version b \<or> st_version a = st_version b \<and> st_node a < st_node b)"

definition less_eq_stamp :: "stamp \<Rightarrow> stamp \<Rightarrow> bool" where
  "less_eq_stamp a b \<longleftrightarrow> a < b \<or> a = (b :: stamp)"

instance
proof
  fix x y z :: stamp
  show "x < y \<longleftrightarrow> x \<le> y \<and> \<not> y \<le> x"
    by (auto simp: less_stamp_def less_eq_stamp_def)
  show "x \<le> x"
    by (simp add: less_eq_stamp_def)
  show "x \<le> y \<Longrightarrow> y \<le> z \<Longrightarrow> x \<le> z"
    by (auto simp: less_stamp_def less_eq_stamp_def)
  show "x \<le> y \<Longrightarrow> y \<le> x \<Longrightarrow> x = y"
    by (auto simp: less_stamp_def less_eq_stamp_def)
  show "x \<le> y \<or> y \<le> x"
    by (cases x; cases y) (auto simp: less_stamp_def less_eq_stamp_def)
qed

end

definition stamp_of :: "MemoryRecord \<Rightarrow> stamp" where
  "stamp_of r = Stamp (r_updated_at_ms r) (r_version r) (r_node_id r)"

end
