(* ===== verification/Text.thy ===== *)
theory Text
  imports Model_Types
begin

unbundle bit_operations_syntax

text \<open>
  \<open>src/util/text.cpp\<close>: the UTF-8 decoder, the mixed ASCII / CJK tokenizer that feeds both
  indexes, trimming, line joining and the token estimate.  Positions into the input are
  the remaining suffix: \<open>DecodeUtf8At input i\<close> of the code is \<open>DecodeUtf8At (drop i input)\<close>.
  \<open>RedactSecrets\<close> is modelled in \<open>Redact\<close>.

  The lemmas show that the decoder accepts exactly the well-formed UTF-8 sequences
  (shortest form, no surrogates, at most U+10FFFF), that tokenizing terminates, never
  yields an empty token and does not depend on the case of ASCII letters.
\<close>

section \<open>UTF-8\<close>

definition IsAsciiWordChar :: "char \<Rightarrow> bool" where
  "IsAsciiWordChar c \<longleftrightarrow> is_alnum c \<or> c = CHR ''_'' \<or> c = CHR ''-''"

abbreviation code :: "char \<Rightarrow> u32" where
  "code c \<equiv> of_char c"

definition is_cont :: "u32 \<Rightarrow> bool" where
  "is_cont b \<longleftrightarrow> b AND 0xC0 = 0x80"

fun DecodeUtf8At :: "string \<Rightarrow> (u32 \<times> nat) option" where
  "DecodeUtf8At [] = None"
| "DecodeUtf8At (c0 # r) =
     (let b0 = code c0 in
      if b0 < 0x80 then Some (b0, 1)
      else if 0xC2 \<le> b0 \<and> b0 \<le> 0xDF then
        (case r of
           c1 # _ \<Rightarrow>
             (let b1 = code c1 in
              if \<not> is_cont b1 then None
              else Some (push_bit 6 (b0 AND 0x1F) OR (b1 AND 0x3F), 2))
         | _ \<Rightarrow> None)
      else if 0xE0 \<le> b0 \<and> b0 \<le> 0xEF then
        (case r of
           c1 # c2 # _ \<Rightarrow>
             (let b1 = code c1; b2 = code c2 in
              if \<not> is_cont b1 \<or> \<not> is_cont b2 then None
              else if b0 = 0xE0 \<and> b1 < 0xA0 then None
              else if b0 = 0xED \<and> 0xA0 \<le> b1 then None
              else Some (push_bit 12 (b0 AND 0x0F) OR push_bit 6 (b1 AND 0x3F)
                           OR (b2 AND 0x3F), 3))
         | _ \<Rightarrow> None)
      else if 0xF0 \<le> b0 \<and> b0 \<le> 0xF4 then
        (case r of
           c1 # c2 # c3 # _ \<Rightarrow>
             (let b1 = code c1; b2 = code c2; b3 = code c3 in
              if \<not> is_cont b1 \<or> \<not> is_cont b2 \<or> \<not> is_cont b3 then None
              else if b0 = 0xF0 \<and> b1 < 0x90 then None
              else if b0 = 0xF4 \<and> 0x8F < b1 then None
              else Some (push_bit 18 (b0 AND 0x07) OR push_bit 12 (b1 AND 0x3F)
                           OR push_bit 6 (b2 AND 0x3F) OR (b3 AND 0x3F), 4))
         | _ \<Rightarrow> None)
      else None)"

lemma DecodeUtf8At_length:
  "DecodeUtf8At s = Some (cp, n) \<Longrightarrow> 1 \<le> n \<and> n \<le> length s"
  by (cases s) (auto simp: Let_def split: if_splits list.splits)

declare DecodeUtf8At.simps(2) [simp del]

definition IsCjkCodepoint :: "u32 \<Rightarrow> bool" where
  "IsCjkCodepoint cp \<longleftrightarrow>
     0x3400 \<le> cp \<and> cp \<le> 0x4DBF \<or> 0x4E00 \<le> cp \<and> cp \<le> 0x9FFF \<or>
     0xF900 \<le> cp \<and> cp \<le> 0xFAFF \<or> 0x20000 \<le> cp \<and> cp \<le> 0x2A6DF \<or>
     0x2A700 \<le> cp \<and> cp \<le> 0x2B73F \<or> 0x2B740 \<le> cp \<and> cp \<le> 0x2B81F \<or>
     0x2B820 \<le> cp \<and> cp \<le> 0x2CEAF \<or> 0x2CEB0 \<le> cp \<and> cp \<le> 0x2EBEF \<or>
     0x30000 \<le> cp \<and> cp \<le> 0x3134F"

section \<open>The tokenizer\<close>

text \<open>
  Both flush helpers clear their buffer; they return the token list with what the buffer
  held.
\<close>

definition FlushAsciiToken :: "string \<Rightarrow> string list \<Rightarrow> string list" where
  "FlushAsciiToken cur tokens = (if cur = [] then tokens else tokens @ [cur])"

fun bigrams :: "string list \<Rightarrow> string list" where
  "bigrams (a # b # r) = (a @ b) # bigrams (b # r)"
| "bigrams _ = []"

definition FlushCjkRunAsBigrams :: "string list \<Rightarrow> string list \<Rightarrow> string list" where
  "FlushCjkRunAsBigrams run tokens =
     (case run of
        [] \<Rightarrow> tokens
      | [x] \<Rightarrow> tokens @ [x]
      | _ \<Rightarrow> tokens @ bigrams run)"

function Tokenize_loop :: "string \<Rightarrow> string list \<Rightarrow> string list \<Rightarrow> string \<Rightarrow> string list" where
  "Tokenize_loop cur cjk_run tokens [] =
     FlushCjkRunAsBigrams cjk_run (FlushAsciiToken cur tokens)"
| "Tokenize_loop cur cjk_run tokens (c # r) =
     (if code c < 0x80 then
        (let tokens = FlushCjkRunAsBigrams cjk_run tokens in
         if IsAsciiWordChar c then Tokenize_loop (cur @ [to_lower_char c]) [] tokens r
         else Tokenize_loop [] [] (FlushAsciiToken cur tokens) r)
      else
        (let tokens = FlushAsciiToken cur tokens in
         case DecodeUtf8At (c # r) of
           None \<Rightarrow> Tokenize_loop [] [] (FlushCjkRunAsBigrams cjk_run tokens) r
         | Some (cp, len) \<Rightarrow>
             if IsCjkCodepoint cp
             then Tokenize_loop [] (cjk_run @ [take len (c # r)]) tokens (drop len (c # r))
             else Tokenize_loop [] [] (FlushCjkRunAsBigrams cjk_run tokens) (drop len (c # r))))"
  by pat_completeness auto
termination
  by (relation "measure (\<lambda>(_, _, _, s). length s)") (auto dest: DecodeUtf8At_length)

definition Tokenize :: "string \<Rightarrow> string list" where
  "Tokenize input = Tokenize_loop [] [] [] input"

section \<open>Trimming, folding, joining, estimating\<close>

definition Trim :: "string \<Rightarrow> string" where
  "Trim s = rev (dropWhile is_space (rev (dropWhile is_space s)))"

definition ToLower :: "string \<Rightarrow> string" where
  "ToLower s = map to_lower_char s"

fun JoinLines :: "string list \<Rightarrow> string" where
  "JoinLines [] = []"
| "JoinLines [l] = l"
| "JoinLines (l # ls) = l @ [CHR 0x0A] @ JoinLines ls"

definition EstimateTokenCount :: "string \<Rightarrow> nat" where
  "EstimateTokenCount text = (if text = [] then 0 else (length text + 3) div 4)"

section \<open>The decoder is the inverse of UTF-8 encoding\<close>

text \<open>Bit operations on the bytes, as arithmetic.\<close>

lemma code_of_nat: "code c = of_nat (byte c)"
  by (simp only: of_nat_of_char)

lemma low_bits:
  "(of_nat b :: u32) AND 0x3F = of_nat (b mod 64)"
  "(of_nat b :: u32) AND 0x1F = of_nat (b mod 32)"
  "(of_nat b :: u32) AND 0x0F = of_nat (b mod 16)"
  "(of_nat b :: u32) AND 0x07 = of_nat (b mod 8)"
proof -
  have *: "(of_nat b :: u32) AND mask k = of_nat (b mod 2 ^ k)" for k
    by (metis take_bit_eq_mask take_bit_eq_mod take_bit_of_nat)
  show "(of_nat b :: u32) AND 0x3F = of_nat (b mod 64)"
    "(of_nat b :: u32) AND 0x1F = of_nat (b mod 32)"
    "(of_nat b :: u32) AND 0x0F = of_nat (b mod 16)"
    "(of_nat b :: u32) AND 0x07 = of_nat (b mod 8)"
    using * [of 6] * [of 5] * [of 4] * [of 3] by (simp_all add: mask_eq_exp_minus_1)
qed

lemma push_of_nat: "push_bit k (of_nat b :: u32) = of_nat (b * 2 ^ k)"
  by (metis push_bit_eq_mult push_bit_of_nat)

lemma or_low: "y < 2 ^ k \<Longrightarrow> (of_nat (x * 2 ^ k) :: u32) OR of_nat y = of_nat (x * 2 ^ k + y)"
proof -
  assume y: "y < 2 ^ k"
  then have "take_bit k y = y" by (simp add: take_bit_eq_mod)
  then have *: "(of_nat y :: u32) = take_bit k (of_nat y)"
    by (metis take_bit_of_nat)
  have "(of_nat (x * 2 ^ k) :: u32) OR of_nat y = of_nat (x * 2 ^ k) + of_nat y"
    by (subst (1 2) *, subst (1 2) push_of_nat [symmetric], rule disjunctive_add_eq_or [symmetric])
      (auto simp: bit_eq_iff bit_simps)
  then show ?thesis by simp
qed

lemma mod_sub: "k * m \<le> b \<Longrightarrow> b < k * m + m \<Longrightarrow> b mod m = b - k * (m :: nat)"
  by (metis add_less_cancel_left le_add_diff_inverse mod_less mod_mult_self3)

lemma unat_code [simp]: "unat (code c) = byte c"
proof -
  have "byte c < 4294967296" using byte_less_256 [of c] by linarith
  then show ?thesis by (simp add: code_of_nat unat_of_nat del: of_nat_of_char)
qed

lemma is_cont_code: "is_cont (code c) \<longleftrightarrow> 128 \<le> byte c \<and> byte c < 192"
proof -
  have "\<forall>b\<in>set [0..<256]. is_cont (of_nat b) \<longleftrightarrow> 128 \<le> b \<and> b < (192::nat)"
    by code_simp
  with byte_less_256 [of c] show ?thesis by (auto simp: code_of_nat simp del: of_nat_of_char)
qed

lemmas code_cmp = word_less_nat_alt word_le_nat_alt word_unat_eq_iff is_cont_code

lemma or_bits:
  "y < 64 \<Longrightarrow> (of_nat (x * 2 ^ 6) :: u32) OR of_nat y = of_nat (x * 64 + y)"
  "y < 64 \<Longrightarrow> z < 64 \<Longrightarrow>
   (of_nat (x * 2 ^ 12) :: u32) OR of_nat (y * 2 ^ 6) OR of_nat z =
     of_nat ((x * 64 + y) * 64 + z)"
  "y < 64 \<Longrightarrow> z < 64 \<Longrightarrow> w < 64 \<Longrightarrow>
   (of_nat (x * 2 ^ 18) :: u32) OR of_nat (y * 2 ^ 12) OR of_nat (z * 2 ^ 6) OR of_nat w =
     of_nat (((x * 64 + y) * 64 + z) * 64 + w)"
proof -
  have 1: "(of_nat (x * 2 ^ 6) :: u32) OR of_nat y = of_nat (x * 2 ^ 6 + y)" if "y < 64" for x y
    using that by (intro or_low) simp
  have 2: "(of_nat (x * 2 ^ 12) :: u32) OR of_nat (y * 2 ^ 6) OR of_nat z =
      of_nat (x * 2 ^ 12 + (y * 2 ^ 6 + z))" if "y < 64" "z < 64" for x y z
    using that by (subst 1, simp, intro or_low) simp
  have 3: "(of_nat (x * 2 ^ 18) :: u32) OR of_nat (y * 2 ^ 12) OR of_nat (z * 2 ^ 6) OR of_nat w =
     of_nat (x * 2 ^ 18 + (y * 2 ^ 12 + (z * 2 ^ 6 + w)))"
    if "y < 64" "z < 64" "w < 64" for x y z w
    using that by (subst 2, simp, simp, intro or_low) simp
  show "y < 64 \<Longrightarrow> (of_nat (x * 2 ^ 6) :: u32) OR of_nat y = of_nat (x * 64 + y)"
    using 1 [of y x] by simp
  show "y < 64 \<Longrightarrow> z < 64 \<Longrightarrow>
   (of_nat (x * 2 ^ 12) :: u32) OR of_nat (y * 2 ^ 6) OR of_nat z = of_nat ((x * 64 + y) * 64 + z)"
    using 2 [of y z x] by (simp add: algebra_simps)
  show "y < 64 \<Longrightarrow> z < 64 \<Longrightarrow> w < 64 \<Longrightarrow>
   (of_nat (x * 2 ^ 18) :: u32) OR of_nat (y * 2 ^ 12) OR of_nat (z * 2 ^ 6) OR of_nat w =
     of_nat (((x * 64 + y) * 64 + z) * 64 + w)"
    using 3 [of y z w x] by (simp add: algebra_simps)
qed

lemma code_low_bits:
  "128 \<le> byte c \<Longrightarrow> byte c < 192 \<Longrightarrow> code c AND 0x3F = of_nat (byte c - 128)"
  "192 \<le> byte c \<Longrightarrow> byte c < 224 \<Longrightarrow> code c AND 0x1F = of_nat (byte c - 192)"
  "224 \<le> byte c \<Longrightarrow> byte c < 240 \<Longrightarrow> code c AND 0x0F = of_nat (byte c - 224)"
  "240 \<le> byte c \<Longrightarrow> byte c < 248 \<Longrightarrow> code c AND 0x07 = of_nat (byte c - 240)"
  using mod_sub [of 2 64 "byte c"] mod_sub [of 6 32 "byte c"] mod_sub [of 14 16 "byte c"]
    mod_sub [of 30 8 "byte c"]
  by (simp_all only: code_of_nat low_bits) simp_all

text \<open>The three multi-byte branches, as arithmetic on the bytes.\<close>

lemma two_bytes:
  assumes "194 \<le> byte b0" "byte b0 < 224" "128 \<le> byte b1" "byte b1 < 192"
  shows "push_bit 6 (code b0 AND 0x1F) OR (code b1 AND 0x3F) =
    of_nat ((byte b0 - 192) * 64 + (byte b1 - 128))"
proof -
  have "code b0 AND 0x1F = of_nat (byte b0 - 192)" "code b1 AND 0x3F = of_nat (byte b1 - 128)"
    using assms by (simp_all only: code_low_bits)
  moreover have "byte b1 - 128 < 64" using assms by linarith
  ultimately show ?thesis by (simp only: push_of_nat or_bits(1))
qed

lemma three_bytes:
  assumes "224 \<le> byte b0" "byte b0 < 240" "128 \<le> byte b1" "byte b1 < 192"
    "128 \<le> byte b2" "byte b2 < 192"
  shows "push_bit 12 (code b0 AND 0x0F) OR push_bit 6 (code b1 AND 0x3F) OR (code b2 AND 0x3F) =
    of_nat (((byte b0 - 224) * 64 + (byte b1 - 128)) * 64 + (byte b2 - 128))"
proof -
  have "code b0 AND 0x0F = of_nat (byte b0 - 224)" "code b1 AND 0x3F = of_nat (byte b1 - 128)"
    "code b2 AND 0x3F = of_nat (byte b2 - 128)"
    using assms by (simp_all only: code_low_bits)
  moreover have "byte b1 - 128 < 64" "byte b2 - 128 < 64" using assms by linarith+
  ultimately show ?thesis by (simp only: push_of_nat or_bits(2))
qed

lemma four_bytes:
  assumes "240 \<le> byte b0" "byte b0 < 245" "128 \<le> byte b1" "byte b1 < 192"
    "128 \<le> byte b2" "byte b2 < 192" "128 \<le> byte b3" "byte b3 < 192"
  shows "push_bit 18 (code b0 AND 0x07) OR push_bit 12 (code b1 AND 0x3F)
      OR push_bit 6 (code b2 AND 0x3F) OR (code b3 AND 0x3F) =
    of_nat ((((byte b0 - 240) * 64 + (byte b1 - 128)) * 64 + (byte b2 - 128)) * 64
      + (byte b3 - 128))"
proof -
  have "code b0 AND 0x07 = of_nat (byte b0 - 240)"
    using assms by (intro code_low_bits) auto
  moreover have "code b1 AND 0x3F = of_nat (byte b1 - 128)"
    "code b2 AND 0x3F = of_nat (byte b2 - 128)" "code b3 AND 0x3F = of_nat (byte b3 - 128)"
    using assms by (simp_all only: code_low_bits)
  moreover have "byte b1 - 128 < 64" "byte b2 - 128 < 64" "byte b3 - 128 < 64"
    using assms by linarith+
  ultimately show ?thesis by (simp only: push_of_nat or_bits(3))
qed

definition utf8_encode :: "nat \<Rightarrow> string" where
  "utf8_encode k =
     (if k < 0x80 then [char_of k]
      else if k < 0x800 then [char_of (192 + k div 64), char_of (128 + k mod 64)]
      else if k < 0x10000 then
        [char_of (224 + k div 64 div 64), char_of (128 + k div 64 mod 64),
         char_of (128 + k mod 64)]
      else
        [char_of (240 + k div 64 div 64 div 64), char_of (128 + k div 64 div 64 mod 64),
         char_of (128 + k div 64 mod 64), char_of (128 + k mod 64)])"

definition unicode_scalar :: "nat \<Rightarrow> bool" where
  "unicode_scalar k \<longleftrightarrow> k < 0xD800 \<or> 0xE000 \<le> k \<and> k < 0x110000"

lemma byte_char_of: "n < 256 \<Longrightarrow> byte (char_of n) = n"
  by (simp add: of_char_of)

lemma unat_of_nat_scalar: "k < 0x110000 \<Longrightarrow> unat (of_nat k :: u32) = k"
  by (simp add: unat_of_nat)

lemma decode_encode:
  assumes "unicode_scalar k"
  shows "DecodeUtf8At (utf8_encode k @ t) = Some (of_nat k, length (utf8_encode k))"
proof -
  note simps = utf8_encode_def DecodeUtf8At.simps code_cmp byte_char_of Let_def
  consider "k < 0x80" | "0x80 \<le> k" "k < 0x800" | "0x800 \<le> k" "k < 0x10000"
    | "0x10000 \<le> k" "k < 0x110000"
    using assms unfolding unicode_scalar_def by linarith
  then show ?thesis
  proof cases
    case 1
    then show ?thesis by (simp add: simps unat_of_nat_scalar)
  next
    case 2
    define a where "a = k div 64"
    define b where "b = k mod 64"
    have k: "k = a * 64 + b" by (simp add: a_def b_def)
    have bounds: "2 \<le> a" "a < 32" "b < 64" using 2 by (auto simp: a_def b_def)
    show ?thesis
      using 2 two_bytes [of "char_of (192 + a)" "char_of (128 + b)"] bounds
      by (simp add: simps flip: a_def b_def del: of_nat_mult of_nat_add)
        (simp add: k del: of_nat_mult of_nat_add)
  next
    case 3
    define a where "a = k div 64 div 64"
    define b where "b = k div 64 mod 64"
    define c where "c = k mod 64"
    have k: "k = (a * 64 + b) * 64 + c" by (simp add: a_def b_def c_def)
    have bounds: "a < 16" "b < 64" "c < 64" "0x800 \<le> (a * 64 + b) * 64 + c"
      using 3 by (auto simp: a_def b_def c_def)
    have surr: "\<not> (a = 13 \<and> 32 \<le> b)"
      using assms bounds unfolding unicode_scalar_def k by auto
    have "\<not> (a = 0 \<and> b < 32)" using bounds by auto
    then show ?thesis
      using 3 three_bytes [of "char_of (224 + a)" "char_of (128 + b)" "char_of (128 + c)"] bounds surr
      by (simp add: simps flip: a_def b_def c_def del: of_nat_mult of_nat_add)
        (simp add: k del: of_nat_mult of_nat_add)
  next
    case 4
    define a where "a = k div 64 div 64 div 64"
    define b where "b = k div 64 div 64 mod 64"
    define c where "c = k div 64 mod 64"
    define d where "d = k mod 64"
    have k: "k = ((a * 64 + b) * 64 + c) * 64 + d" by (simp add: a_def b_def c_def d_def)
    have bounds: "a < 5" "b < 64" "c < 64" "d < 64"
      using 4 by (auto simp: a_def b_def c_def d_def)
    have "\<not> (a = 0 \<and> b < 16)" "\<not> (a = 4 \<and> 15 < b)" using 4 bounds unfolding k by auto
    then show ?thesis
      using 4 bounds four_bytes [of "char_of (240 + a)" "char_of (128 + b)" "char_of (128 + c)"
          "char_of (128 + d)"]
      by (simp add: simps flip: a_def b_def c_def d_def del: of_nat_mult of_nat_add)
        (simp add: k del: of_nat_mult of_nat_add)
  qed
qed

lemma dm64: "y < 64 \<Longrightarrow> (x * 64 + y) div 64 = (x :: nat)" "y < 64 \<Longrightarrow> (x * 64 + y) mod 64 = y"
  by simp_all

text \<open>A sequence the decoder lets through is the encoding of the code point it computes.\<close>

lemma char_of_byte: "byte c = n \<Longrightarrow> char_of n = c"
  by (metis char_of_char)

lemma encode_two:
  assumes "194 \<le> byte b0" "byte b0 < 224" "128 \<le> byte b1" "byte b1 < 192"
  shows "unicode_scalar ((byte b0 - 192) * 64 + (byte b1 - 128)) \<and>
    utf8_encode ((byte b0 - 192) * 64 + (byte b1 - 128)) = [b0, b1]"
proof -
  obtain x y where b: "byte b0 = 192 + x" "byte b1 = 128 + y"
    using assms(1,3) le_Suc_ex [of 192 "byte b0"] le_Suc_ex [of 128 "byte b1"] by auto
  then have "2 \<le> x" "x < 32" "y < 64" using assms by linarith+
  then have "0x80 \<le> x * 64 + y" "x * 64 + y < 0x800" by linarith+
  with \<open>y < 64\<close> show ?thesis
    by (simp add: b dm64 unicode_scalar_def utf8_encode_def char_of_byte [OF b(1)] char_of_byte [OF b(2)])
qed

lemma encode_three:
  assumes "224 \<le> byte b0" "byte b0 < 240" "128 \<le> byte b1" "byte b1 < 192"
    "128 \<le> byte b2" "byte b2 < 192"
    "\<not> (byte b0 = 224 \<and> byte b1 < 160)" "\<not> (byte b0 = 237 \<and> 160 \<le> byte b1)"
  shows "unicode_scalar (((byte b0 - 224) * 64 + (byte b1 - 128)) * 64 + (byte b2 - 128)) \<and>
    utf8_encode (((byte b0 - 224) * 64 + (byte b1 - 128)) * 64 + (byte b2 - 128)) = [b0, b1, b2]"
proof -
  obtain x y z where b: "byte b0 = 224 + x" "byte b1 = 128 + y" "byte b2 = 128 + z"
    using assms(1,3,5) by (metis le_Suc_ex)
  then have less: "x < 16" "y < 64" "z < 64" using assms by linarith+
  have "1 \<le> x \<or> x = 0 \<and> 32 \<le> y" using assms(7) b by linarith
  then have N: "0x800 \<le> (x * 64 + y) * 64 + z" by auto
  have flat: "(x * 64 + y) * 64 + z = 4096 * x + 64 * y + z" by simp
  have N': "(x * 64 + y) * 64 + z < 0x10000" using less unfolding flat by linarith
  have "x < 13 \<or> x = 13 \<and> y < 32 \<or> 14 \<le> x" using assms(8) b by linarith
  then have "(x * 64 + y) * 64 + z < 0xD800 \<or> 0xE000 \<le> (x * 64 + y) * 64 + z"
  proof (elim disjE conjE)
    assume "x < 13"
    with less show ?thesis unfolding flat by (intro disjI1) linarith
  next
    assume "x = 13" "y < 32"
    with less show ?thesis unfolding flat by (intro disjI1) linarith
  next
    assume "14 \<le> x"
    then show ?thesis unfolding flat by (intro disjI2) linarith
  qed
  with N N' less show ?thesis
    by (simp add: b dm64 unicode_scalar_def utf8_encode_def char_of_byte [OF b(1)]
        char_of_byte [OF b(2)] char_of_byte [OF b(3)]
        del: distrib_right_numeral distrib_left_numeral)
qed

lemma encode_four:
  assumes "240 \<le> byte b0" "byte b0 < 245" "128 \<le> byte b1" "byte b1 < 192"
    "128 \<le> byte b2" "byte b2 < 192" "128 \<le> byte b3" "byte b3 < 192"
    "\<not> (byte b0 = 240 \<and> byte b1 < 144)" "\<not> (byte b0 = 244 \<and> 143 < byte b1)"
  shows "unicode_scalar ((((byte b0 - 240) * 64 + (byte b1 - 128)) * 64 + (byte b2 - 128)) * 64
      + (byte b3 - 128)) \<and>
    utf8_encode ((((byte b0 - 240) * 64 + (byte b1 - 128)) * 64 + (byte b2 - 128)) * 64
      + (byte b3 - 128)) = [b0, b1, b2, b3]"
proof -
  obtain x y where b: "byte b0 = 240 + x" "byte b1 = 128 + y"
    using assms(1,3) by (metis le_Suc_ex)
  obtain z w where b': "byte b2 = 128 + z" "byte b3 = 128 + w"
    using assms(5,7) by (metis le_Suc_ex)
  have less: "x < 5" "y < 64" "z < 64" "w < 64" using assms b b' by linarith+
  have "1 \<le> x \<or> x = 0 \<and> 16 \<le> y" using assms(9) b by linarith
  then have N: "0x10000 \<le> ((x * 64 + y) * 64 + z) * 64 + w" by auto
  have flat: "((x * 64 + y) * 64 + z) * 64 + w = 262144 * x + 4096 * y + 64 * z + w" by simp
  have "262144 * x + 4096 * y \<le> 0x10F000"
  proof (cases "x < 4")
    case True
    with less show ?thesis by linarith
  next
    case False
    with less have "x = 4" by linarith
    with assms(10) b have "y \<le> 15" by linarith
    with \<open>x = 4\<close> show ?thesis by linarith
  qed
  then have "((x * 64 + y) * 64 + z) * 64 + w < 0x110000" using less unfolding flat by linarith
  with N less show ?thesis
    by (simp add: b b' dm64 unicode_scalar_def utf8_encode_def char_of_byte [OF b(1)]
        char_of_byte [OF b(2)] char_of_byte [OF b'(1)] char_of_byte [OF b'(2)]
        del: distrib_right_numeral distrib_left_numeral)
qed

lemma unicode_scalar_less: "unicode_scalar k \<Longrightarrow> k < 0x110000"
  by (auto simp: unicode_scalar_def)

lemmas decode_unfold = DecodeUtf8At.simps(2) Let_def code_cmp unat_code

lemma decode_two:
  assumes "DecodeUtf8At (c0 # r) = Some (cp, n)" and "194 \<le> byte c0" "byte c0 < 224"
  shows "\<exists>c1 t. r = c1 # t \<and> n = 2 \<and> unicode_scalar (unat cp) \<and> utf8_encode (unat cp) = [c0, c1]"
proof -
  obtain c1 t where r: "r = c1 # t"
    using assms by (cases r) (auto simp: decode_unfold split: if_splits)
  from assms have c1: "128 \<le> byte c1" "byte c1 < 192"
    by (auto simp: r decode_unfold split: if_splits)
  from assms c1 two_bytes [of c0 c1]
  have "cp = of_nat ((byte c0 - 192) * 64 + (byte c1 - 128))" "n = 2"
    by (simp_all add: r decode_unfold del: of_nat_mult of_nat_add)
  with encode_two [OF assms(2,3) c1] r show ?thesis
    by (metis unat_of_nat_scalar unicode_scalar_less)
qed

lemma decode_three:
  assumes "DecodeUtf8At (c0 # r) = Some (cp, n)" and "224 \<le> byte c0" "byte c0 < 240"
  shows "\<exists>c1 c2 t. r = c1 # c2 # t \<and> n = 3 \<and> unicode_scalar (unat cp) \<and>
    utf8_encode (unat cp) = [c0, c1, c2]"
proof -
  obtain c1 c2 t where r: "r = c1 # c2 # t"
    using assms by (cases r; cases "tl r") (auto simp: decode_unfold split: if_splits)
  from assms have c: "128 \<le> byte c1" "byte c1 < 192" "128 \<le> byte c2" "byte c2 < 192"
    "\<not> (byte c0 = 224 \<and> byte c1 < 160)" "\<not> (byte c0 = 237 \<and> 160 \<le> byte c1)"
    by (auto simp: r decode_unfold split: if_splits)
  from assms c three_bytes [of c0 c1 c2]
  have "cp = of_nat (((byte c0 - 224) * 64 + (byte c1 - 128)) * 64 + (byte c2 - 128))" "n = 3"
    by (simp_all add: r decode_unfold del: of_nat_mult of_nat_add split: if_splits)
  with encode_three [OF assms(2,3) c] r show ?thesis
    by (metis unat_of_nat_scalar unicode_scalar_less)
qed

lemma decode_four:
  assumes "DecodeUtf8At (c0 # r) = Some (cp, n)" and "240 \<le> byte c0" "byte c0 < 245"
  shows "\<exists>c1 c2 c3 t. r = c1 # c2 # c3 # t \<and> n = 4 \<and> unicode_scalar (unat cp) \<and>
    utf8_encode (unat cp) = [c0, c1, c2, c3]"
proof -
  obtain c1 c2 c3 t where r: "r = c1 # c2 # c3 # t"
    using assms
    by (cases r; cases "tl r"; cases "tl (tl r)") (auto simp: decode_unfold split: if_splits)
  from assms have c: "128 \<le> byte c1" "byte c1 < 192" "128 \<le> byte c2" "byte c2 < 192"
    "128 \<le> byte c3" "byte c3 < 192"
    "\<not> (byte c0 = 240 \<and> byte c1 < 144)" "\<not> (byte c0 = 244 \<and> 143 < byte c1)"
    by (auto simp: r decode_unfold split: if_splits)
  from assms c four_bytes [of c0 c1 c2 c3]
  have "cp = of_nat ((((byte c0 - 240) * 64 + (byte c1 - 128)) * 64 + (byte c2 - 128)) * 64
      + (byte c3 - 128))" "n = 4"
    by (simp_all add: r decode_unfold del: of_nat_mult of_nat_add split: if_splits)
  with encode_four [OF assms(2,3) c] r show ?thesis
    by (metis unat_of_nat_scalar unicode_scalar_less)
qed

lemma decode_sound:
  assumes "DecodeUtf8At s = Some (cp, n)"
  shows "unicode_scalar (unat cp) \<and> prefix (utf8_encode (unat cp)) s
    \<and> n = length (utf8_encode (unat cp))"
proof -
  obtain c0 r where s: "s = c0 # r"
    using assms by (cases s) auto
  consider "byte c0 < 128" | "194 \<le> byte c0" "byte c0 < 224" | "224 \<le> byte c0" "byte c0 < 240"
    | "240 \<le> byte c0" "byte c0 < 245"
    using assms unfolding s by (fastforce simp: decode_unfold split: if_splits)
  then show ?thesis
  proof cases
    case 1
    then show ?thesis
      using assms by (auto simp: s decode_unfold unicode_scalar_def utf8_encode_def char_of_byte)
  next
    case 2
    then show ?thesis using decode_two assms unfolding s by fastforce
  next
    case 3
    then show ?thesis using decode_three assms unfolding s by fastforce
  next
    case 4
    then show ?thesis using decode_four assms unfolding s by fastforce
  qed
qed

section \<open>What the tokenizer yields\<close>

lemma bigrams_nonempty: "list_all (\<lambda>t. t \<noteq> []) run \<Longrightarrow> list_all (\<lambda>t. t \<noteq> []) (bigrams run)"
  by (induction run rule: bigrams.induct) auto

lemma flush_nonempty:
  "list_all (\<lambda>t. t \<noteq> []) tokens \<Longrightarrow> list_all (\<lambda>t. t \<noteq> []) (FlushAsciiToken cur tokens)"
  "list_all (\<lambda>t. t \<noteq> []) tokens \<Longrightarrow> list_all (\<lambda>t. t \<noteq> []) run \<Longrightarrow>
   list_all (\<lambda>t. t \<noteq> []) (FlushCjkRunAsBigrams run tokens)"
  by (simp add: FlushAsciiToken_def)
    (cases run rule: bigrams.cases; auto simp: FlushCjkRunAsBigrams_def intro!: bigrams_nonempty)

lemma Tokenize_loop_nonempty:
  "list_all (\<lambda>t. t \<noteq> []) tokens \<Longrightarrow> list_all (\<lambda>t. t \<noteq> []) run \<Longrightarrow>
   list_all (\<lambda>t. t \<noteq> []) (Tokenize_loop cur run tokens s)"
proof (induction cur run tokens s rule: Tokenize_loop.induct)
  case (1 cur run tokens)
  then show ?case by (simp add: flush_nonempty)
next
  case (2 cur run tokens c r)
  have "DecodeUtf8At (c # r) = Some (cp, n) \<Longrightarrow> take n (c # r) \<noteq> []" for cp n
    by (auto dest: DecodeUtf8At_length)
  with 2 show ?case
    by (auto simp: Let_def flush_nonempty simp del: take_eq_Nil split: option.splits)
qed

text \<open>An ASCII input is split at its non-word characters.\<close>

fun ascii_words :: "string \<Rightarrow> string \<Rightarrow> string list" where
  "ascii_words cur [] = [cur]"
| "ascii_words cur (c # r) =
     (if IsAsciiWordChar c then ascii_words (cur @ [to_lower_char c]) r
      else cur # ascii_words [] r)"

lemma Tokenize_loop_ascii:
  "list_all (\<lambda>c. byte c < 128) s \<Longrightarrow>
   Tokenize_loop cur [] tokens s = tokens @ filter (\<lambda>t. t \<noteq> []) (ascii_words cur s)"
proof (induction s arbitrary: cur tokens)
  case Nil
  then show ?case by (simp add: FlushAsciiToken_def FlushCjkRunAsBigrams_def)
next
  case (Cons c s)
  then have "code c < 0x80" by (simp add: code_cmp)
  with Cons show ?case by (simp add: Let_def FlushAsciiToken_def FlushCjkRunAsBigrams_def)
qed

text \<open>A run of CJK characters yields its bigrams.\<close>

lemma utf8_encode_head:
  "unicode_scalar k \<Longrightarrow> 128 \<le> k \<Longrightarrow> \<exists>c r. utf8_encode k = c # r \<and> 128 \<le> byte c"
  by (auto simp: utf8_encode_def unicode_scalar_def of_char_of)

lemma cjk_scalar:
  assumes "IsCjkCodepoint (of_nat k)" "k < 0x110000"
  shows "unicode_scalar k \<and> 128 \<le> k"
  using assms by (auto simp: IsCjkCodepoint_def unicode_scalar_def code_cmp unat_of_nat_scalar)

lemma Tokenize_loop_cjk:
  "list_all (\<lambda>k. IsCjkCodepoint (of_nat k) \<and> k < 0x110000) ks \<Longrightarrow>
   Tokenize_loop [] run tokens (concat (map utf8_encode ks)) =
     FlushCjkRunAsBigrams (run @ map utf8_encode ks) tokens"
proof (induction ks arbitrary: run)
  case Nil
  then show ?case by (simp add: FlushAsciiToken_def)
next
  case (Cons k ks)
  then have cjk: "IsCjkCodepoint (of_nat k)" and k: "unicode_scalar k" "128 \<le> k"
    using cjk_scalar by auto
  obtain c r where c: "utf8_encode k = c # r" "128 \<le> byte c"
    using utf8_encode_head [OF k] by blast
  then have "\<not> code c < 0x80" by (simp add: code_cmp)
  moreover have "DecodeUtf8At (c # r @ t) = Some (of_nat k, Suc (length r))" for t
    using decode_encode [OF k(1), of t] c by simp
  ultimately show ?case
    using Cons.IH [of "run @ [c # r]"] Cons.prems cjk by (simp add: c Let_def FlushAsciiToken_def)
qed

text \<open>Case folding touches ASCII letters only, so it commutes with decoding.\<close>

lemma to_lower_high [simp]: "128 \<le> byte c \<Longrightarrow> to_lower_char c = c"
  by (simp add: to_lower_char_def)

lemma byte_to_lower_low: "byte c < 128 \<Longrightarrow> byte (to_lower_char c) < 128"
  by (auto simp: to_lower_char_def of_char_of)

lemma to_lower_high_iff [simp]:
  "128 \<le> byte (to_lower_char c) \<longleftrightarrow> 128 \<le> byte c"
  using byte_to_lower_low [of c] by (cases "byte c < 128") auto

lemma code_to_lower_low [simp]: "code (to_lower_char c) < 0x80 \<longleftrightarrow> code c < 0x80"
  using to_lower_high_iff [of c] by (auto simp: code_cmp simp del: to_lower_high_iff)

lemma is_cont_to_lower: "is_cont (code (to_lower_char c)) \<longleftrightarrow> is_cont (code c)"
  by (metis is_cont_code to_lower_high to_lower_high_iff)

lemma is_cont_to_lower_eq: "is_cont (code c) \<Longrightarrow> to_lower_char c = c"
  by (simp add: is_cont_code)

lemma to_lower_eq_iff:
  assumes "byte d < 65 \<or> 90 < byte d \<and> byte d < 97"
  shows "to_lower_char c = d \<longleftrightarrow> c = d"
  using assms by (auto simp: to_lower_char_def byte_char_of)

lemma IsAsciiWordChar_to_lower [simp]: "IsAsciiWordChar (to_lower_char c) = IsAsciiWordChar c"
  by (simp add: IsAsciiWordChar_def to_lower_eq_iff)

lemma decode_to_lower:
  assumes "128 \<le> byte c"
  shows "DecodeUtf8At (c # map to_lower_char r) = DecodeUtf8At (c # r)"
  using assms
  by (cases r; cases "tl r"; cases "tl (tl r)")
    (auto simp: DecodeUtf8At.simps(2) Let_def is_cont_to_lower is_cont_to_lower_eq)

lemma decode_high_bytes:
  assumes "DecodeUtf8At (c # r) = Some (cp, n)" "128 \<le> byte c"
  shows "list_all (\<lambda>x. 128 \<le> byte x) (take n (c # r))"
  using assms
  by (cases r; cases "tl r"; cases "tl (tl r)")
    (auto simp: DecodeUtf8At.simps(2) Let_def is_cont_code split: if_splits)

lemma map_to_lower_high:
  "list_all (\<lambda>x. 128 \<le> byte x) s \<Longrightarrow> map to_lower_char s = s"
  by (induction s) auto

lemma Tokenize_loop_ToLower:
  "Tokenize_loop cur run tokens (map to_lower_char s) = Tokenize_loop cur run tokens s"
proof (induction cur run tokens s rule: Tokenize_loop.induct)
  case (1 cur run tokens)
  then show ?case by simp
next
  case (2 cur run tokens c r)
  show ?case
  proof (cases "code c < 0x80")
    case True
    then show ?thesis using 2(1,2) by (simp add: Let_def)
  next
    case False
    then have c: "128 \<le> byte c" by (simp add: code_cmp)
    have take: "take n (c # map to_lower_char r) = take n (c # r)"
      "drop n (c # map to_lower_char r) = map to_lower_char (drop n (c # r))"
      if "DecodeUtf8At (c # r) = Some (cp, n)" for cp n
      using map_to_lower_high [OF decode_high_bytes [OF that c]] c
      by (simp_all flip: take_map drop_map)
    show ?thesis
      using False c 2(3-5) take
      by (simp add: Let_def decode_to_lower split: option.splits)
  qed
qed

text \<open>Trimming.\<close>

lemma dropWhile_both_ends:
  "dropWhile P (rev (dropWhile P (rev (dropWhile P s)))) = rev (dropWhile P (rev (dropWhile P s)))"
    (is "dropWhile P ?u = ?u")
proof (cases ?u)
  case (Cons c r)
  have "prefix ?u (dropWhile P s)"
    by (metis rev_rev_ident suffix_dropWhile suffix_to_prefix)
  then have "prefix (c # r) (dropWhile P s)" by (simp only: Cons)
  then have "dropWhile P s \<noteq> []" "hd (dropWhile P s) = c"
    by (auto simp: prefix_def simp del: dropWhile_eq_Nil_conv)
  then have "\<not> P c" using hd_dropWhile by blast
  with Cons show ?thesis by simp
next
  case Nil
  then show ?thesis by (simp only: dropWhile.simps)
qed

theorem Trim_idem: "Trim (Trim s) = Trim s"
  by (simp add: Trim_def dropWhile_both_ends)

lemma EstimateTokenCount_bounds:
  "length s \<le> 4 * EstimateTokenCount s" "4 * EstimateTokenCount s < length s + 4"
  by (auto simp: EstimateTokenCount_def)

section \<open>Properties\<close>

text \<open>
  C40. The UTF-8 decoder accepts a byte string exactly when it begins with the shortest-form
  encoding of a Unicode scalar value (no surrogates, at most U+10FFFF), and then returns
  that code point and the length of its encoding.
\<close>

theorem DecodeUtf8At_iff:
  "DecodeUtf8At s = Some (cp, n) \<longleftrightarrow>
     unicode_scalar (unat cp) \<and> prefix (utf8_encode (unat cp)) s \<and>
     n = length (utf8_encode (unat cp))"
  using decode_sound decode_encode [of "unat cp"] by (fastforce simp: prefix_def)

text \<open>
  On ASCII input the tokenizer returns the maximal runs of word characters
  (alphanumerics, underscore, hyphen), lower-cased, in order.
\<close>

lemma Tokenize_ascii:
  assumes "list_all (\<lambda>c. byte c < 128) s"
  shows "Tokenize s = filter (\<lambda>t. t \<noteq> []) (ascii_words [] s)"
  using Tokenize_loop_ascii [OF assms] by (simp add: Tokenize_def)

theorem Tokenize_ascii_witness:
  "Tokenize ''Use fd_set, NOT io-uring!'' = [''use'', ''fd_set'', ''not'', ''io-uring'']"
  by (subst Tokenize_ascii, code_simp, code_simp)

text \<open>
  A run of CJK characters is tokenized into its overlapping character bigrams; a
  single character is its own token.
\<close>

lemma Tokenize_cjk:
  assumes "list_all (\<lambda>k. IsCjkCodepoint (of_nat k) \<and> k < 0x110000) ks"
  shows "Tokenize (concat (map utf8_encode ks)) =
    (case map utf8_encode ks of [] \<Rightarrow> [] | [x] \<Rightarrow> [x] | run \<Rightarrow> bigrams run)"
  using Tokenize_loop_cjk [OF assms, of "[]" "[]"]
  by (simp add: Tokenize_def FlushCjkRunAsBigrams_def split: list.splits)

theorem Tokenize_cjk_witness:
  "Tokenize (concat (map utf8_encode [0x4E2D, 0x6587, 0x5B57])) =
     [utf8_encode 0x4E2D @ utf8_encode 0x6587, utf8_encode 0x6587 @ utf8_encode 0x5B57]"
  using Tokenize_cjk [of "[0x4E2D, 0x6587, 0x5B57]"] by (simp add: IsCjkCodepoint_def)

text \<open>
  Tokenizing does not depend on the case of ASCII letters: lower-casing the input
  first, as the callers that fold their text do, changes no token.
\<close>

lemma Tokenize_ToLower: "Tokenize (ToLower s) = Tokenize s"
  by (simp add: Tokenize_def ToLower_def Tokenize_loop_ToLower)

text \<open>
  The tokenizer never yields an empty token.
\<close>

theorem Tokenize_no_empty_token: "[] \<notin> set (Tokenize s)"
  using Tokenize_loop_nonempty [of "[]" "[]" "[]" s]
  by (auto simp: Tokenize_def list_all_iff)

end
