(* ===== verification/Vector_Index.thy ===== *)
theory Vector_Index
  imports Text
begin

text \<open>
  \<open>include/pgmem/core/vector_index.h\<close> with \<open>src/core/lsh_vector_index.cpp\<close>, and
  \<open>include/pgmem/core/embedding_provider.h\<close> with \<open>src/core/hash_embedding_provider.cpp\<close>.

  \<open>vindex_ops\<close> is the virtual interface \<open>IVectorIndex\<close> as a record of its operations; the
  locale \<open>vec_index\<close> states what a client relies on, and is interpreted on the LSH index.
  \<open>std::hash<std::string>\<close> is the parameter of \<open>HashEmbed\<close>.

  The lemmas show that the index refines a map from workspace and memory id to vectors,
  that a search returns exactly the best \<open>top_k\<close> entries of the workspace whatever the
  iteration order of the hash map, and that hash embeddings are unit vectors, which is
  what makes the plain dot product of \<open>Cosine\<close> a cosine.
\<close>

section \<open>The interface\<close>

record VectorSearchRequest =
  vq_workspace_id :: string
  vq_query :: "real list"
  vq_top_k :: u64

record VectorSearchResult =
  vr_memory_id :: string
  vr_score :: real

record 'v vindex_ops =
  vx_Upsert :: "string \<Rightarrow> string \<Rightarrow> real list \<Rightarrow> 'v \<Rightarrow> 'v"
  vx_Remove :: "string \<Rightarrow> string \<Rightarrow> 'v \<Rightarrow> 'v"
  vx_Search :: "'v \<Rightarrow> VectorSearchRequest \<Rightarrow> VectorSearchResult list"
  vx_EstimatedBytes :: "'v \<Rightarrow> string \<Rightarrow> u64"

text \<open>
  The contract: a finite map from ids to vectors per workspace, which writes and removals
  update point-wise, and a search that returns ids of that map, each at most once, and
  every one of them when nothing has to be cut.
\<close>

locale vec_index =
  fixes ops :: "'v vindex_ops"
    and inv :: "'v \<Rightarrow> bool"
    and vectors :: "'v \<Rightarrow> string \<Rightarrow> string \<Rightarrow> real list option"
  assumes inv_Upsert: "inv v \<Longrightarrow> inv (vx_Upsert ops ws i x v)"
    and inv_Remove: "inv v \<Longrightarrow> inv (vx_Remove ops ws i v)"
    and vectors_Upsert: "inv v \<Longrightarrow> vectors (vx_Upsert ops ws i x v) =
      (vectors v)(ws := (vectors v ws)(i \<mapsto> x))"
    and vectors_Remove: "inv v \<Longrightarrow> vectors (vx_Remove ops ws i v) =
      (vectors v)(ws := (vectors v ws)(i := None))"
    and Search_ids: "inv v \<Longrightarrow> r \<in> set (vx_Search ops v req) \<Longrightarrow>
      vr_memory_id r \<in> dom (vectors v (vq_workspace_id req))"
    and Search_distinct: "inv v \<Longrightarrow> distinct (map vr_memory_id (vx_Search ops v req))"
    and Search_complete: "inv v \<Longrightarrow> vq_query req \<noteq> [] \<Longrightarrow>
      card (dom (vectors v (vq_workspace_id req))) \<le> unat (vq_top_k req) \<Longrightarrow>
      vr_memory_id ` set (vx_Search ops v req) = dom (vectors v (vq_workspace_id req))"
begin

lemmas inv_ops = inv_Upsert inv_Remove
lemmas vectors_ops = vectors_Upsert vectors_Remove

end

section \<open>The LSH index\<close>

record Entry =
  e_vector :: "real list"
  e_bucket :: u64

type_synonym LshVectorIndex = "(string, (string, Entry) umap) umap"

definition BucketForVector :: "real list \<Rightarrow> u64" where
  "BucketForVector vector =
     fold (\<lambda>i bucket. if 0 < vector ! i then bucket OR push_bit i 1 else bucket)
       [0..<min 64 (length vector)] 0"

definition Cosine :: "real list \<Rightarrow> real list \<Rightarrow> real" where
  "Cosine a b =
     (if length a \<noteq> length b \<or> a = [] then 0
      else fold (\<lambda>i dot. dot + a ! i * b ! i) [0..<length a] 0)"

definition lsh_Upsert :: "string \<Rightarrow> string \<Rightarrow> real list \<Rightarrow> LshVectorIndex \<Rightarrow> LshVectorIndex" where
  "lsh_Upsert workspace_id memory_id vector v =
     (let docs = (case map_of v workspace_id of None \<Rightarrow> [] | Some docs \<Rightarrow> docs) in
      umap_put workspace_id
        (umap_put memory_id \<lparr> e_vector = vector, e_bucket = BucketForVector vector \<rparr> docs) v)"

definition lsh_Remove :: "string \<Rightarrow> string \<Rightarrow> LshVectorIndex \<Rightarrow> LshVectorIndex" where
  "lsh_Remove workspace_id memory_id v =
     (case map_of v workspace_id of
        None \<Rightarrow> v
      | Some docs \<Rightarrow>
          (let docs = umap_erase memory_id docs in
           if docs = [] then umap_erase workspace_id v else umap_put workspace_id docs v))"

definition result_less :: "VectorSearchResult \<Rightarrow> VectorSearchResult \<Rightarrow> bool" where
  "result_less lhs rhs \<longleftrightarrow>
     (if vr_score lhs = vr_score rhs then vr_memory_id lhs < vr_memory_id rhs
      else vr_score lhs > vr_score rhs)"

definition lsh_score :: "real list \<Rightarrow> Entry \<Rightarrow> real" where
  "lsh_score query entry =
     Cosine query (e_vector entry) +
     (if e_bucket entry = BucketForVector query then 0.05 else 0)"

definition lsh_Search :: "LshVectorIndex \<Rightarrow> VectorSearchRequest \<Rightarrow> VectorSearchResult list" where
  "lsh_Search v input =
     (case map_of v (vq_workspace_id input) of
        None \<Rightarrow> []
      | Some docs \<Rightarrow>
          if vq_query input = [] then []
          else
            (let out = sort_by result_less
                   (map (\<lambda>(i, entry). \<lparr> vr_memory_id = i,
                            vr_score = lsh_score (vq_query input) entry \<rparr>) docs) in
             if 0 < vq_top_k input \<and> unat (vq_top_k input) < length out
             then take (unat (vq_top_k input)) out else out))"

definition lsh_entry_bytes :: "string \<times> Entry \<Rightarrow> u64" where
  "lsh_entry_bytes p = of_nat (length (fst p)) + of_nat (length (e_vector (snd p))) * 4 + (8 + 64)"

definition lsh_EstimatedBytes :: "LshVectorIndex \<Rightarrow> string \<Rightarrow> u64" where
  "lsh_EstimatedBytes v workspace_id =
     umap_sum (\<lambda>(ws, docs). if workspace_id \<noteq> [] \<and> ws \<noteq> workspace_id then 0
                           else umap_sum lsh_entry_bytes docs) v"

definition lsh_ops :: "LshVectorIndex vindex_ops" where
  "lsh_ops = \<lparr> vx_Upsert = lsh_Upsert, vx_Remove = lsh_Remove, vx_Search = lsh_Search,
               vx_EstimatedBytes = lsh_EstimatedBytes \<rparr>"

subsection \<open>Invariant and abstraction\<close>

text \<open>Ids are distinct, no workspace is empty, and every cached bucket is the vector's own.\<close>

definition lsh_inv :: "LshVectorIndex \<Rightarrow> bool" where
  "lsh_inv v \<longleftrightarrow> umap_ok v \<and>
     (\<forall>(ws, docs) \<in> set v. umap_ok docs \<and> docs \<noteq> [] \<and>
        (\<forall>(i, entry) \<in> set docs. e_bucket entry = BucketForVector (e_vector entry)))"

definition lsh_docs :: "LshVectorIndex \<Rightarrow> string \<Rightarrow> (string, Entry) umap" where
  "lsh_docs v ws = (case map_of v ws of None \<Rightarrow> [] | Some docs \<Rightarrow> docs)"

definition lsh_vectors :: "LshVectorIndex \<Rightarrow> string \<Rightarrow> string \<Rightarrow> real list option" where
  "lsh_vectors v ws i = map_option e_vector (map_of (lsh_docs v ws) i)"

lemma lsh_inv_docs:
  assumes "lsh_inv v"
  shows "umap_ok (lsh_docs v ws)"
    "(i, entry) \<in> set (lsh_docs v ws) \<Longrightarrow> e_bucket entry = BucketForVector (e_vector entry)"
  using assms unfolding lsh_inv_def lsh_docs_def
  by (auto split: option.splits dest!: map_of_SomeD)

lemma lsh_docs_Upsert:
  "lsh_docs (lsh_Upsert ws i x v) ws' =
     (if ws' = ws then umap_put i \<lparr> e_vector = x, e_bucket = BucketForVector x \<rparr> (lsh_docs v ws)
      else lsh_docs v ws')"
  by (simp add: lsh_docs_def lsh_Upsert_def umap_simps Let_def)

lemma lsh_docs_Remove:
  "lsh_docs (lsh_Remove ws i v) ws' =
     (if ws' = ws then umap_erase i (lsh_docs v ws) else lsh_docs v ws')"
  by (auto simp: lsh_docs_def lsh_Remove_def umap_simps Let_def split: option.splits)

lemma lsh_inv_Upsert [inv_intros]:
  assumes "lsh_inv v"
  shows "lsh_inv (lsh_Upsert ws i x v)"
proof -
  have docs: "lsh_Upsert ws i x v = umap_put ws
      (umap_put i \<lparr> e_vector = x, e_bucket = BucketForVector x \<rparr> (lsh_docs v ws)) v"
    by (simp add: lsh_Upsert_def lsh_docs_def Let_def)
  have "umap_put i e m \<noteq> []" for e and m :: "(string, Entry) umap"
    by (cases m) auto
  then show ?thesis
    using assms lsh_inv_docs(1) [OF assms, of ws] lsh_inv_docs(2) [OF assms]
    by (fastforce simp: docs lsh_inv_def set_umap_put)
qed

lemma lsh_inv_Remove [inv_intros]:
  assumes "lsh_inv v"
  shows "lsh_inv (lsh_Remove ws i v)"
  using assms lsh_inv_docs [OF assms, of ws]
  by (auto simp: lsh_Remove_def lsh_inv_def lsh_docs_def Let_def set_umap_put set_umap_erase
      split: option.splits)

subsection \<open>Search\<close>

interpretation result_order: weak_order result_less
  by unfold_locales (auto simp: result_less_def split: if_splits)

definition lsh_results :: "LshVectorIndex \<Rightarrow> VectorSearchRequest \<Rightarrow> VectorSearchResult list" where
  "lsh_results v req =
     map (\<lambda>(i, entry). \<lparr> vr_memory_id = i, vr_score = lsh_score (vq_query req) entry \<rparr>)
       (lsh_docs v (vq_workspace_id req))"

definition search_limit :: "u64 \<Rightarrow> nat \<Rightarrow> nat" where
  "search_limit k n = (if 0 < k then unat k else n)"

lemma lsh_Search_eq:
  "lsh_Search v req =
     (if vq_query req = [] then []
      else take (search_limit (vq_top_k req) (length (lsh_results v req)))
             (sort_by result_less (lsh_results v req)))"
  by (simp add: lsh_Search_def lsh_results_def lsh_docs_def search_limit_def Let_def
      split: option.splits)

lemma map_id_lsh_results: "map vr_memory_id (lsh_results v req) =
  map fst (lsh_docs v (vq_workspace_id req))"
  by (simp add: lsh_results_def case_prod_beta)

lemma dom_lsh_vectors: "dom (lsh_vectors v ws) = fst ` set (lsh_docs v ws)"
  by (auto simp: lsh_vectors_def dom_def domIff image_iff map_of_eq_None_iff
      dest: map_of_SomeD)

lemma card_dom_lsh_vectors:
  "lsh_inv v \<Longrightarrow> card (dom (lsh_vectors v ws)) = length (lsh_docs v ws)"
  using lsh_inv_docs(1) [of v ws]
  by (simp add: dom_lsh_vectors distinct_card flip: set_map)

lemma lsh_results_distinct: "lsh_inv v \<Longrightarrow> distinct (map vr_memory_id (lsh_results v req))"
  by (simp add: map_id_lsh_results lsh_inv_docs)

lemma set_lsh_Search: "r \<in> set (lsh_Search v req) \<Longrightarrow> r \<in> set (lsh_results v req)"
  by (auto simp: lsh_Search_eq dest: set_take_sort_by split: if_splits)

lemma lsh_results_id:
  "r \<in> set (lsh_results v req) \<Longrightarrow> vr_memory_id r \<in> dom (lsh_vectors v (vq_workspace_id req))"
  using map_id_lsh_results [of v req]
  by (simp add: dom_lsh_vectors flip: set_map) (metis image_eqI list.set_map)

interpretation lsh: vec_index lsh_ops lsh_inv lsh_vectors
proof unfold_locales
  fix v ws i x req r
  assume inv: "lsh_inv v"
  show "lsh_inv (vx_Upsert lsh_ops ws i x v)" "lsh_inv (vx_Remove lsh_ops ws i v)"
    using inv by (simp_all add: lsh_ops_def inv_intros)
  show "lsh_vectors (vx_Upsert lsh_ops ws i x v) = (lsh_vectors v)(ws := (lsh_vectors v ws)(i \<mapsto> x))"
    "lsh_vectors (vx_Remove lsh_ops ws i v) = (lsh_vectors v)(ws := (lsh_vectors v ws)(i := None))"
    by (auto simp: fun_eq_iff lsh_ops_def lsh_vectors_def lsh_docs_Upsert lsh_docs_Remove umap_simps)
  show "vr_memory_id r \<in> dom (lsh_vectors v (vq_workspace_id req))"
    if "r \<in> set (vx_Search lsh_ops v req)"
    using that by (simp add: lsh_ops_def lsh_results_id set_lsh_Search)
  show "distinct (map vr_memory_id (vx_Search lsh_ops v req))"
    using lsh_results_distinct [OF inv]
    by (simp add: lsh_ops_def lsh_Search_eq flip: take_map)
  show "vr_memory_id ` set (vx_Search lsh_ops v req) = dom (lsh_vectors v (vq_workspace_id req))"
    if "vq_query req \<noteq> []"
      "card (dom (lsh_vectors v (vq_workspace_id req))) \<le> unat (vq_top_k req)"
  proof -
    have len: "length (lsh_results v req) = card (dom (lsh_vectors v (vq_workspace_id req)))"
      using inv by (simp add: card_dom_lsh_vectors lsh_results_def)
    have "vr_memory_id ` set (vx_Search lsh_ops v req) = vr_memory_id ` set (lsh_results v req)"
      using that by (simp add: lsh_ops_def lsh_Search_eq search_limit_def len)
    then show ?thesis
      by (simp add: dom_lsh_vectors flip: set_map) (simp add: map_id_lsh_results)
  qed
qed

lemma BucketForVector_bit:
  "bit (BucketForVector x) i \<longleftrightarrow> i < 64 \<and> i < length x \<and> 0 < x ! i"
proof -
  have "bit (fold (\<lambda>i bucket. if 0 < x ! i then bucket OR push_bit i 1 else bucket) [0..<n] (0 :: u64)) i
      \<longleftrightarrow> i < n \<and> 0 < x ! i" if "n \<le> 64" for n
    using that by (induction n) (auto simp: bit_simps less_Suc_eq bit_1_iff)
  then show ?thesis by (auto simp: BucketForVector_def)
qed

text \<open>A strict total order sorts the permutations of a list to the same list.\<close>

lemma result_less_total: "\<not> result_less x y \<Longrightarrow> \<not> result_less y x \<Longrightarrow> x = y"
  by (cases x; cases y) (auto simp: result_less_def split: if_splits)

lemma sorted_results: "sorted_wrt (\<lambda>a b. a = b \<or> result_less a b) (sort_by result_less rs)"
  by (rule sorted_wrt_mono_rel [OF _ result_order.sorted_sort_by]) (use result_less_total in blast)

lemma sorted_wrt_unique:
  assumes "\<And>x y. R x y \<Longrightarrow> R y x \<Longrightarrow> x = y"
  shows "sorted_wrt R xs \<Longrightarrow> sorted_wrt R ys \<Longrightarrow> mset xs = mset ys \<Longrightarrow> xs = ys"
proof (induction xs arbitrary: ys)
  case Nil
  then show ?case by simp
next
  case (Cons x xs)
  then obtain y ys' where ys: "ys = y # ys'" by (cases ys) auto
  have "x = y"
  proof (rule ccontr)
    assume "x \<noteq> y"
    from mset_eq_setD [OF Cons.prems(3)] have "x \<in> set (y # ys')" "y \<in> set (x # xs)"
      by (auto simp: ys)
    with \<open>x \<noteq> y\<close> have "x \<in> set ys'" "y \<in> set xs" by auto
    with Cons.prems(1,2) assms [of x y] \<open>x \<noteq> y\<close> show False by (auto simp: ys)
  qed
  with Cons ys show ?case by auto
qed

lemma sort_results_perm:
  "mset xs = mset ys \<Longrightarrow> sort_by result_less xs = sort_by result_less ys"
  by (rule sorted_wrt_unique [OF _ sorted_results sorted_results])
    (auto dest: result_order.lt_asym)

lemma Cosine_sum: "length a = length b \<Longrightarrow> Cosine a b = (\<Sum>i<length a. a ! i * b ! i)"
proof -
  have "fold (\<lambda>i dot. dot + a ! i * b ! i) [0..<n] 0 = (\<Sum>i<n. a ! i * b ! i)" for n
    by (induction n) auto
  then show "length a = length b \<Longrightarrow> ?thesis" by (auto simp: Cosine_def)
qed

lemma Cosine_le_1:
  assumes "Cosine a a = 1" "Cosine b b = 1"
  shows "Cosine a b \<le> 1"
proof (cases "length a = length b")
  case True
  have "2 * (a ! i * b ! i) \<le> a ! i * a ! i + b ! i * b ! i" for i
    using sum_squares_bound [of "a ! i" "b ! i"] by (simp add: power2_eq_square)
  then have "(\<Sum>i<length a. 2 * (a ! i * b ! i)) \<le> (\<Sum>i<length a. a ! i * a ! i + b ! i * b ! i)"
    by (intro sum_mono)
  then have "2 * Cosine a b \<le> Cosine a a + Cosine b b"
    using True by (simp add: Cosine_sum sum.distrib flip: sum_distrib_left)
  with assms show ?thesis by simp
qed (simp add: Cosine_def)

section \<open>Hash embeddings\<close>

definition float_epsilon :: real where
  "float_epsilon = 1 / 2 ^ 23"

definition bump :: "nat \<Rightarrow> real list \<Rightarrow> real list" where
  "bump i emb = emb[i := emb ! i + 1]"

definition HashEmbed :: "(string \<Rightarrow> u64) \<Rightarrow> string \<Rightarrow> nat \<Rightarrow> real list" where
  "HashEmbed hash text d =
     (if d = 0 then []
      else
        (let emb = replicate d 0; tokens = Tokenize text in
         if tokens = [] then emb
         else
           (let emb = fold (\<lambda>token. bump (unat (hash token) mod d)) tokens emb;
                norm = sqrt (sum_list (map (\<lambda>v. v * v) emb)) in
            if float_epsilon < norm then map (\<lambda>v. v / norm) emb else emb)))"

definition hash_counts :: "(string \<Rightarrow> u64) \<Rightarrow> string list \<Rightarrow> nat \<Rightarrow> real list" where
  "hash_counts hash tokens d =
     fold (\<lambda>token. bump (unat (hash token) mod d)) tokens (replicate d 0)"

lemma length_bump [simp]: "length (bump i emb) = length emb"
  by (simp add: bump_def)

lemma sum_bump: "i < length emb \<Longrightarrow> sum_list (bump i emb) = sum_list emb + 1"
proof (induction emb arbitrary: i)
  case Nil
  then show ?case by simp
next
  case (Cons x emb)
  then show ?case by (cases i) (auto simp: bump_def)
qed

lemma counts_invariant:
  fixes hash :: "string \<Rightarrow> u64"
  assumes "0 < d" "length emb = d" "\<forall>x\<in>set emb. x \<in> \<nat>"
  defines "F \<equiv> \<lambda>tokens. fold (\<lambda>token. bump (unat (hash token) mod d)) tokens emb"
  shows "length (F tokens) = d \<and> (\<forall>x\<in>set (F tokens). x \<in> \<nat>) \<and>
    sum_list (F tokens) = sum_list emb + length tokens"
  unfolding F_def using assms(1-3)
proof (induction tokens arbitrary: emb)
  case Nil
  then show ?case by simp
next
  case (Cons t ts)
  let ?i = "unat (hash t) mod d"
  have i: "?i < length emb" using Cons.prems by simp
  have "\<forall>x\<in>set (bump ?i emb). x \<in> \<nat>"
    using Cons.prems i unfolding bump_def
    by (auto dest!: subsetD [OF set_update_subset_insert])
  with Cons.IH [of "bump ?i emb"] Cons.prems i show ?case by (simp add: sum_bump)
qed

lemma hash_counts_props:
  assumes "0 < d"
  shows "length (hash_counts hash tokens d) = d"
    "x \<in> set (hash_counts hash tokens d) \<Longrightarrow> x \<in> \<nat>"
    "sum_list (hash_counts hash tokens d) = length tokens"
  using counts_invariant [of d "replicate d 0" hash tokens] assms
  by (auto simp: hash_counts_def sum_list_replicate)

lemma Nats_le_square: "x \<in> \<nat> \<Longrightarrow> x \<le> x * (x :: real)"
  by (auto simp: Nats_def simp flip: of_nat_mult)

lemma hash_counts_norm:
  assumes "0 < d" "tokens \<noteq> []"
  shows "1 \<le> sum_list (map (\<lambda>v. v * v) (hash_counts hash tokens d))"
proof -
  let ?c = "hash_counts hash tokens d"
  have "\<forall>x\<in>set ?c. x \<in> \<nat>" and "sum_list ?c = length tokens"
    using hash_counts_props [OF assms(1)] by auto
  moreover have "sum_list (map (\<lambda>v. v) ?c) \<le> sum_list (map (\<lambda>v. v * v) ?c)"
    using calculation by (intro sum_list_mono Nats_le_square) auto
  moreover have "1 \<le> real (length tokens)" using assms(2) by (cases tokens) auto
  ultimately show ?thesis by simp
qed

lemma HashEmbed_eq:
  fixes hash :: "string \<Rightarrow> u64"
  assumes "0 < d" "Tokenize text \<noteq> []"
  defines "c \<equiv> hash_counts hash (Tokenize text) d"
  shows "HashEmbed hash text d = map (\<lambda>v. v / sqrt (sum_list (map (\<lambda>v. v * v) c))) c"
proof -
  have "1 \<le> sqrt (sum_list (map (\<lambda>v. v * v) c))"
    using hash_counts_norm [OF assms(1,2)] by (simp add: c_def)
  then have "float_epsilon < sqrt (sum_list (map (\<lambda>v. v * v) c))"
    unfolding float_epsilon_def by (rule less_le_trans [rotated]) simp
  with assms show ?thesis by (simp add: HashEmbed_def Let_def hash_counts_def)
qed

lemma Cosine_self: "x \<noteq> [] \<Longrightarrow> Cosine x x = sum_list (map (\<lambda>v. v * v) x)"
  by (simp add: Cosine_sum sum_list_sum_nth atLeast0LessThan)

lemma length_HashEmbed [simp]: "length (HashEmbed hash text d) = d"
proof (cases "0 < d \<and> Tokenize text \<noteq> []")
  case True
  with hash_counts_props(1) [of d] show ?thesis by (simp add: HashEmbed_eq)
qed (auto simp: HashEmbed_def)

lemma HashEmbed_nonneg: "x \<in> set (HashEmbed hash text d) \<Longrightarrow> 0 \<le> x"
proof (cases "0 < d \<and> Tokenize text \<noteq> []")
  case True
  assume x: "x \<in> set (HashEmbed hash text d)"
  let ?c = "hash_counts hash (Tokenize text) d"
  have "\<forall>x\<in>set ?c. 0 \<le> x" using hash_counts_props(2) [of d] True
    by (fastforce simp: Nats_def)
  moreover have "0 \<le> sqrt (sum_list (map (\<lambda>v. v * v) ?c))"
    by (auto intro!: sum_list_nonneg)
  ultimately show ?thesis using x True by (auto simp: HashEmbed_eq)
qed (auto simp: HashEmbed_def split: if_splits)

lemma HashEmbed_unit:
  assumes "0 < d" "Tokenize text \<noteq> []"
  shows "Cosine (HashEmbed hash text d) (HashEmbed hash text d) = 1"
proof -
  let ?c = "hash_counts hash (Tokenize text) d"
  let ?n = "sum_list (map (\<lambda>v. v * v) ?c)"
  have n: "1 \<le> ?n" by (rule hash_counts_norm [OF assms])
  have "HashEmbed hash text d \<noteq> []"
    using assms(1) length_HashEmbed [of hash "text" d] by force
  then have "Cosine (HashEmbed hash text d) (HashEmbed hash text d) =
      sum_list (map (\<lambda>v. v / sqrt ?n * (v / sqrt ?n)) ?c)"
    by (simp add: Cosine_self) (simp add: HashEmbed_eq [OF assms] o_def)
  also have "\<dots> = sum_list (map (\<lambda>v. v * v / ?n) ?c)"
    using n by (simp add: field_simps)
  also have "\<dots> = 1"
    using n sum_list_mult_const [of "\<lambda>v. v * v" "1 / ?n" ?c] by simp
  finally show ?thesis .
qed

lemma Cosine_nonneg:
  assumes "\<forall>x\<in>set a. 0 \<le> x" "\<forall>x\<in>set b. 0 \<le> x"
  shows "0 \<le> Cosine a b"
proof (cases "length a = length b")
  case True
  with assms show ?thesis by (auto simp: Cosine_sum intro!: sum_nonneg mult_nonneg_nonneg)
qed (simp add: Cosine_def)

section \<open>Properties\<close>

text \<open>
  A search of the LSH index returns the best entries of the workspace: distinct ids in
  strictly decreasing rank (score, then id), each scored by cosine plus the bucket bonus, as
  many as \<open>top_k\<close> allows (all of them for \<open>top_k = 0\<close>), and every entry it leaves out
  ranks after every entry it returns.
\<close>

lemma lsh_Search_best:
  assumes "lsh_inv v" and "vq_query req \<noteq> []"
  shows "sorted_wrt result_less (lsh_Search v req) \<and>
    set (lsh_Search v req) \<subseteq> set (lsh_results v req) \<and>
    length (lsh_Search v req) =
      min (search_limit (vq_top_k req) (length (lsh_results v req))) (length (lsh_results v req)) \<and>
    (\<forall>out \<in> set (lsh_results v req) - set (lsh_Search v req).
       \<forall>r \<in> set (lsh_Search v req). result_less r out)"
proof -
  let ?R = "lsh_results v req" and ?n = "search_limit (vq_top_k req) (length (lsh_results v req))"
  have S: "lsh_Search v req = take ?n (sort_by result_less ?R)"
    using assms(2) by (simp add: lsh_Search_eq)
  have dist: "distinct (sort_by result_less ?R)"
    using lsh_results_distinct [OF assms(1), of req] distinct_map_sort_by [of id result_less ?R]
    by (simp add: distinct_map)
  have "sorted_wrt result_less (sort_by result_less ?R)"
    using sorted_results [of ?R] dist by (auto simp: sorted_wrt_iff_nth_less nth_eq_iff_index_eq)
  then have split: "sorted_wrt result_less (take ?n (sort_by result_less ?R) @
      drop ?n (sort_by result_less ?R))" by simp
  have "out \<in> set (drop ?n (sort_by result_less ?R))"
    if "out \<in> set ?R - set (take ?n (sort_by result_less ?R))" for out
    using that by (metis Diff_iff append_take_drop_id set_append set_sort_by UnE)
  with split show ?thesis
    unfolding S sorted_wrt_append by (auto dest: set_take_sort_by)
qed

theorem lsh_Search_best_witness:
  "let v = lsh_Upsert ''w'' ''a'' [1, 0] (lsh_Upsert ''w'' ''b'' [0, 1] []);
       req = \<lparr> vq_workspace_id = ''w'', vq_query = [0, 1], vq_top_k = 1 \<rparr>
   in map vr_memory_id (lsh_Search v req) = [''b''] \<and> length (lsh_results v req) = 2 \<and>
      sorted_wrt result_less (lsh_Search v req)"
proof -
  let ?v = "lsh_Upsert ''w'' ''a'' [1, 0] (lsh_Upsert ''w'' ''b'' [0, 1] [])"
  have "lsh_inv ?v" by (intro inv_intros) (simp add: lsh_inv_def)
  from lsh_Search_best [OF this, of "\<lparr> vq_workspace_id = ''w'', vq_query = [0, 1], vq_top_k = 1 \<rparr>"]
  show ?thesis
    by (simp add: lsh_Search_def lsh_results_def lsh_docs_def lsh_Upsert_def lsh_score_def Cosine_def
        BucketForVector_def result_less_def numeral_2_eq_2 Let_def)
qed

text \<open>
  The result of a search depends on the entries of the workspace only, not on the
  order in which the hash map iterates over them.
\<close>

lemma lsh_Search_order_independent:
  assumes "mset (lsh_docs v (vq_workspace_id req)) = mset (lsh_docs v' (vq_workspace_id req))"
  shows "lsh_Search v req = lsh_Search v' req"
proof -
  have "mset (lsh_results v req) = mset (lsh_results v' req)"
    using assms by (simp add: lsh_results_def mset_map)
  from sort_results_perm [OF this] mset_eq_length [OF this] show ?thesis
    by (simp add: lsh_Search_eq)
qed

theorem lsh_Search_order_independent_witness:
  "lsh_Search (lsh_Upsert ''w'' ''a'' [1, 0] (lsh_Upsert ''w'' ''b'' [0, 1] []))
     \<lparr> vq_workspace_id = ''w'', vq_query = [1, 1], vq_top_k = 0 \<rparr> =
   lsh_Search (lsh_Upsert ''w'' ''b'' [0, 1] (lsh_Upsert ''w'' ''a'' [1, 0] []))
     \<lparr> vq_workspace_id = ''w'', vq_query = [1, 1], vq_top_k = 0 \<rparr>"
proof (rule lsh_Search_order_independent)
  have "mset (umap_put ''a'' x [(''b'', y)]) = mset (umap_put ''b'' y [(''a'', x)])" for x y :: Entry
    by simp
  then show "mset (lsh_docs (lsh_Upsert ''w'' ''a'' [1, 0] (lsh_Upsert ''w'' ''b'' [0, 1] []))
       (vq_workspace_id \<lparr> vq_workspace_id = ''w'', vq_query = [1, 1], vq_top_k = 0 \<rparr>)) =
    mset (lsh_docs (lsh_Upsert ''w'' ''b'' [0, 1] (lsh_Upsert ''w'' ''a'' [1, 0] []))
       (vq_workspace_id \<lparr> vq_workspace_id = ''w'', vq_query = [1, 1], vq_top_k = 0 \<rparr>))"
    by (simp only: lsh_docs_Upsert VectorSearchRequest.simps if_True simp_thms)
      (simp add: lsh_docs_def)
qed

text \<open>
  The hash embedding of a text with at least one token is a unit vector, so the dot
  product that the index calls a cosine lies between 0 and 1 for any two texts, and is 1
  for a text against itself.
\<close>

lemma HashEmbed_cosine:
  assumes "0 < d" and "Tokenize s \<noteq> []" and "Tokenize t \<noteq> []"
  shows "Cosine (HashEmbed hash s d) (HashEmbed hash s d) = 1 \<and>
    0 \<le> Cosine (HashEmbed hash s d) (HashEmbed hash t d) \<and>
    Cosine (HashEmbed hash s d) (HashEmbed hash t d) \<le> 1"
  using assms by (simp add: HashEmbed_unit Cosine_le_1 Cosine_nonneg HashEmbed_nonneg)

theorem HashEmbed_cosine_witness:
  "Cosine (HashEmbed (\<lambda>_. 7) ''ab'' 4) (HashEmbed (\<lambda>_. 7) ''ab'' 4) = 1 \<and>
   Cosine (HashEmbed (\<lambda>_. 7) ''ab'' 4) (HashEmbed (\<lambda>_. 7) ''cd ef'' 4) \<le> 1"
proof -
  have "Tokenize ''ab'' \<noteq> []" "Tokenize ''cd ef'' \<noteq> []" by code_simp+
  then show ?thesis using HashEmbed_cosine [of 4 "''ab''" "''cd ef''" "\<lambda>_. 7"] by simp
qed

end
