(* ===== verification/Records.thy ===== *)
theory Records
  imports Vector_Index Json_Api
begin

text \<open>
  The first part of \<open>src/core/memory_engine.cpp\<close>: the functions on single records and keys
  that the engine is built from.  Store keys, record sizes, eviction ranks, version order,
  pin governance, expiry, the embedding that is persisted, and the JSON form of a record.

  The lemmas show which keys can be told apart, that event keys sort by time and sequence
  number, that the version test is the order on stamps, when a record expires, and that
  a record survives serialization.
\<close>

section \<open>Name spaces and keys\<close>

definition kDocNs :: string where "kDocNs = ''mem_docs''"
definition kTermDictNs :: string where "kTermDictNs = ''mem_term_dict''"
definition kPostingBlkNs :: string where "kPostingBlkNs = ''mem_posting_blk''"
definition kVecCodeNs :: string where "kVecCodeNs = ''mem_vec_code''"
definition kVecFpNs :: string where "kVecFpNs = ''mem_vec_fp''"
definition kRouteMetaNs :: string where "kRouteMetaNs = ''mem_route_meta''"
definition kEventsNs :: string where "kEventsNs = ''ds_events''"
definition kProjectionCkptNs :: string where "kProjectionCkptNs = ''ds_projection_ckpt''"

lemmas name_spaces = kDocNs_def kTermDictNs_def kPostingBlkNs_def kVecCodeNs_def kVecFpNs_def
  kRouteMetaNs_def kEventsNs_def kProjectionCkptNs_def

definition BytesFromMb :: "u64 \<Rightarrow> u64" where
  "BytesFromMb mb = mb * 1024 * 1024"

definition BytesFromGb :: "u64 \<Rightarrow> u64" where
  "BytesFromGb gb = gb * 1024 * 1024 * 1024"

definition ZeroPadUint64 :: "u64 \<Rightarrow> string" where
  "ZeroPadUint64 v = zero_pad 20 (dec_string (unat v))"

definition BuildDocKey :: "string \<Rightarrow> string \<Rightarrow> string" where
  "BuildDocKey workspace_id memory_id = ''ws/'' @ workspace_id @ ''/doc/'' @ memory_id"

definition BuildTermDictKey :: "string \<Rightarrow> string \<Rightarrow> string" where
  "BuildTermDictKey workspace_id term = ''ws/'' @ workspace_id @ ''/term/'' @ term"

definition BuildPostingKey :: "string \<Rightarrow> string \<Rightarrow> u64 \<Rightarrow> string \<Rightarrow> string" where
  "BuildPostingKey workspace_id term bucket memory_id =
     ''ws/'' @ workspace_id @ ''/term/'' @ term @ ''/b/'' @ dec_string (unat bucket) @ ''/blk/''
       @ memory_id"

definition BuildVecCodeKey :: "string \<Rightarrow> u64 \<Rightarrow> string \<Rightarrow> string" where
  "BuildVecCodeKey workspace_id bucket memory_id =
     ''ws/'' @ workspace_id @ ''/vec/'' @ dec_string (unat bucket) @ ''/'' @ memory_id"

definition BuildVecFpKey :: "string \<Rightarrow> string \<Rightarrow> string" where
  "BuildVecFpKey workspace_id memory_id = ''ws/'' @ workspace_id @ ''/vecfp/'' @ memory_id"

definition BuildRouteMetaKey :: "string \<Rightarrow> string" where
  "BuildRouteMetaKey workspace_id = ''ws/'' @ workspace_id"

definition BuildEventKey :: "string \<Rightarrow> u64 \<Rightarrow> u64 \<Rightarrow> string" where
  "BuildEventKey workspace_id ts sq =
     ''ws/'' @ workspace_id @ ''/ts/'' @ ZeroPadUint64 ts @ ''/seq/'' @ ZeroPadUint64 sq"

definition BuildCkptKey :: "string \<Rightarrow> string" where
  "BuildCkptKey workspace_id = ''ws/'' @ workspace_id"

definition RecordMapKey :: "string \<Rightarrow> string \<Rightarrow> string" where
  "RecordMapKey workspace_id memory_id = workspace_id @ '':'' @ memory_id"

text \<open>The two functions that recover the workspace of a key differ in their marker only.\<close>

definition workspace_before :: "string \<Rightarrow> string \<Rightarrow> string" where
  "workspace_before marker key =
     (if \<not> prefix ''ws/'' key then ''''
      else
        (case str_find key marker of
           None \<Rightarrow> ''''
         | Some marker_pos \<Rightarrow>
             if marker_pos \<le> length ''ws/'' then ''''
             else substr key (length ''ws/'') (marker_pos - length ''ws/'')))"

definition WorkspaceFromDocKey :: "string \<Rightarrow> string" where
  "WorkspaceFromDocKey doc_key = workspace_before ''/doc/'' doc_key"

definition WorkspaceFromEventKey :: "string \<Rightarrow> string" where
  "WorkspaceFromEventKey event_key = workspace_before ''/ts/'' event_key"

definition MemoryIdFromDocKey :: "string \<Rightarrow> string" where
  "MemoryIdFromDocKey doc_key =
     (case str_find doc_key ''/doc/'' of
        None \<Rightarrow> ''''
      | Some marker_pos \<Rightarrow>
          if length doc_key \<le> marker_pos + length ''/doc/'' then ''''
          else drop (marker_pos + length ''/doc/'') doc_key)"

definition IsMissingScanNamespaceError :: "string \<Rightarrow> bool" where
  "IsMissingScanNamespaceError err \<longleftrightarrow>
     (if err = '''' then False
      else str_find (map to_lower_char err) ''resource not found'' \<noteq> None)"

section \<open>Sizes, ranks and versions\<close>

definition ComputeRecordSizeBytes :: "MemoryRecord \<Rightarrow> u64" where
  "ComputeRecordSizeBytes record =
     of_nat (length (r_id record)) + of_nat (length (r_workspace_id record))
     + of_nat (length (r_session_id record)) + of_nat (length (r_source record))
     + of_nat (length (r_content record)) + of_nat (length (r_node_id record))
     + of_nat (length (r_tier record)) + of_nat (length (r_dedup_key record))
     + of_nat (length (r_shard_id record)) + of_nat (length (r_replica_role record))
     + of_nat (length (r_shard_hint record))
     + sum_list (map (\<lambda>tag. of_nat (length tag)) (r_tags record))
     + sum_list (map (\<lambda>kv. of_nat (length (fst kv)) + of_nat (length (snd kv))) (r_metadata record))
     + 384"

definition EvictionRank :: "MemoryRecord \<Rightarrow> u64 \<Rightarrow> real" where
  "EvictionRank rec now_ms =
     (let reference_ms = max (r_updated_at_ms rec) (r_last_access_ms rec);
          age_hours = real (unat (if reference_ms < now_ms then now_ms - reference_ms else 0)) / 3600000;
          hit_signal = ln (1 + real (unat (r_hit_count rec)));
          source_weight = (if r_source rec = ''turn'' then 2 else 0.8);
          pin_bias = (if r_pinned rec then 1500 else 0);
          tombstone_bias = (if r_tombstone rec then - 1500 else 0)
      in r_importance_score rec * 10 + hit_signal * 4 + source_weight + pin_bias + tombstone_bias
         - age_hours * 1.5)"

definition IsIncomingNewer :: "MemoryRecord \<Rightarrow> MemoryRecord \<Rightarrow> bool" where
  "IsIncomingNewer current incoming \<longleftrightarrow>
     (if r_updated_at_ms incoming \<noteq> r_updated_at_ms current
      then r_updated_at_ms incoming > r_updated_at_ms current
      else if r_version incoming \<noteq> r_version current then r_version incoming > r_version current
      else r_node_id incoming > r_node_id current)"

definition IsExpired :: "MemoryRecord \<Rightarrow> u64 \<Rightarrow> bool" where
  "IsExpired record now_ms \<longleftrightarrow>
     (if r_ttl_s record = 0 \<or> r_updated_at_ms record = 0 then False
      else
        (let ttl_ms = r_ttl_s record * 1000 in
         r_updated_at_ms record < now_ms \<and> ttl_ms \<le> now_ms - r_updated_at_ms record))"

section \<open>Pin governance\<close>

record WorkspacePinStats =
  ps_active :: nat
  ps_pinned :: nat
  ps_has_evictable :: bool

definition count_pin :: "string \<Rightarrow> MemoryRecord \<Rightarrow> WorkspacePinStats \<Rightarrow> WorkspacePinStats" where
  "count_pin workspace_id rec stats =
     (if r_workspace_id rec \<noteq> workspace_id \<or> r_tombstone rec then stats
      else
        (let stats = stats\<lparr> ps_active := ps_active stats + 1 \<rparr> in
         if r_pinned rec then stats\<lparr> ps_pinned := ps_pinned stats + 1 \<rparr>
         else stats\<lparr> ps_has_evictable := True \<rparr>))"

definition ComputeWorkspacePinStats :: "(string, MemoryRecord) umap \<Rightarrow> string \<Rightarrow> WorkspacePinStats" where
  "ComputeWorkspacePinStats records workspace_id =
     fold (\<lambda>kv. count_pin workspace_id (snd kv)) records
       \<lparr> ps_active = 0, ps_pinned = 0, ps_has_evictable = False \<rparr>"

definition PinnedRatio :: "nat \<Rightarrow> nat \<Rightarrow> real" where
  "PinnedRatio pinned active = (if active = 0 then 0 else real pinned / real active)"

definition IsPinBlockedByRatio :: "nat \<Rightarrow> nat \<Rightarrow> real \<Rightarrow> bool" where
  "IsPinBlockedByRatio pinned active max_ratio \<longleftrightarrow>
     (if active = 0 then False
      else if max_ratio \<le> 0 then True
      else if 1 \<le> max_ratio then False
      else max_ratio < PinnedRatio pinned active)"

section \<open>The persisted vector\<close>

definition BuildEmbedding :: "(string \<Rightarrow> u64) \<Rightarrow> string \<Rightarrow> nat \<Rightarrow> real list" where
  "BuildEmbedding hash content d =
     (let emb = replicate d 0; tokens = Tokenize content in
      if tokens = [] \<or> d = 0 then emb
      else
        (let emb = fold (\<lambda>token. bump (unat (hash token) mod d)) tokens emb;
             norm = sqrt (sum_list (map (\<lambda>v. v * v) emb)) in
         if float_epsilon < norm then map (\<lambda>v. v / norm) emb else emb))"

fun EncodeVectorCsv :: "(real \<Rightarrow> string) \<Rightarrow> real list \<Rightarrow> string" where
  "EncodeVectorCsv fmt [] = ''''"
| "EncodeVectorCsv fmt [v] = fmt v"
| "EncodeVectorCsv fmt (v # vs) = fmt v @ '','' @ EncodeVectorCsv fmt vs"

definition EncodeVectorBucketSignature :: "real list \<Rightarrow> u64" where
  "EncodeVectorBucketSignature vec =
     fold (\<lambda>i bucket. if 0 < vec ! i then bucket OR push_bit i 1 else bucket)
       [0..<min 64 (length vec)] 0"

definition BucketForPosting :: "(string \<Rightarrow> u64) \<Rightarrow> string \<Rightarrow> string \<Rightarrow> u64" where
  "BucketForPosting hash workspace_id term = hash (workspace_id @ '':'' @ term) mod 16"

text \<open>The engine persists the very embedding and signature that the live index computes.\<close>

lemma BuildEmbedding_HashEmbed: "BuildEmbedding hash s d = HashEmbed hash s d"
  by (simp add: BuildEmbedding_def HashEmbed_def Let_def)

lemma EncodeVectorBucketSignature_Bucket: "EncodeVectorBucketSignature = BucketForVector"
  by (simp add: fun_eq_iff EncodeVectorBucketSignature_def BucketForVector_def)

section \<open>The JSON form of a record\<close>

definition GetDoubleOr :: "'j json_api \<Rightarrow> 'j \<Rightarrow> string \<Rightarrow> real \<Rightarrow> real" where
  "GetDoubleOr J json path fallback = value_or (j_get_double J json path) fallback"

definition GetUint64OrSafe :: "'j json_api \<Rightarrow> 'j \<Rightarrow> string \<Rightarrow> u64 \<Rightarrow> u64" where
  "GetUint64OrSafe J json path fallback = value_or (j_get_u64 J json path) fallback"

definition record_scalars :: "MemoryRecord \<Rightarrow> (string \<times> jscalar) list" where
  "record_scalars r =
     [(''id'', JStr (r_id r)), (''workspace_id'', JStr (r_workspace_id r)),
      (''session_id'', JStr (r_session_id r)), (''source'', JStr (r_source r)),
      (''content'', JStr (r_content r)), (''pinned'', JBool (r_pinned r)),
      (''tombstone'', JBool (r_tombstone r)), (''created_at_ms'', JU64 (r_created_at_ms r)),
      (''updated_at_ms'', JU64 (r_updated_at_ms r)), (''version'', JU64 (r_version r)),
      (''size_bytes'', JU64 (r_size_bytes r)), (''last_access_ms'', JU64 (r_last_access_ms r)),
      (''hit_count'', JU64 (r_hit_count r)), (''importance_score'', JReal (r_importance_score r)),
      (''tier'', JStr (r_tier r)), (''node_id'', JStr (r_node_id r)), (''ttl_s'', JU64 (r_ttl_s r)),
      (''dedup_key'', JStr (r_dedup_key r)), (''shard_id'', JStr (r_shard_id r)),
      (''replica_role'', JStr (r_replica_role r)), (''routing_epoch'', JU64 (r_routing_epoch r)),
      (''shard_hint'', JStr (r_shard_hint r))]"

definition record_json :: "'j json_api \<Rightarrow> MemoryRecord \<Rightarrow> 'j" where
  "record_json J r =
     (let json = put_fields J (record_scalars r) (j_empty J);
          json = j_add_child J ''tags'' (MakeArray J (r_tags r)) json;
          metadata = put_fields J (map (\<lambda>(k, v). (k, JStr v)) (r_metadata r)) (j_empty J)
      in j_add_child J ''metadata'' metadata json)"

definition SerializeRecord :: "'j json_api \<Rightarrow> MemoryRecord \<Rightarrow> string" where
  "SerializeRecord J r = ToJsonString J (record_json J r) False"

definition read_metadata :: "'j json_api \<Rightarrow> 'j \<Rightarrow> StringMap" where
  "read_metadata J json =
     (case j_get_child J json ''metadata'' of
        None \<Rightarrow> []
      | Some m \<Rightarrow> fold (\<lambda>kv. omap_put (fst kv) (j_value J (snd kv))) (j_children J m) [])"

definition record_of_json :: "'j json_api \<Rightarrow> 'j \<Rightarrow> MemoryRecord" where
  "record_of_json J json =
     \<lparr> r_id = GetStringOr J json ''id'' '''',
       r_workspace_id = GetStringOr J json ''workspace_id'' '''',
       r_session_id = GetStringOr J json ''session_id'' '''',
       r_source = GetStringOr J json ''source'' '''',
       r_content = GetStringOr J json ''content'' '''',
       r_tags = ReadStringArray J json ''tags'',
       r_metadata = read_metadata J json,
       r_dedup_key = GetStringOr J json ''dedup_key'' '''',
       r_pinned = GetBoolOr J json ''pinned'' False,
       r_tombstone = GetBoolOr J json ''tombstone'' False,
       r_created_at_ms = GetUint64OrSafe J json ''created_at_ms'' 0,
       r_updated_at_ms = GetUint64OrSafe J json ''updated_at_ms'' 0,
       r_version = GetUint64OrSafe J json ''version'' 0,
       r_size_bytes = GetUint64OrSafe J json ''size_bytes'' 0,
       r_last_access_ms = GetUint64OrSafe J json ''last_access_ms'' 0,
       r_hit_count = GetUint64OrSafe J json ''hit_count'' 0,
       r_importance_score = GetDoubleOr J json ''importance_score'' 1,
       r_tier = GetStringOr J json ''tier'' ''hot'',
       r_node_id = GetStringOr J json ''node_id'' '''',
       r_ttl_s = GetUint64OrSafe J json ''ttl_s'' 0,
       r_shard_id = GetStringOr J json ''shard_id'' '''',
       r_replica_role = GetStringOr J json ''replica_role'' '''',
       r_routing_epoch = GetUint64OrSafe J json ''routing_epoch'' 0,
       r_shard_hint = GetStringOr J json ''shard_hint'' '''' \<rparr>"

definition DeserializeRecord :: "'j json_api \<Rightarrow> string \<Rightarrow> string + MemoryRecord" where
  "DeserializeRecord J txt =
     (case ParseJson J txt of
        Inl parse_error \<Rightarrow> Inl parse_error
      | Inr json \<Rightarrow>
          (let record = record_of_json J json in
           Inr (if r_size_bytes record = 0
                then record\<lparr> r_size_bytes := ComputeRecordSizeBytes record \<rparr> else record)))"

section \<open>Serialization\<close>

context json_laws begin

lemma put_fields_other:
  assumes "plain_key k" "k \<notin> fst ` set fs" "list_all plain_key (map fst fs)"
  shows "j_get_string J (put_fields J fs j) k = j_get_string J j k \<and>
    j_get_bool J (put_fields J fs j) k = j_get_bool J j k \<and>
    j_get_u64 J (put_fields J fs j) k = j_get_u64 J j k \<and>
    j_get_double J (put_fields J fs j) k = j_get_double J j k \<and>
    j_get_child J (put_fields J fs j) k = j_get_child J j k"
  using assms(2,3)
proof (induction fs arbitrary: j)
  case Nil
  then show ?case by (simp add: put_fields_def)
next
  case (Cons f fs)
  obtain k' x where f: "f = (k', x)" by (cases f)
  have step: "put_fields J (f # fs) j = put_fields J fs (j_put J k' x j)"
    by (simp add: put_fields_def f)
  have IH: "j_get_string J (put_fields J fs (j_put J k' x j)) k = j_get_string J (j_put J k' x j) k \<and>
    j_get_bool J (put_fields J fs (j_put J k' x j)) k = j_get_bool J (j_put J k' x j) k \<and>
    j_get_u64 J (put_fields J fs (j_put J k' x j)) k = j_get_u64 J (j_put J k' x j) k \<and>
    j_get_double J (put_fields J fs (j_put J k' x j)) k = j_get_double J (j_put J k' x j) k \<and>
    j_get_child J (put_fields J fs (j_put J k' x j)) k = j_get_child J (j_put J k' x j) k"
    using Cons.prems by (intro Cons.IH) auto
  have "plain_key k'" "k \<noteq> k'" using Cons.prems by (auto simp: f)
  from get_put_other [OF assms(1) this, of x j] IH show ?case unfolding step by simp
qed

lemma put_fields_split:
  assumes "map_of fs k = Some x" "distinct (map fst fs)" "list_all plain_key (map fst fs)"
  obtains fs1 fs2 where "fs = fs1 @ (k, x) # fs2" "k \<notin> fst ` set fs2" "plain_key k"
    "list_all plain_key (map fst fs2)"
proof -
  from map_of_SomeD [OF assms(1)] obtain fs1 fs2 where fs: "fs = fs1 @ (k, x) # fs2"
    by (auto simp: in_set_conv_decomp)
  with assms(2,3) show ?thesis by (intro that [of fs1 fs2]) (auto simp: list_all_iff)
qed

lemma get_put_fields:
  assumes "distinct (map fst fs)" "list_all plain_key (map fst fs)"
  shows "map_of fs k = Some (JStr v) \<Longrightarrow> j_get_string J (put_fields J fs j) k = Some v"
    "map_of fs k = Some (JBool b) \<Longrightarrow> j_get_bool J (put_fields J fs j) k = Some b"
    "map_of fs k = Some (JU64 n) \<Longrightarrow> j_get_u64 J (put_fields J fs j) k = Some n"
    "map_of fs k = Some (JReal x) \<Longrightarrow> j_get_double J (put_fields J fs j) k = Some (rnd x)"
proof -
  have app: "put_fields J (fs1 @ (k, i) # fs2) j =
      put_fields J fs2 (j_put J k i (put_fields J fs1 j))" for fs1 fs2 k i j
    by (simp add: put_fields_def)
  show "map_of fs k = Some (JStr v) \<Longrightarrow> j_get_string J (put_fields J fs j) k = Some v"
    by (erule put_fields_split [OF _ assms]) (simp add: app put_fields_other get_string_put)
  show "map_of fs k = Some (JBool b) \<Longrightarrow> j_get_bool J (put_fields J fs j) k = Some b"
    by (erule put_fields_split [OF _ assms]) (simp add: app put_fields_other get_bool_put)
  show "map_of fs k = Some (JU64 n) \<Longrightarrow> j_get_u64 J (put_fields J fs j) k = Some n"
    by (erule put_fields_split [OF _ assms]) (simp add: app put_fields_other get_u64_put)
  show "map_of fs k = Some (JReal x) \<Longrightarrow> j_get_double J (put_fields J fs j) k = Some (rnd x)"
    by (erule put_fields_split [OF _ assms]) (simp add: app put_fields_other get_double_put)
qed

end

lemma record_scalars_keys:
  "distinct (map fst (record_scalars r))"
  "list_all plain_key (map fst (record_scalars r))"
  "k \<in> {''tags'', ''metadata''} \<Longrightarrow> plain_key k \<and> k \<notin> fst ` set (record_scalars r)"
  by (auto simp: record_scalars_def plain_key_def)

context json_laws begin

lemma read_metadata_eq:
  assumes "list_all plain_key (map fst md)" "omap_ok md"
    and "j_get_child J json ''metadata'' =
      Some (put_fields J (map (\<lambda>(k, v). (k, JStr v)) md) (j_empty J))"
  shows "read_metadata J json = md"
proof -
  let ?m = "put_fields J (map (\<lambda>(k, v). (k, JStr v)) md) (j_empty J)"
  have kids: "map (\<lambda>it. (fst it, j_value J (snd it))) (j_children J ?m) = md"
    using children_put_strings [OF assms(1) omap_ok_distinct [OF assms(2)], of "j_empty J"]
    by (simp add: children_empty)
  have fold_eq: "fold (\<lambda>kv. omap_put (fst kv) (j_value J (snd kv))) cs acc =
      fold (\<lambda>kv. omap_put (fst kv) (snd kv)) (map (\<lambda>it. (fst it, j_value J (snd it))) cs) acc" for cs acc
    by (induction cs arbitrary: acc) auto
  show ?thesis
    unfolding read_metadata_def assms(3) option.case fold_eq kids
    using fold_omap_put_sorted [of "[]" md] assms(2) by simp
qed

lemma record_json_children:
  "j_get_child J (record_json J r) ''tags'' = Some (MakeArray J (r_tags r))"
  "j_get_child J (record_json J r) ''metadata'' =
     Some (put_fields J (map (\<lambda>(k, v). (k, JStr v)) (r_metadata r)) (j_empty J))"
proof -
  have keys: "plain_key ''tags''" "plain_key ''metadata''" by (simp_all add: plain_key_def)
  have none: "j_get_child J (put_fields J (record_scalars r) (j_empty J)) k = None"
    if "k \<in> {''tags'', ''metadata''}" for k
    using put_fields_other [of k "record_scalars r" "j_empty J"] record_scalars_keys(2) [of r] record_scalars_keys(3) [of k r] that
    by (simp add: get_child_empty)
  show "j_get_child J (record_json J r) ''tags'' = Some (MakeArray J (r_tags r))"
    using keys none [of "''tags''"] by (simp add: record_json_def get_add_child_other get_child_add)
  show "j_get_child J (record_json J r) ''metadata'' =
     Some (put_fields J (map (\<lambda>(k, v). (k, JStr v)) (r_metadata r)) (j_empty J))"
    using keys none [of "''metadata''"]
    by (simp add: record_json_def get_add_child_other get_child_add Let_def)
qed

lemma record_json_get:
  assumes "plain_key k" "k \<noteq> ''tags''" "k \<noteq> ''metadata''"
  shows "j_get_string J (record_json J r) k = j_get_string J (put_fields J (record_scalars r) (j_empty J)) k"
    "j_get_bool J (record_json J r) k = j_get_bool J (put_fields J (record_scalars r) (j_empty J)) k"
    "j_get_u64 J (record_json J r) k = j_get_u64 J (put_fields J (record_scalars r) (j_empty J)) k"
    "j_get_double J (record_json J r) k = j_get_double J (put_fields J (record_scalars r) (j_empty J)) k"
  using assms get_add_child_other [OF assms(1), of "''tags''"] get_add_child_other [OF assms(1), of "''metadata''"]
  by (simp_all add: record_json_def Let_def plain_key_def)

lemma record_get_string:
  assumes "map_of (record_scalars r) k = Some (JStr v)" "plain_key k" "k \<noteq> ''tags''" "k \<noteq> ''metadata''"
  shows "GetStringOr J (record_json J r) k d = v"
  using get_put_fields(1) [OF record_scalars_keys(1,2) assms(1)] assms(2-)
  by (simp add: GetStringOr_def record_json_get)

lemma record_get_bool:
  assumes "map_of (record_scalars r) k = Some (JBool v)" "plain_key k" "k \<noteq> ''tags''" "k \<noteq> ''metadata''"
  shows "GetBoolOr J (record_json J r) k d = v"
  using get_put_fields(2) [OF record_scalars_keys(1,2) assms(1)] assms(2-)
  by (simp add: GetBoolOr_def record_json_get)

lemma record_get_u64:
  assumes "map_of (record_scalars r) k = Some (JU64 v)" "plain_key k" "k \<noteq> ''tags''" "k \<noteq> ''metadata''"
  shows "GetUint64OrSafe J (record_json J r) k d = v"
  using get_put_fields(3) [OF record_scalars_keys(1,2) assms(1)] assms(2-)
  by (simp add: GetUint64OrSafe_def record_json_get)

lemma record_get_double:
  assumes "map_of (record_scalars r) k = Some (JReal v)" "plain_key k" "k \<noteq> ''tags''" "k \<noteq> ''metadata''"
  shows "GetDoubleOr J (record_json J r) k d = rnd v"
  using get_put_fields(4) [OF record_scalars_keys(1,2) assms(1)] assms(2-)
  by (simp add: GetDoubleOr_def record_json_get)

lemma record_of_record_json:
  assumes "list_all plain_key (map fst (r_metadata r))" "omap_ok (r_metadata r)"
  shows "record_of_json J (record_json J r) =
    r\<lparr> r_importance_score := rnd (r_importance_score r) \<rparr>"
proof -
  note scalar = record_scalars_def plain_key_def
  note meta = read_metadata_eq [OF assms record_json_children(2)]
  have "ReadStringArray J (record_json J r) ''tags'' = r_tags r"
    by (simp add: ReadStringArray_def record_json_children(1) read_MakeArray)
  then show ?thesis
    unfolding record_of_json_def meta
    by (simp add: record_get_string record_get_bool record_get_u64 record_get_double scalar)
qed

lemma read_back_record:
  assumes "list_all plain_key (map fst (r_metadata r))" "omap_ok (r_metadata r)"
    and "readable (record_json J r)" "r_size_bytes r \<noteq> 0"
  shows "DeserializeRecord J (SerializeRecord J r) =
    Inr (r\<lparr> r_importance_score := rnd (r_importance_score r) \<rparr>)"
  using record_of_record_json [OF assms(1,2)] read_write [OF assms(3)] assms(4)
  by (simp add: DeserializeRecord_def SerializeRecord_def ToJsonString_def ParseJson_def)

end

section \<open>Keys\<close>

lemma length_ZeroPad [simp]: "length (ZeroPadUint64 v) = 20"
proof -
  have "unat v < 2 ^ 64" using unsigned_less [of v] by simp
  also have "\<dots> < 10 ^ 20" by simp
  finally have "length (dec_string (unat v)) \<le> 20" by (intro length_dec_string) auto
  then show ?thesis by (simp add: ZeroPadUint64_def length_zero_pad)
qed

lemma digits_ZeroPad: "list_all is_digit (ZeroPadUint64 v)"
  by (simp add: ZeroPadUint64_def digits_zero_pad digits_dec_string)

lemma dec_val_ZeroPad [simp]: "dec_val (ZeroPadUint64 v) = unat v"
  by (simp add: ZeroPadUint64_def)

lemma ZeroPad_less: "ZeroPadUint64 a < ZeroPadUint64 b \<longleftrightarrow> a < b"
  by (simp add: digits_less_iff digits_ZeroPad word_less_nat_alt)

lemma ZeroPad_eq: "ZeroPadUint64 a = ZeroPadUint64 b \<longleftrightarrow> a = b"
  by (simp add: digits_eq_iff digits_ZeroPad word_unat_eq_iff)

lemma append_less_same: "(p :: string) @ a < p @ b \<longleftrightarrow> a < b"
  by (induction p) auto

lemma append_less_length:
  "length a = length b \<Longrightarrow> (a :: string) @ x < b @ y \<longleftrightarrow> a < b \<or> a = b \<and> x < y"
  by (induction a b rule: list_induct2) auto

lemma RecordMapKey_iff:
  assumes "CHR '':'' \<notin> set ws" "CHR '':'' \<notin> set ws'"
  shows "RecordMapKey ws i = RecordMapKey ws' i' \<longleftrightarrow> ws = ws' \<and> i = i'"
  using assms
proof (induction ws arbitrary: ws')
  case Nil
  then show ?case by (cases ws') (auto simp: RecordMapKey_def)
next
  case (Cons c ws)
  then show ?case by (cases ws') (auto simp: RecordMapKey_def)
qed

lemma RecordMapKey_same [simp]: "RecordMapKey ws i = RecordMapKey ws i' \<longleftrightarrow> i = i'"
  by (simp add: RecordMapKey_def)

lemma BuildDocKey_iff:
  assumes "CHR ''/'' \<notin> set ws" "CHR ''/'' \<notin> set ws'"
  shows "BuildDocKey ws i = BuildDocKey ws' i' \<longleftrightarrow> ws = ws' \<and> i = i'"
proof -
  have "ws @ ''/doc/'' @ i = ws' @ ''/doc/'' @ i' \<longleftrightarrow> ws = ws' \<and> i = i'"
    using assms
  proof (induction ws arbitrary: ws')
    case Nil
    then show ?case by (cases ws') auto
  next
    case (Cons c ws)
    then show ?case by (cases ws') auto
  qed
  then show ?thesis by (simp add: BuildDocKey_def)
qed

lemma BuildDocKey_same [simp]: "BuildDocKey ws i = BuildDocKey ws i' \<longleftrightarrow> i = i'"
  by (simp add: BuildDocKey_def)

text \<open>
  Looking for the marker: the slash of the leading \<open>ws/\<close> starts it only when the workspace
  is called \<open>doc\<close>.
\<close>

lemma find_doc_marker:
  assumes "CHR ''/'' \<notin> set ws" "ws \<noteq> ''doc''"
  shows "str_find (''ws/'' @ ws @ ''/doc/'' @ i) ''/doc/'' = Some (3 + length ws)"
proof -
  have *: "\<not> prefix ''/doc/'' (''/'' @ ws @ ''/doc/'' @ i)"
  proof
    assume "prefix ''/doc/'' (''/'' @ ws @ ''/doc/'' @ i)"
    then obtain t where t: "ws @ ''/doc/'' @ i = ''doc/'' @ t" by (auto simp: prefix_def)
    have "ws = ''doc''"
    proof -
      have "takeWhile (\<lambda>c. c \<noteq> CHR ''/'') (ws @ ''/doc/'' @ i) = ws"
        using assms(1) by (subst takeWhile_append2) auto
      with t show ?thesis by simp
    qed
    with assms(2) show False ..
  qed
  have "str_find (ws @ CHR ''/'' # ''doc/'' @ i) (CHR ''/'' # ''doc/'') = Some (length ws)"
    by (rule str_find_marker [OF assms(1)])
  with * show ?thesis by simp
qed

section \<open>Properties\<close>

text \<open>
  C34. A record survives the store: reading back the JSON text that the engine writes for a
  record yields the record itself (the importance score up to its printed precision), for
  metadata keys without dots, whatever the strings in its fields.
\<close>

theorem Deserialize_Serialize:
  assumes "json_laws J rnd readable" and "readable (record_json J r)"
    and "list_all plain_key (map fst (r_metadata r))" and "omap_ok (r_metadata r)"
    and "r_size_bytes r \<noteq> 0"
  shows "DeserializeRecord J (SerializeRecord J r) =
    Inr (r\<lparr> r_importance_score := rnd (r_importance_score r) \<rparr>)"
  by (rule json_laws.read_back_record [OF assms(1,3,4,2,5)])

theorem Deserialize_Serialize_witness:
  "let r = default_MemoryRecord\<lparr> r_id := ''m-1'', r_content := ''a: {b}'', r_tags := [''t'', ''''],
             r_metadata := [(''k'', ''v''), (''k2'', '''')], r_size_bytes := 400 \<rparr>
   in DeserializeRecord pt_api (SerializeRecord pt_api r) = Inr r"
  using Deserialize_Serialize [OF pt.json_laws_axioms, of "default_MemoryRecord\<lparr> r_id := ''m-1'',
      r_content := ''a: {b}'', r_tags := [''t'', ''''],
      r_metadata := [(''k'', ''v''), (''k2'', '''')], r_size_bytes := 400 \<rparr>"]
  by (simp add: default_MemoryRecord_def plain_key_def)

text \<open>
  The keys of the event log of a workspace sort, as strings, by timestamp and then by
  sequence number, so a key scan replays events in the order they were appended and the
  comparison with a checkpoint key is a comparison of (time, sequence).
\<close>

lemma BuildEventKey_order:
  "BuildEventKey ws ts sq < BuildEventKey ws ts' sq' \<longleftrightarrow> ts < ts' \<or> ts = ts' \<and> sq < sq'"
  by (simp add: BuildEventKey_def append_less_same append_less_length ZeroPad_less ZeroPad_eq)

text \<open>
  The in-memory key of a record identifies its workspace and id as long as workspace
  names hold no colon; with a colon, records of two workspaces share one key.
\<close>

lemma RecordMapKey_identity:
  "(CHR '':'' \<notin> set ws \<and> CHR '':'' \<notin> set ws' \<longrightarrow>
     (RecordMapKey ws i = RecordMapKey ws' i' \<longleftrightarrow> ws = ws' \<and> i = i')) \<and>
   RecordMapKey ''team:a'' ''x'' = RecordMapKey ''team'' ''a:x''"
  by (auto simp: RecordMapKey_iff) (simp add: RecordMapKey_def)

theorem RecordMapKey_identity_witness:
  "RecordMapKey ''w1'' ''a:x'' \<noteq> RecordMapKey ''w2'' ''a:x'' \<and>
   RecordMapKey ''team:a'' ''x'' = RecordMapKey ''team'' ''a:x''"
  using RecordMapKey_identity [of "''w1''" "''w2''" "''a:x''" "''a:x''"] by simp

text \<open>
  The workspace of a stored document can be read off its key for every non-empty
  workspace name without a slash, except the name \<open>doc\<close>, for which the fallback yields the
  empty string.
\<close>

lemma WorkspaceFromDocKey_recovers:
  assumes "ws \<noteq> ''''" and "CHR ''/'' \<notin> set ws"
  shows "WorkspaceFromDocKey (BuildDocKey ws i) = (if ws = ''doc'' then '''' else ws)"
proof (cases "ws = ''doc''")
  case True
  then show ?thesis
    by (simp add: WorkspaceFromDocKey_def workspace_before_def BuildDocKey_def)
next
  case False
  have "drop 3 (''ws/'' @ ws @ ''/doc/'' @ i) = ws @ ''/doc/'' @ i" by simp
  then show ?thesis
    using find_doc_marker [OF assms(2) False, of i] False assms(1)
    by (simp add: WorkspaceFromDocKey_def workspace_before_def BuildDocKey_def substr_def)
qed

theorem WorkspaceFromDocKey_recovers_witness:
  "WorkspaceFromDocKey (BuildDocKey ''proj'' ''m-1'') = ''proj'' \<and>
   WorkspaceFromDocKey (BuildDocKey ''doc'' ''m-1'') = ''''"
  using WorkspaceFromDocKey_recovers [of "''proj''" "''m-1''"]
    WorkspaceFromDocKey_recovers [of "''doc''" "''m-1''"] by simp

text \<open>
  The test that decides whether an incoming copy replaces the current one is the strict
  linear order on stamps (update time, version, node id): of two different stamps exactly
  one is newer, so replicas that apply the same copies agree.
\<close>

lemma IsIncomingNewer_stamp:
  "(IsIncomingNewer current incoming \<longleftrightarrow> stamp_of current < stamp_of incoming) \<and>
   (stamp_of current \<noteq> stamp_of incoming \<longrightarrow>
      IsIncomingNewer current incoming \<noteq> IsIncomingNewer incoming current)"
proof -
  have "IsIncomingNewer a b \<longleftrightarrow> stamp_of a < stamp_of b" for a b
    by (auto simp: IsIncomingNewer_def stamp_of_def less_stamp_def)
  then show ?thesis by (auto simp: not_less_iff_gr_or_eq)
qed

theorem IsIncomingNewer_stamp_witness:
  "IsIncomingNewer (default_MemoryRecord\<lparr> r_version := 1 \<rparr>) (default_MemoryRecord\<lparr> r_version := 2 \<rparr>) \<noteq>
   IsIncomingNewer (default_MemoryRecord\<lparr> r_version := 2 \<rparr>) (default_MemoryRecord\<lparr> r_version := 1 \<rparr>)"
proof -
  have "stamp_of (default_MemoryRecord\<lparr> r_version := 1 \<rparr>) \<noteq>
      stamp_of (default_MemoryRecord\<lparr> r_version := 2 \<rparr>)"
    by (simp add: stamp_of_def)
  with IsIncomingNewer_stamp show ?thesis by blast
qed

text \<open>
  A record expires when, and only when, it has a time to live and an update time and that
  many seconds have passed since its update, provided the time to live in milliseconds
  fits in 64 bits.
\<close>

lemma IsExpired_iff:
  assumes "unat (r_ttl_s record) * 1000 < 2 ^ 64"
  shows "IsExpired record now \<longleftrightarrow> r_ttl_s record \<noteq> 0 \<and> r_updated_at_ms record \<noteq> 0 \<and>
    unat (r_updated_at_ms record) + 1000 * unat (r_ttl_s record) \<le> unat now"
proof (cases "r_ttl_s record = 0 \<or> r_updated_at_ms record = 0")
  case True
  then show ?thesis by (auto simp: IsExpired_def)
next
  case False
  have "unat (r_ttl_s record * 1000) = unat (r_ttl_s record) * unat (1000 :: u64)"
    using assms by (intro unat_mult_lem [THEN iffD1]) simp
  then have ttl: "unat (r_ttl_s record * 1000) = unat (r_ttl_s record) * 1000" by simp
  have "0 < unat (r_ttl_s record)" using False by (simp add: unat_gt_0)
  then show ?thesis
    using False ttl unat_sub [of "r_updated_at_ms record" now]
    by (auto simp: IsExpired_def Let_def word_less_nat_alt word_le_nat_alt)
qed

theorem IsExpired_iff_witness:
  "IsExpired (default_MemoryRecord\<lparr> r_ttl_s := 2, r_updated_at_ms := 1000 \<rparr>) 3000 \<and>
   \<not> IsExpired (default_MemoryRecord\<lparr> r_ttl_s := 2, r_updated_at_ms := 1000 \<rparr>) 2999"
  using IsExpired_iff [of "default_MemoryRecord\<lparr> r_ttl_s := 2, r_updated_at_ms := 1000 \<rparr>" 3000]
    IsExpired_iff [of "default_MemoryRecord\<lparr> r_ttl_s := 2, r_updated_at_ms := 1000 \<rparr>" 2999]
  by (simp add: default_MemoryRecord_def)

text \<open>
  Beyond that bound the multiplication wraps: a record written with a time to live of more
  than 500 million years is expired after half a second.
\<close>

lemma IsExpired_wraps:
  "IsExpired (default_MemoryRecord\<lparr> r_ttl_s := 18446744073709552, r_updated_at_ms := 1000 \<rparr>) 1500"
  by (simp add: IsExpired_def default_MemoryRecord_def Let_def)

end
