(* ===== verification/Retriever.thy ===== *)
theory Retriever
  imports Vector_Index
begin

text \<open>
  \<open>include/pgmem/core/retriever.h\<close> and \<open>src/core/retriever.cpp\<close>: the hybrid retriever,
  which keeps one snapshot per workspace (documents, document frequencies, total length)
  beside a vector index, and answers a query by recalling sparse (BM25) and dense
  candidates, merging and re-ranking them.

  \<open>retriever_ops\<close> is the virtual interface \<open>IRetriever\<close>; the locale \<open>retriever\<close> is its
  contract and is interpreted on \<open>HybridRetriever\<close> over the LSH index.  The retriever is
  itself a client of \<open>vec_index\<close>: what it needs of its vector index is proved once in that
  locale.  The clock and the stage timings of a query are arguments.
\<close>

section \<open>The interface\<close>

record StageTimes =
  st_sparse_ms :: real
  st_dense_ms :: real
  st_rerank_ms :: real
  st_total_ms :: real

record 'r retriever_ops =
  rt_Index :: "MemoryRecord \<Rightarrow> 'r \<Rightarrow> 'r"
  rt_Remove :: "string \<Rightarrow> string \<Rightarrow> 'r \<Rightarrow> 'r"
  rt_Query :: "'r \<Rightarrow> QueryInput \<Rightarrow> u64 \<Rightarrow> StageTimes \<Rightarrow> QueryOutput"
  rt_EstimatedBytes :: "'r \<Rightarrow> string \<Rightarrow> u64"
  rt_EstimateDocBytes :: "'r \<Rightarrow> MemoryRecord \<Rightarrow> u64"

section \<open>Filters\<close>

definition ContainsAnyTag :: "string list \<Rightarrow> string list \<Rightarrow> bool" where
  "ContainsAnyTag haystack needle \<longleftrightarrow> list_ex (\<lambda>want. want \<in> set haystack) needle"

definition ContainsAnySource :: "string \<Rightarrow> string list \<Rightarrow> bool" where
  "ContainsAnySource source allow \<longleftrightarrow> source \<in> set allow"

definition PassesFilter :: "MemoryRecord \<Rightarrow> QueryFilter \<Rightarrow> bool" where
  "PassesFilter record filters \<longleftrightarrow>
     (if f_session_id filters \<noteq> [] \<and> r_session_id record \<noteq> f_session_id filters then False
      else if f_sources filters \<noteq> [] \<and> \<not> ContainsAnySource (r_source record) (f_sources filters)
      then False
      else if f_tags_any filters \<noteq> [] \<and> \<not> ContainsAnyTag (r_tags record) (f_tags_any filters)
      then False
      else if 0 < f_updated_after_ms filters \<and> r_updated_at_ms record < f_updated_after_ms filters
      then False
      else if 0 < f_updated_before_ms filters \<and> r_updated_at_ms record > f_updated_before_ms filters
      then False
      else if f_pinned_only filters \<and> \<not> r_pinned record then False
      else \<not> r_tombstone record)"

text \<open>The contract of a retriever, over the records it holds per workspace.\<close>

definition effective_top_k :: "QueryInput \<Rightarrow> u64" where
  "effective_top_k input = (if q_top_k input = 0 then 8 else q_top_k input)"

definition hit_of_record :: "MemoryRecord \<Rightarrow> QueryHit \<Rightarrow> bool" where
  "hit_of_record record hit \<longleftrightarrow>
     h_memory_id hit = r_id record \<and> h_source hit = r_source record \<and>
     h_content hit = r_content record \<and> h_tags hit = r_tags record \<and>
     h_metadata hit = r_metadata record \<and> h_updated_at_ms hit = r_updated_at_ms record \<and>
     h_pinned hit = r_pinned record"

definition spec_Index :: "MemoryRecord \<Rightarrow> (string \<Rightarrow> string \<Rightarrow> MemoryRecord option) \<Rightarrow>
    string \<Rightarrow> string \<Rightarrow> MemoryRecord option" where
  "spec_Index record docs =
     docs(r_workspace_id record := (docs (r_workspace_id record))
       (r_id record := if r_tombstone record then None else Some record))"

definition spec_Remove :: "string \<Rightarrow> string \<Rightarrow> (string \<Rightarrow> string \<Rightarrow> MemoryRecord option) \<Rightarrow>
    string \<Rightarrow> string \<Rightarrow> MemoryRecord option" where
  "spec_Remove ws i docs = docs(ws := (docs ws)(i := None))"

datatype retriever_cmd = CmdIndex MemoryRecord | CmdRemove string string

fun run_cmd :: "'r retriever_ops \<Rightarrow> retriever_cmd \<Rightarrow> 'r \<Rightarrow> 'r" where
  "run_cmd ops (CmdIndex record) s = rt_Index ops record s"
| "run_cmd ops (CmdRemove ws i) s = rt_Remove ops ws i s"

fun spec_cmd :: "retriever_cmd \<Rightarrow> (string \<Rightarrow> string \<Rightarrow> MemoryRecord option) \<Rightarrow>
    string \<Rightarrow> string \<Rightarrow> MemoryRecord option" where
  "spec_cmd (CmdIndex record) docs = spec_Index record docs"
| "spec_cmd (CmdRemove ws i) docs = spec_Remove ws i docs"

locale retriever =
  fixes ops :: "'r retriever_ops"
    and inv :: "'r \<Rightarrow> bool"
    and docs :: "'r \<Rightarrow> string \<Rightarrow> string \<Rightarrow> MemoryRecord option"
  assumes inv_Index: "inv s \<Longrightarrow> inv (rt_Index ops record s)"
    and inv_Remove: "inv s \<Longrightarrow> inv (rt_Remove ops ws i s)"
    and docs_Index: "inv s \<Longrightarrow> docs (rt_Index ops record s) = spec_Index record (docs s)"
    and docs_Remove: "inv s \<Longrightarrow> docs (rt_Remove ops ws i s) = spec_Remove ws i (docs s)"
    and docs_live: "inv s \<Longrightarrow> docs s ws i = Some record \<Longrightarrow>
      r_id record = i \<and> r_workspace_id record = ws \<and> \<not> r_tombstone record"
    and Query_sound: "inv s \<Longrightarrow> hit \<in> set (qo_hits (rt_Query ops s input now ts)) \<Longrightarrow>
      \<exists>record. docs s (q_workspace_id input) (h_memory_id hit) = Some record \<and>
        hit_of_record record hit \<and> PassesFilter record (q_filters input)"
    and Query_distinct: "inv s \<Longrightarrow>
      distinct (map h_memory_id (qo_hits (rt_Query ops s input now ts)))"
    and Query_bound: "inv s \<Longrightarrow>
      length (qo_hits (rt_Query ops s input now ts)) \<le> unat (effective_top_k input)"
    and DocBytes_Index: "rt_EstimateDocBytes ops (rt_Index ops record s) = rt_EstimateDocBytes ops s"
    and DocBytes_Remove: "rt_EstimateDocBytes ops (rt_Remove ops ws i s) = rt_EstimateDocBytes ops s"
    and DocBytes_access: "rt_EstimateDocBytes ops s (record\<lparr> r_last_access_ms := a, r_hit_count := h \<rparr>) =
      rt_EstimateDocBytes ops s record"
begin

text \<open>A sequence of writes and removals leaves what the abstract map of records holds.\<close>

lemma run_refines:
  "inv s \<Longrightarrow> inv (fold (run_cmd ops) cmds s) \<and>
     docs (fold (run_cmd ops) cmds s) = fold spec_cmd cmds (docs s)"
proof (induction cmds arbitrary: s)
  case (Cons cmd cmds)
  then show ?case
    by (cases cmd) (simp_all add: inv_Index inv_Remove docs_Index docs_Remove)
qed simp

end

section \<open>The hybrid retriever\<close>

record IndexedDoc =
  d_record :: MemoryRecord
  d_tf :: "(string, int) umap"
  d_doc_len :: nat
  d_embedding :: "real list"

record WorkspaceSnapshot =
  s_docs :: "(string, IndexedDoc) umap"
  s_df :: "(string, nat) umap"
  s_total_doc_len :: nat

record 'v HybridRetriever =
  embedding_dim :: u64
  analyzer_Tokenize :: "string \<Rightarrow> string list"
  embedding_Embed :: "string \<Rightarrow> nat \<Rightarrow> real list"
  vindex_vtable :: "'v vindex_ops"
  vector_index :: 'v
  snapshots :: "(string, WorkspaceSnapshot) umap"

text \<open>\<open>++m[k]\<close> on a map that creates a zero for a missing key.\<close>

definition count_up :: "string \<Rightarrow> (string, 'n::{zero,one,plus}) umap \<Rightarrow> (string, 'n) umap" where
  "count_up k m = umap_put k ((case map_of m k of None \<Rightarrow> 0 | Some n \<Rightarrow> n) + 1) m"

definition token_counts :: "string list \<Rightarrow> (string, int) umap" where
  "token_counts tokens = fold count_up tokens []"

definition BuildDocumentFrequency :: "(string, IndexedDoc) umap \<Rightarrow> (string, nat) umap" where
  "BuildDocumentFrequency docs =
     fold (\<lambda>kv df. fold (\<lambda>tf_entry df. if 0 < snd tf_entry then count_up (fst tf_entry) df else df)
                     (d_tf (snd kv)) df) docs []"

definition EstimateRecordBytes :: "MemoryRecord \<Rightarrow> u64" where
  "EstimateRecordBytes record =
     of_nat (length (r_id record)) + of_nat (length (r_workspace_id record))
     + of_nat (length (r_session_id record)) + of_nat (length (r_source record))
     + of_nat (length (r_content record)) + of_nat (length (r_node_id record))
     + of_nat (length (r_tier record)) + of_nat (length (r_dedup_key record))
     + of_nat (length (r_shard_id record)) + of_nat (length (r_replica_role record))
     + of_nat (length (r_shard_hint record))
     + sum_list (map (\<lambda>tag. of_nat (length tag)) (r_tags record))
     + sum_list (map (\<lambda>kv. of_nat (length (fst kv) + length (snd kv))) (r_metadata record))
     + 320"

definition Normalize :: "real \<Rightarrow> real \<Rightarrow> real" where
  "Normalize v max_value = (if v \<le> 0 \<or> max_value \<le> 0 then 0 else v / max_value)"

definition FreshnessScore :: "u64 \<Rightarrow> u64 \<Rightarrow> real" where
  "FreshnessScore updated_at_ms now_ms =
     (let age_hours = real (unat (if updated_at_ms < now_ms then now_ms - updated_at_ms else 0))
                        / 3600000
      in 1 / (1 + age_hours))"

definition bm25_term :: "IndexedDoc \<Rightarrow> nat \<Rightarrow> real \<Rightarrow> (string, nat) umap \<Rightarrow> string \<Rightarrow> real" where
  "bm25_term doc total_docs avgdl df q =
     (case map_of (d_tf doc) q of
        None \<Rightarrow> 0
      | Some n \<Rightarrow>
          (let tf = real_of_int n;
               doc_freq = (case map_of df q of None \<Rightarrow> 0 | Some d \<Rightarrow> real d);
               idf = ln ((real total_docs - doc_freq + 0.5) / (doc_freq + 0.5) + 1);
               denom = tf + 1.5 * (1 - 0.75 + 0.75 * (real (d_doc_len doc) / avgdl))
           in idf * (tf * (1.5 + 1) / denom)))"

definition LexicalScore :: "IndexedDoc \<Rightarrow> (string, int) umap \<Rightarrow> nat \<Rightarrow> real \<Rightarrow> (string, nat) umap \<Rightarrow> real" where
  "LexicalScore doc query_tf total_docs avg_doc_len df =
     (if d_doc_len doc = 0 \<or> query_tf = [] \<or> total_docs = 0 then 0
      else
        (let avgdl = (if 0 < avg_doc_len then avg_doc_len else 1) in
         fold (\<lambda>q score. score + bm25_term doc total_docs avgdl df (fst q)) query_tf 0))"

subsection \<open>Indexing\<close>

definition make_doc :: "'v HybridRetriever \<Rightarrow> MemoryRecord \<Rightarrow> IndexedDoc" where
  "make_doc r record =
     (let tokens = analyzer_Tokenize r (r_content record) in
      \<lparr> d_record = record, d_tf = token_counts tokens, d_doc_len = length tokens,
        d_embedding = embedding_Embed r (r_content record) (unat (embedding_dim r)) \<rparr>)"

definition minus_guarded :: "nat \<Rightarrow> nat \<Rightarrow> nat" where
  "minus_guarded tot len = (if len \<le> tot then tot - len else tot)"

definition ret_Remove :: "string \<Rightarrow> string \<Rightarrow> 'v HybridRetriever \<Rightarrow> 'v HybridRetriever" where
  "ret_Remove workspace_id memory_id r =
     (let r' = r\<lparr> vector_index :=
                    vx_Remove (vindex_vtable r) workspace_id memory_id (vector_index r) \<rparr> in
      case map_of (snapshots r) workspace_id of
        None \<Rightarrow> r'
      | Some old \<Rightarrow>
          (case map_of (s_docs old) memory_id of
             None \<Rightarrow> r'
           | Some doc \<Rightarrow>
               (let tot = minus_guarded (s_total_doc_len old) (d_doc_len doc);
                    docs = umap_erase memory_id (s_docs old) in
                if docs = [] then r'\<lparr> snapshots := umap_erase workspace_id (snapshots r) \<rparr>
                else r'\<lparr> snapshots := umap_put workspace_id
                          \<lparr> s_docs = docs, s_df = BuildDocumentFrequency docs,
                            s_total_doc_len = tot \<rparr> (snapshots r) \<rparr>)))"

definition ret_Index :: "MemoryRecord \<Rightarrow> 'v HybridRetriever \<Rightarrow> 'v HybridRetriever" where
  "ret_Index record r =
     (if r_tombstone record then ret_Remove (r_workspace_id record) (r_id record) r
      else
        (let doc = make_doc r record;
             (docs, tot) =
               (case map_of (snapshots r) (r_workspace_id record) of
                  None \<Rightarrow> ([], 0)
                | Some old \<Rightarrow> (s_docs old, s_total_doc_len old));
             tot = (case map_of docs (r_id record) of
                        None \<Rightarrow> tot
                      | Some prev \<Rightarrow> minus_guarded tot (d_doc_len prev));
             docs = umap_put (r_id record) doc docs;
             tot = tot + d_doc_len doc
         in r\<lparr> snapshots := umap_put (r_workspace_id record)
                  \<lparr> s_docs = docs, s_df = BuildDocumentFrequency docs, s_total_doc_len = tot \<rparr>
                  (snapshots r),
               vector_index := vx_Upsert (vindex_vtable r) (r_workspace_id record) (r_id record)
                  (d_embedding doc) (vector_index r) \<rparr>))"

subsection \<open>Querying\<close>

definition candidate_less :: "string \<times> real \<Rightarrow> string \<times> real \<Rightarrow> bool" where
  "candidate_less lhs rhs \<longleftrightarrow>
     (if snd lhs = snd rhs then fst lhs < fst rhs else snd lhs > snd rhs)"

definition hit_less :: "QueryHit \<Rightarrow> QueryHit \<Rightarrow> bool" where
  "hit_less lhs rhs \<longleftrightarrow>
     (if sc_final (h_scores lhs) = sc_final (h_scores rhs)
      then h_updated_at_ms lhs > h_updated_at_ms rhs
      else sc_final (h_scores lhs) > sc_final (h_scores rhs))"

definition recall_limit :: "u64 \<Rightarrow> QueryInput \<Rightarrow> u64" where
  "recall_limit k input = max k (effective_top_k input * max 1 (ro_oversample (q_recall input)))"

definition avg_doc_len :: "WorkspaceSnapshot \<Rightarrow> real" where
  "avg_doc_len snapshot =
     (let total_docs = length (s_docs snapshot) in
      if 0 < total_docs then real (s_total_doc_len snapshot) / real total_docs else 1)"

definition sparse_recall :: "'v HybridRetriever \<Rightarrow> WorkspaceSnapshot \<Rightarrow> QueryInput \<Rightarrow> (string \<times> real) list" where
  "sparse_recall r snapshot input =
     (let query_tf = token_counts (analyzer_Tokenize r (q_query input));
          total_docs = length (s_docs snapshot);
          score = (\<lambda>doc. LexicalScore doc query_tf total_docs (avg_doc_len snapshot) (s_df snapshot));
          candidates = map (\<lambda>kv. (fst kv, score (snd kv)))
            (filter (\<lambda>kv. PassesFilter (d_record (snd kv)) (q_filters input) \<and> \<not> score (snd kv) \<le> 0)
              (s_docs snapshot))
      in truncate_to (recall_limit (ro_sparse_k (q_recall input)) input)
           (sort_by candidate_less candidates))"

definition dense_recall :: "'v HybridRetriever \<Rightarrow> WorkspaceSnapshot \<Rightarrow> QueryInput \<Rightarrow> VectorSearchResult list" where
  "dense_recall r snapshot input =
     filter (\<lambda>item. case map_of (s_docs snapshot) (vr_memory_id item) of
               None \<Rightarrow> False
             | Some doc \<Rightarrow> PassesFilter (d_record doc) (q_filters input))
       (vx_Search (vindex_vtable r) (vector_index r)
          \<lparr> vq_workspace_id = q_workspace_id input,
            vq_query = embedding_Embed r (q_query input) (unat (embedding_dim r)),
            vq_top_k = recall_limit (ro_dense_k (q_recall input)) input \<rparr>)"

text \<open>\<open>merged[id].sparse = x\<close> on a map that creates a zero breakdown for a missing id.\<close>

definition set_sparse :: "string \<times> real \<Rightarrow> (string, ScoreBreakdown) umap \<Rightarrow> (string, ScoreBreakdown) umap" where
  "set_sparse item m =
     umap_put (fst item)
       ((case map_of m (fst item) of None \<Rightarrow> zero_ScoreBreakdown | Some sc \<Rightarrow> sc)
          \<lparr> sc_sparse := snd item \<rparr>) m"

definition set_dense :: "VectorSearchResult \<Rightarrow> (string, ScoreBreakdown) umap \<Rightarrow> (string, ScoreBreakdown) umap" where
  "set_dense item m =
     umap_put (vr_memory_id item)
       ((case map_of m (vr_memory_id item) of None \<Rightarrow> zero_ScoreBreakdown | Some sc \<Rightarrow> sc)
          \<lparr> sc_dense := vr_score item \<rparr>) m"

definition merge_candidates :: "(string \<times> real) list \<Rightarrow> VectorSearchResult list \<Rightarrow>
    (string, ScoreBreakdown) umap" where
  "merge_candidates sparse dense = fold set_dense dense (fold set_sparse sparse [])"

definition rerank_scores :: "RerankWeights \<Rightarrow> MemoryRecord \<Rightarrow> ScoreBreakdown \<Rightarrow> real \<Rightarrow> real \<Rightarrow> u64 \<Rightarrow>
    ScoreBreakdown" where
  "rerank_scores w record raw sparse_max dense_max now_ms =
     (let sparse = Normalize (sc_sparse raw) sparse_max;
          dense = Normalize (sc_dense raw) dense_max;
          freshness = FreshnessScore (r_updated_at_ms record) now_ms;
          pin = (if r_pinned record then 1 else 0)
      in \<lparr> sc_sparse = sparse, sc_dense = dense, sc_freshness = freshness, sc_pin = pin,
           sc_final = w_sparse w * sparse + w_dense w * dense + w_freshness w * freshness
             + w_pin w * pin \<rparr>)"

definition make_hit :: "MemoryRecord \<Rightarrow> ScoreBreakdown \<Rightarrow> QueryHit" where
  "make_hit record scores =
     \<lparr> h_memory_id = r_id record, h_source = r_source record, h_content = r_content record,
       h_tags = r_tags record, h_metadata = r_metadata record, h_scores = scores,
       h_updated_at_ms = r_updated_at_ms record, h_pinned = r_pinned record \<rparr>"

definition rerank_hits :: "WorkspaceSnapshot \<Rightarrow> QueryInput \<Rightarrow> (string, ScoreBreakdown) umap \<Rightarrow> u64 \<Rightarrow>
    QueryHit list" where
  "rerank_hits snapshot input merged now_ms =
     (let sparse_max = fold (\<lambda>kv m. max m (sc_sparse (snd kv))) merged 0;
          dense_max = fold (\<lambda>kv m. max m (sc_dense (snd kv))) merged 0
      in List.map_filter (\<lambda>kv.
           case map_of (s_docs snapshot) (fst kv) of
             None \<Rightarrow> None
           | Some doc \<Rightarrow>
               Some (make_hit (d_record doc)
                 (rerank_scores (q_rerank input) (d_record doc) (snd kv) sparse_max dense_max now_ms)))
           merged)"

definition ret_Query :: "'v HybridRetriever \<Rightarrow> QueryInput \<Rightarrow> u64 \<Rightarrow> StageTimes \<Rightarrow> QueryOutput" where
  "ret_Query r input now_ms st =
     (case map_of (snapshots r) (q_workspace_id input) of
        None \<Rightarrow> empty_QueryOutput
      | Some snapshot \<Rightarrow>
          if s_docs snapshot = [] then empty_QueryOutput
          else
            (let sparse_candidates = sparse_recall r snapshot input;
                 dense_candidates = dense_recall r snapshot input;
                 merged = merge_candidates sparse_candidates dense_candidates;
                 hits = sort_by hit_less (rerank_hits snapshot input merged now_ms)
             in \<lparr> qo_hits = truncate_to (effective_top_k input) hits,
                  qo_debug_stats =
                    \<lparr> qd_sparse_candidates = length sparse_candidates,
                      qd_dense_candidates = length dense_candidates,
                      qd_merged_candidates = length merged,
                      qd_sparse_ms = st_sparse_ms st, qd_dense_ms = st_dense_ms st,
                      qd_rerank_ms = st_rerank_ms st, qd_total_ms = st_total_ms st \<rparr> \<rparr>))"

subsection \<open>Footprint\<close>

definition ret_EstimateDocBytes :: "'v HybridRetriever \<Rightarrow> MemoryRecord \<Rightarrow> u64" where
  "ret_EstimateDocBytes r record =
     (if r_tombstone record then 0
      else
        (let tokens = analyzer_Tokenize r (r_content record);
             unique_terms = remdups tokens
         in EstimateRecordBytes record + of_nat (length tokens) * 8
            + of_nat (length unique_terms) * 48
            + sum_list (map (\<lambda>term. of_nat (length term)) unique_terms)
            + embedding_dim r * 4 + 128))"

definition ret_EstimatedBytes :: "'v HybridRetriever \<Rightarrow> string \<Rightarrow> u64" where
  "ret_EstimatedBytes r workspace_id =
     vx_EstimatedBytes (vindex_vtable r) (vector_index r) workspace_id +
     umap_sum (\<lambda>(ws, snapshot). if workspace_id \<noteq> [] \<and> ws \<noteq> workspace_id then 0
       else umap_sum (\<lambda>kv. ret_EstimateDocBytes r (d_record (snd kv))) (s_docs snapshot))
       (snapshots r)"

definition ret_ops :: "'v HybridRetriever retriever_ops" where
  "ret_ops = \<lparr> rt_Index = ret_Index, rt_Remove = ret_Remove, rt_Query = ret_Query,
               rt_EstimatedBytes = ret_EstimatedBytes,
               rt_EstimateDocBytes = ret_EstimateDocBytes \<rparr>"

definition CreateHybridRetriever :: "(string \<Rightarrow> u64) \<Rightarrow> LshVectorIndex HybridRetriever" where
  "CreateHybridRetriever hash =
     \<lparr> embedding_dim = 64, analyzer_Tokenize = Tokenize, embedding_Embed = HashEmbed hash,
       vindex_vtable = lsh_ops, vector_index = [], snapshots = [] \<rparr>"

section \<open>Counting maps\<close>

definition count_of :: "('k, 'n::zero) umap \<Rightarrow> 'k \<Rightarrow> 'n" where
  "count_of m k = (case map_of m k of None \<Rightarrow> 0 | Some n \<Rightarrow> n)"

lemma count_of_count_up:
  "count_of (count_up k m) j = count_of m j + (if j = k then 1 else (0 :: 'n::comm_semiring_1))"
  by (simp add: count_of_def count_up_def umap_simps)

lemma umap_ok_count_up [simp]: "umap_ok m \<Longrightarrow> umap_ok (count_up k m)"
  by (simp add: count_up_def)

lemma dom_count_up: "dom (map_of (count_up k m)) = insert k (dom (map_of m))"
  by (simp add: count_up_def umap_simps)

lemma token_counts_fold:
  "umap_ok m \<Longrightarrow> umap_ok (fold count_up ts m)"
  "count_of (fold count_up ts m) t = count_of m t + (of_nat (count_list ts t) :: 'n::comm_semiring_1)"
  "dom (map_of (fold count_up ts m)) = set ts \<union> dom (map_of m)"
  by (induction ts arbitrary: m) (auto simp: count_of_count_up dom_count_up algebra_simps)

lemma token_counts:
  "umap_ok (token_counts ts)"
  "count_of (token_counts ts) t = int (count_list ts t)"
  "dom (map_of (token_counts ts)) = set ts"
  using token_counts_fold [where m = "[] :: (string, int) umap" and ts = ts]
  by (simp_all add: token_counts_def count_of_def)

lemma token_counts_pos: "map_of (token_counts ts) t = Some n \<Longrightarrow> 1 \<le> n"
proof -
  assume *: "map_of (token_counts ts) t = Some n"
  then have "t \<in> set ts" using token_counts(3) [of ts] by blast
  then have "count_list ts t \<noteq> 0" by (simp add: count_list_0_iff)
  with token_counts(2) [of ts t] * show "1 \<le> n" by (simp add: count_of_def)
qed

lemma token_counts_Nil: "token_counts ts = [] \<longleftrightarrow> ts = []"
  using token_counts(3) [of ts] by (cases ts) (auto simp: token_counts_def)

lemma set_token_counts: "fst ` set (token_counts ts) = set ts"
  using token_counts(3) [of ts] by (simp add: dom_map_of_conv_image_fst)

text \<open>Document frequencies count the documents that contain a term.\<close>

definition has_term :: "string \<Rightarrow> IndexedDoc \<Rightarrow> bool" where
  "has_term t doc \<longleftrightarrow> (\<exists>n. map_of (d_tf doc) t = Some n \<and> 0 < n)"

lemma df_inner:
  assumes "umap_ok tf"
  shows "count_of (fold (\<lambda>e df. if 0 < snd e then count_up (fst e) df else df) tf df) t =
    count_of df t + (if \<exists>n. map_of tf t = Some n \<and> 0 < (n :: int) then 1 else 0 :: nat)"
  using assms
  by (induction tf arbitrary: df)
    (auto simp: count_of_count_up rev_image_eqI)

lemma count_BuildDocumentFrequency:
  assumes "\<forall>kv \<in> set docs. umap_ok (d_tf (snd kv))"
  shows "count_of (BuildDocumentFrequency docs) t = umap_count (\<lambda>kv. has_term t (snd kv)) docs"
proof -
  have "count_of (fold (\<lambda>kv df. fold (\<lambda>e df. if 0 < snd e then count_up (fst e) df else df)
                     (d_tf (snd kv)) df) docs df) t =
    count_of df t + umap_count (\<lambda>kv. has_term t (snd kv)) docs" for df
    using assms
    by (induction docs arbitrary: df) (auto simp: df_inner has_term_def umap_count_def)
  from this [of "[]"] show ?thesis by (simp add: BuildDocumentFrequency_def count_of_def)
qed

section \<open>Invariant and abstraction\<close>

definition doc_ok :: "'v HybridRetriever \<Rightarrow> string \<Rightarrow> string \<Rightarrow> IndexedDoc \<Rightarrow> bool" where
  "doc_ok r ws i doc \<longleftrightarrow>
     r_id (d_record doc) = i \<and> r_workspace_id (d_record doc) = ws \<and>
     \<not> r_tombstone (d_record doc) \<and> doc = make_doc r (d_record doc)"

definition snapshot_ok :: "'v HybridRetriever \<Rightarrow> string \<Rightarrow> WorkspaceSnapshot \<Rightarrow> bool" where
  "snapshot_ok r ws s \<longleftrightarrow>
     umap_ok (s_docs s) \<and> s_docs s \<noteq> [] \<and>
     s_df s = BuildDocumentFrequency (s_docs s) \<and>
     s_total_doc_len s = umap_sum (\<lambda>kv. d_doc_len (snd kv)) (s_docs s) \<and>
     (\<forall>(i, doc) \<in> set (s_docs s). doc_ok r ws i doc)"

definition ret_docs :: "'v HybridRetriever \<Rightarrow> string \<Rightarrow> (string, IndexedDoc) umap" where
  "ret_docs r ws = (case map_of (snapshots r) ws of None \<Rightarrow> [] | Some s \<Rightarrow> s_docs s)"

definition ret_records :: "'v HybridRetriever \<Rightarrow> string \<Rightarrow> string \<Rightarrow> MemoryRecord option" where
  "ret_records r ws i = map_option d_record (map_of (ret_docs r ws) i)"

definition ret_vectors :: "'v HybridRetriever \<Rightarrow> string \<Rightarrow> string \<Rightarrow> real list option" where
  "ret_vectors r ws i = map_option d_embedding (map_of (ret_docs r ws) i)"

definition ret_inv :: "'v vindex_ops \<Rightarrow> ('v \<Rightarrow> bool) \<Rightarrow> ('v \<Rightarrow> string \<Rightarrow> string \<Rightarrow> real list option) \<Rightarrow>
    'v HybridRetriever \<Rightarrow> bool" where
  "ret_inv ops vinv vectors r \<longleftrightarrow>
     vindex_vtable r = ops \<and> umap_ok (snapshots r) \<and>
     (\<forall>(ws, s) \<in> set (snapshots r). snapshot_ok r ws s) \<and>
     vinv (vector_index r) \<and> vectors (vector_index r) = ret_vectors r"

lemma make_doc_frame [simp]:
  "make_doc (r\<lparr> snapshots := x \<rparr>) = make_doc r"
  "make_doc (r\<lparr> vector_index := y \<rparr>) = make_doc r"
  by (simp_all add: make_doc_def fun_eq_iff)

lemma snapshot_ok_frame [simp]:
  "snapshot_ok (r\<lparr> snapshots := x \<rparr>) = snapshot_ok r"
  "snapshot_ok (r\<lparr> vector_index := y \<rparr>) = snapshot_ok r"
  by (simp_all add: snapshot_ok_def doc_ok_def fun_eq_iff)

lemma ret_docs_frame [simp]: "ret_docs (r\<lparr> vector_index := y \<rparr>) = ret_docs r"
  by (simp add: ret_docs_def fun_eq_iff)

lemma make_doc_sel [simp]:
  "d_record (make_doc r record) = record"
  "d_tf (make_doc r record) = token_counts (analyzer_Tokenize r (r_content record))"
  "d_doc_len (make_doc r record) = length (analyzer_Tokenize r (r_content record))"
  "d_embedding (make_doc r record) =
     embedding_Embed r (r_content record) (unat (embedding_dim r))"
  by (simp_all add: make_doc_def Let_def)

lemma ret_inv_snapshot:
  "ret_inv ops vinv vectors r \<Longrightarrow> map_of (snapshots r) ws = Some s \<Longrightarrow> snapshot_ok r ws s"
  by (auto simp: ret_inv_def dest!: map_of_SomeD)

lemma ret_inv_docs:
  assumes "ret_inv ops vinv vectors r"
  shows "umap_ok (ret_docs r ws)"
    "map_of (ret_docs r ws) i = Some doc \<Longrightarrow> doc_ok r ws i doc"
proof -
  show "umap_ok (ret_docs r ws)"
    using ret_inv_snapshot [OF assms, of ws]
    by (auto simp: ret_docs_def snapshot_ok_def split: option.splits)
  assume doc: "map_of (ret_docs r ws) i = Some doc"
  then obtain s where s: "map_of (snapshots r) ws = Some s" "map_of (s_docs s) i = Some doc"
    by (auto simp: ret_docs_def split: option.splits)
  from ret_inv_snapshot [OF assms s(1)] map_of_SomeD [OF s(2)] show "doc_ok r ws i doc"
    by (auto simp: snapshot_ok_def)
qed

lemma minus_guarded_sum:
  assumes "umap_ok m" "map_of m k = Some v"
  shows "minus_guarded (umap_sum f m) (f (k, v)) = umap_sum f (umap_erase k m)"
  using umap_sum_erase [OF assms(1), of f k] assms(2) by (simp add: minus_guarded_def)

text \<open>Replacing a document: the total before, less the old length, plus the new one.\<close>

lemma total_put:
  assumes "umap_ok m"
  shows "(case map_of m k of None \<Rightarrow> umap_sum f m | Some v \<Rightarrow> minus_guarded (umap_sum f m) (f (k, v)))
    + f (k, x) = umap_sum f (umap_put k x m)"
  using umap_sum_put [OF assms, of f k x] umap_sum_erase [OF assms, of f k]
  by (auto simp: minus_guarded_sum [OF assms] split: option.splits)

lemma snapshot_ok_put:
  assumes "umap_ok docs" "\<forall>(i, doc) \<in> set docs. doc_ok r ws i doc"
    "\<not> r_tombstone record" "r_workspace_id record = ws"
  shows "snapshot_ok r ws
    \<lparr> s_docs = umap_put (r_id record) (make_doc r record) docs,
      s_df = BuildDocumentFrequency (umap_put (r_id record) (make_doc r record) docs),
      s_total_doc_len = umap_sum (\<lambda>kv. d_doc_len (snd kv))
        (umap_put (r_id record) (make_doc r record) docs) \<rparr>"
proof -
  have "doc_ok r ws (r_id record) (make_doc r record)"
    using assms by (simp add: doc_ok_def)
  moreover have "umap_put k v m \<noteq> []" for k v and m :: "(string, IndexedDoc) umap"
    by (cases m) auto
  ultimately show ?thesis
    using assms by (auto simp: snapshot_ok_def set_umap_put)
qed

lemma snapshot_ok_erase:
  assumes "snapshot_ok r ws s" "umap_erase i (s_docs s) \<noteq> []" "map_of (s_docs s) i = Some doc"
  shows "snapshot_ok r ws
    \<lparr> s_docs = umap_erase i (s_docs s), s_df = BuildDocumentFrequency (umap_erase i (s_docs s)),
      s_total_doc_len = minus_guarded (s_total_doc_len s) (d_doc_len doc) \<rparr>"
  using assms minus_guarded_sum [of "s_docs s" i doc "\<lambda>kv. d_doc_len (snd kv)"]
  by (auto simp: snapshot_ok_def set_umap_erase)

text \<open>What the two writers do to the documents of each workspace.\<close>

lemma ret_docs_Index:
  "\<not> r_tombstone record \<Longrightarrow> ret_docs (ret_Index record r) ws =
     (if ws = r_workspace_id record
      then umap_put (r_id record) (make_doc r record) (ret_docs r ws) else ret_docs r ws)"
  by (auto simp: ret_docs_def ret_Index_def umap_simps Let_def split: option.splits)

lemma ret_docs_Remove:
  assumes "umap_ok (snapshots r)"
  shows "ret_docs (ret_Remove ws i r) ws' =
     (if ws' = ws then umap_erase i (ret_docs r ws) else ret_docs r ws')"
  by (auto simp: ret_docs_def ret_Remove_def umap_simps Let_def umap_erase_absent
      split: option.splits)

lemma ret_snapshots_Index:
  assumes "ret_inv ops vinv vectors r" "\<not> r_tombstone record"
  shows "snapshots (ret_Index record r) =
    umap_put (r_workspace_id record)
      (let docs = umap_put (r_id record) (make_doc r record) (ret_docs r (r_workspace_id record))
       in \<lparr> s_docs = docs, s_df = BuildDocumentFrequency docs,
            s_total_doc_len = umap_sum (\<lambda>kv. d_doc_len (snd kv)) docs \<rparr>) (snapshots r)"
proof (cases "map_of (snapshots r) (r_workspace_id record)")
  case None
  then show ?thesis using assms(2) by (simp add: ret_Index_def ret_docs_def Let_def)
next
  case (Some s)
  with ret_inv_snapshot [OF assms(1)] have "snapshot_ok r (r_workspace_id record) s" by blast
  then have "umap_ok (s_docs s)"
    "s_total_doc_len s = umap_sum (\<lambda>kv. d_doc_len (snd kv)) (s_docs s)"
    by (simp_all add: snapshot_ok_def)
  with total_put [where m = "s_docs s" and k = "r_id record" and x = "make_doc r record"
      and f = "\<lambda>kv. d_doc_len (snd kv)"]
  show ?thesis using assms(2) Some
    by (simp add: ret_Index_def ret_docs_def Let_def cong: option.case_cong)
qed

lemma ret_snapshots_Remove:
  assumes "ret_inv ops vinv vectors r"
  shows "umap_ok (snapshots (ret_Remove ws i r)) \<and>
    (\<forall>(ws', s) \<in> set (snapshots (ret_Remove ws i r)). snapshot_ok r ws' s)"
proof -
  have ok: "umap_ok (snapshots r)" and all: "\<forall>(ws', s) \<in> set (snapshots r). snapshot_ok r ws' s"
    using assms by (simp_all add: ret_inv_def)
  show ?thesis
  proof (cases "map_of (snapshots r) ws")
    case None
    with ok all show ?thesis by (simp add: ret_Remove_def Let_def)
  next
    case (Some s)
    show ?thesis
    proof (cases "map_of (s_docs s) i")
      case None
      with Some ok all show ?thesis by (simp add: ret_Remove_def Let_def)
    next
      case doc: (Some doc)
      have "snapshot_ok r ws s" using ret_inv_snapshot [OF assms Some] .
      with snapshot_ok_erase [OF this _ doc] Some doc ok all show ?thesis
        by (auto simp: ret_Remove_def Let_def set_umap_put set_umap_erase)
    qed
  qed
qed

lemma ret_Remove_frame [simp]:
  "vector_index (ret_Remove ws i r) = vx_Remove (vindex_vtable r) ws i (vector_index r)"
  "vindex_vtable (ret_Remove ws i r) = vindex_vtable r"
  "snapshot_ok (ret_Remove ws i r) = snapshot_ok r"
  by (auto simp: ret_Remove_def Let_def split: option.splits)

lemma ret_Index_frame [simp]:
  "\<not> r_tombstone record \<Longrightarrow> vector_index (ret_Index record r) =
     vx_Upsert (vindex_vtable r) (r_workspace_id record) (r_id record)
       (d_embedding (make_doc r record)) (vector_index r)"
  "vindex_vtable (ret_Index record r) = vindex_vtable r"
  "snapshot_ok (ret_Index record r) = snapshot_ok r"
  by (auto simp: ret_Index_def Let_def split: option.splits prod.splits)

context vec_index begin

lemma ret_inv_Remove:
  assumes "ret_inv ops inv vectors r"
  shows "ret_inv ops inv vectors (ret_Remove ws i r)"
proof -
  from assms have r: "vindex_vtable r = ops" "umap_ok (snapshots r)" "inv (vector_index r)"
    "vectors (vector_index r) = ret_vectors r"
    by (simp_all add: ret_inv_def)
  have "vectors (vector_index (ret_Remove ws i r)) = ret_vectors (ret_Remove ws i r)"
    using r by (auto simp: fun_eq_iff vectors_Remove ret_vectors_def ret_docs_Remove umap_simps)
  then show ?thesis
    using ret_snapshots_Remove [OF assms] r by (simp add: ret_inv_def inv_Remove)
qed

lemma ret_inv_Index:
  assumes "ret_inv ops inv vectors r"
  shows "ret_inv ops inv vectors (ret_Index record r)"
proof (cases "r_tombstone record")
  case True
  with ret_inv_Remove [OF assms] show ?thesis by (simp add: ret_Index_def)
next
  case False
  from assms have r: "vindex_vtable r = ops" "umap_ok (snapshots r)" "inv (vector_index r)"
    "\<forall>(ws, s) \<in> set (snapshots r). snapshot_ok r ws s"
    "vectors (vector_index r) = ret_vectors r"
    by (simp_all add: ret_inv_def)
  have "vectors (vector_index (ret_Index record r)) = ret_vectors (ret_Index record r)"
    using r False by (auto simp: fun_eq_iff vectors_Upsert ret_vectors_def ret_docs_Index umap_simps)
  moreover have "\<forall>(i, doc) \<in> set (ret_docs r ws). doc_ok r ws i doc" for ws
    using ret_inv_docs [OF assms] by auto
  ultimately show ?thesis
    using r False ret_inv_docs(1) [OF assms]
    by (auto simp: ret_inv_def inv_Upsert ret_snapshots_Index [OF assms] set_umap_put Let_def
        intro!: snapshot_ok_put)
qed

lemma ret_records_Index:
  assumes "ret_inv ops inv vectors r"
  shows "ret_records (ret_Index record r) = spec_Index record (ret_records r)"
proof (cases "r_tombstone record")
  case True
  with assms show ?thesis
    by (auto simp: fun_eq_iff ret_Index_def ret_records_def spec_Index_def ret_docs_Remove
        umap_simps ret_inv_def)
next
  case False
  then show ?thesis
    by (auto simp: fun_eq_iff ret_records_def spec_Index_def ret_docs_Index umap_simps)
qed

lemma ret_records_Remove:
  assumes "ret_inv ops inv vectors r"
  shows "ret_records (ret_Remove ws i r) = spec_Remove ws i (ret_records r)"
  using assms
  by (auto simp: fun_eq_iff ret_records_def spec_Remove_def ret_docs_Remove umap_simps ret_inv_def)

lemma ret_records_live:
  assumes "ret_inv ops inv vectors r" "ret_records r ws i = Some record"
  shows "r_id record = i \<and> r_workspace_id record = ws \<and> \<not> r_tombstone record"
  using assms ret_inv_docs(2) [OF assms(1)] by (auto simp: ret_records_def doc_ok_def)

end

section \<open>Merging and re-ranking\<close>

lemma map_of_set_sparse:
  "dom (map_of (set_sparse item m)) = insert (fst item) (dom (map_of m))"
  "umap_ok m \<Longrightarrow> umap_ok (set_sparse item m)"
  by (simp_all add: set_sparse_def umap_simps)

lemma map_of_set_dense:
  "dom (map_of (set_dense item m)) = insert (vr_memory_id item) (dom (map_of m))"
  "umap_ok m \<Longrightarrow> umap_ok (set_dense item m)"
  by (simp_all add: set_dense_def umap_simps)

lemma fold_set_sparse:
  "dom (map_of (fold set_sparse items m)) = fst ` set items \<union> dom (map_of m)"
  "umap_ok m \<Longrightarrow> umap_ok (fold set_sparse items m)"
  by (induction items arbitrary: m) (auto simp: map_of_set_sparse)

lemma fold_set_dense:
  "dom (map_of (fold set_dense items m)) = vr_memory_id ` set items \<union> dom (map_of m)"
  "umap_ok m \<Longrightarrow> umap_ok (fold set_dense items m)"
  by (induction items arbitrary: m) (auto simp: map_of_set_dense)

lemma merge_candidates:
  "dom (map_of (merge_candidates sparse dense)) = fst ` set sparse \<union> vr_memory_id ` set dense"
  "umap_ok (merge_candidates sparse dense)"
  by (simp_all add: merge_candidates_def fold_set_sparse fold_set_dense Un_commute)

lemma keys_merge_candidates:
  "fst ` set (merge_candidates sparse dense) = fst ` set sparse \<union> vr_memory_id ` set dense"
  using merge_candidates(1) by (simp add: dom_map_of_conv_image_fst)

lemma fold_max_ge:
  fixes f :: "'a \<Rightarrow> real"
  shows "a \<le> fold (\<lambda>x m. max m (f x)) xs a"
    "x \<in> set xs \<Longrightarrow> f x \<le> fold (\<lambda>x m. max m (f x)) xs a"
proof -
  show *: "a \<le> fold (\<lambda>x m. max m (f x)) xs a" for a xs
    by (induction xs arbitrary: a) (auto intro: order_trans [OF max.cobounded1])
  show "x \<in> set xs \<Longrightarrow> f x \<le> fold (\<lambda>x m. max m (f x)) xs a"
  proof (induction xs arbitrary: a)
    case (Cons y ys)
    have "f y \<le> fold (\<lambda>x m. max m (f x)) ys (max a (f y))"
      by (rule order_trans [OF max.cobounded2 *])
    with Cons show ?case by auto
  qed simp
qed

lemma Normalize_bounds:
  "0 \<le> Normalize v m" "v \<le> m \<Longrightarrow> Normalize v m \<le> 1"
  by (auto simp: Normalize_def)

lemma inverse_age:
  fixes x y :: real
  assumes "0 \<le> x" "x \<le> y"
  shows "0 < 1 / (1 + y)" "1 / (1 + y) \<le> 1" "1 / (1 + y) \<le> 1 / (1 + x)"
  using assms by (auto intro!: divide_pos_pos divide_left_mono mult_pos_pos)

definition age_ms :: "u64 \<Rightarrow> u64 \<Rightarrow> nat" where
  "age_ms u now = unat (if u < now then now - u else 0)"

lemma FreshnessScore_age: "FreshnessScore u now = 1 / (1 + real (age_ms u now) / 3600000)"
  by (simp only: FreshnessScore_def age_ms_def Let_def)

lemma FreshnessScore_bounds: "0 < FreshnessScore u now" "FreshnessScore u now \<le> 1"
  unfolding FreshnessScore_age by (rule inverse_age [OF _ order_refl]; simp)+

lemma FreshnessScore_mono:
  assumes "u \<le> u'" "u' \<le> now"
  shows "FreshnessScore u now \<le> FreshnessScore u' now"
proof -
  have "age_ms u now = unat now - unat u" if "u \<le> now" for u
    using unat_sub [OF that] that by (cases "u = now") (simp_all add: age_ms_def order_less_le)
  from this [of u'] this [of u] assms have "age_ms u' now \<le> age_ms u now"
    using order_trans [OF assms] by (simp add: diff_le_mono2 word_le_nat_alt)
  then show ?thesis
    unfolding FreshnessScore_age by (intro inverse_age(3)) (auto simp: divide_right_mono)
qed

section \<open>Recall\<close>

interpretation candidate_order: weak_order candidate_less
  by unfold_locales (auto simp: candidate_less_def split: if_splits)

interpretation hit_order: weak_order hit_less
  by unfold_locales (auto simp: hit_less_def split: if_splits)

lemma set_truncate_to: "x \<in> set (truncate_to n xs) \<Longrightarrow> x \<in> set xs"
  by (auto simp: truncate_to_take dest: in_set_takeD)

lemma sparse_recall_sound:
  assumes "item \<in> set (sparse_recall r s input)"
  shows "\<exists>doc. (fst item, doc) \<in> set (s_docs s) \<and> PassesFilter (d_record doc) (q_filters input) \<and>
    0 < snd item \<and> snd item = LexicalScore doc (token_counts (analyzer_Tokenize r (q_query input)))
      (length (s_docs s)) (avg_doc_len s) (s_df s)"
  using assms unfolding sparse_recall_def Let_def
  by (auto dest!: set_truncate_to simp: not_le) (metis snd_conv)

lemma dense_recall_sound:
  "item \<in> set (dense_recall r s input) \<Longrightarrow>
   \<exists>doc. map_of (s_docs s) (vr_memory_id item) = Some doc \<and>
     PassesFilter (d_record doc) (q_filters input)"
  by (auto simp: dense_recall_def split: option.splits)

definition candidate_map :: "'v HybridRetriever \<Rightarrow> WorkspaceSnapshot \<Rightarrow> QueryInput \<Rightarrow>
    (string, ScoreBreakdown) umap" where
  "candidate_map r s input = merge_candidates (sparse_recall r s input) (dense_recall r s input)"

lemma umap_ok_candidate_map: "umap_ok (candidate_map r s input)"
  by (simp add: candidate_map_def merge_candidates(2))

lemma candidate_map_sound:
  assumes "umap_ok (s_docs s)" "kv \<in> set (candidate_map r s input)"
  shows "\<exists>doc. map_of (s_docs s) (fst kv) = Some doc \<and> PassesFilter (d_record doc) (q_filters input)"
proof -
  have "fst kv \<in> fst ` set (sparse_recall r s input) \<union> vr_memory_id ` set (dense_recall r s input)"
    using assms(2) by (simp add: candidate_map_def flip: keys_merge_candidates)
  with sparse_recall_sound [of _ r s input] dense_recall_sound [of _ r s input] assms(1) show ?thesis
    by fastforce
qed

definition max_sparse :: "(string, ScoreBreakdown) umap \<Rightarrow> real" where
  "max_sparse m = fold (\<lambda>kv m. max m (sc_sparse (snd kv))) m 0"

definition max_dense :: "(string, ScoreBreakdown) umap \<Rightarrow> real" where
  "max_dense m = fold (\<lambda>kv m. max m (sc_dense (snd kv))) m 0"

definition reranked_hits :: "'v HybridRetriever \<Rightarrow> WorkspaceSnapshot \<Rightarrow> QueryInput \<Rightarrow> u64 \<Rightarrow> QueryHit list" where
  "reranked_hits r s input now = rerank_hits s input (candidate_map r s input) now"

lemma reranked_hits_eq:
  "reranked_hits r s input now =
     List.map_filter (\<lambda>kv. map_option (\<lambda>doc. make_hit (d_record doc)
       (rerank_scores (q_rerank input) (d_record doc) (snd kv)
         (max_sparse (candidate_map r s input)) (max_dense (candidate_map r s input)) now))
       (map_of (s_docs s) (fst kv))) (candidate_map r s input)"
  by (simp add: reranked_hits_def rerank_hits_def max_sparse_def max_dense_def Let_def
      map_option_case)

lemma set_map_filter_iff: "x \<in> set (List.map_filter f xs) \<longleftrightarrow> (\<exists>y\<in>set xs. f y = Some x)"
  by (force simp: List.map_filter_def)

lemma reranked_hit:
  "hit \<in> set (reranked_hits r s input now) \<longleftrightarrow>
   (\<exists>kv \<in> set (candidate_map r s input). \<exists>doc. map_of (s_docs s) (fst kv) = Some doc \<and>
     hit = make_hit (d_record doc) (rerank_scores (q_rerank input) (d_record doc) (snd kv)
       (max_sparse (candidate_map r s input)) (max_dense (candidate_map r s input)) now))"
  by (auto simp: reranked_hits_eq set_map_filter_iff)

lemma make_hit_sel [simp]:
  "h_memory_id (make_hit record scores) = r_id record"
  "h_scores (make_hit record scores) = scores"
  "hit_of_record record (make_hit record scores)"
  by (simp_all add: make_hit_def hit_of_record_def)

lemma ids_reranked_hits:
  assumes "snapshot_ok r ws s"
  shows "map h_memory_id (reranked_hits r s input now) = map fst (candidate_map r s input)"
proof -
  have "map h_memory_id (List.map_filter (\<lambda>kv. map_option (\<lambda>doc. make_hit (d_record doc) (F kv doc))
      (map_of (s_docs s) (fst kv))) kvs) = map fst kvs"
    if "set kvs \<subseteq> set (candidate_map r s input)" for kvs and F :: "string \<times> ScoreBreakdown \<Rightarrow> IndexedDoc \<Rightarrow> ScoreBreakdown"
    using that
  proof (induction kvs)
    case Nil
    then show ?case by (simp add: List.map_filter_def)
  next
    case (Cons kv kvs)
    then obtain doc where doc: "map_of (s_docs s) (fst kv) = Some doc"
      using candidate_map_sound [of s kv r input] assms by (auto simp: snapshot_ok_def)
    then have "(fst kv, doc) \<in> set (s_docs s)" by (rule map_of_SomeD)
    with assms have "r_id (d_record doc) = fst kv"
      by (auto simp: snapshot_ok_def doc_ok_def)
    with Cons doc show ?case by (simp add: List.map_filter_def)
  qed
  from this [OF subset_refl] show ?thesis unfolding reranked_hits_eq .
qed

lemma ret_Query_hits:
  assumes "ret_inv ops vinv vectors r" "map_of (snapshots r) (q_workspace_id input) = Some s"
  shows "qo_hits (ret_Query r input now st) =
    take (unat (effective_top_k input)) (sort_by hit_less (reranked_hits r s input now))"
  using ret_inv_snapshot [OF assms] assms(2)
  by (simp add: ret_Query_def snapshot_ok_def reranked_hits_def candidate_map_def Let_def
      truncate_to_take)

lemma ret_Query_empty:
  "map_of (snapshots r) (q_workspace_id input) = None \<Longrightarrow> qo_hits (ret_Query r input now st) = []"
  by (simp add: ret_Query_def empty_QueryOutput_def)

lemma ret_Query_hit:
  assumes "ret_inv ops vinv vectors r" "hit \<in> set (qo_hits (ret_Query r input now st))"
  obtains s where "map_of (snapshots r) (q_workspace_id input) = Some s"
    "hit \<in> set (reranked_hits r s input now)"
  using assms ret_Query_hits [OF assms(1), of input _ now st]
  by (cases "map_of (snapshots r) (q_workspace_id input)")
    (auto simp: ret_Query_empty dest!: set_take_sort_by)

lemma ret_Query_sound_aux:
  assumes "ret_inv ops vinv vectors r" "hit \<in> set (qo_hits (ret_Query r input now st))"
  shows "\<exists>record. ret_records r (q_workspace_id input) (h_memory_id hit) = Some record \<and>
    hit_of_record record hit \<and> PassesFilter record (q_filters input)"
proof -
  obtain s where s: "map_of (snapshots r) (q_workspace_id input) = Some s"
    and hit: "hit \<in> set (reranked_hits r s input now)"
    by (rule ret_Query_hit [OF assms])
  have ok: "snapshot_ok r (q_workspace_id input) s" by (rule ret_inv_snapshot [OF assms(1) s])
  from hit obtain kv doc scores where kv: "kv \<in> set (candidate_map r s input)"
    "map_of (s_docs s) (fst kv) = Some doc" "hit = make_hit (d_record doc) scores"
    by (auto simp: reranked_hit)
  have "r_id (d_record doc) = fst kv"
    using ok map_of_SomeD [OF kv(2)] by (auto simp: snapshot_ok_def doc_ok_def)
  moreover have "PassesFilter (d_record doc) (q_filters input)"
    using candidate_map_sound [OF _ kv(1)] ok kv(2) by (auto simp: snapshot_ok_def)
  ultimately show ?thesis
    using s kv by (auto simp: ret_records_def ret_docs_def)
qed

lemma ret_Query_distinct_aux:
  assumes "ret_inv ops vinv vectors r"
  shows "distinct (map h_memory_id (qo_hits (ret_Query r input now st)))"
proof (cases "map_of (snapshots r) (q_workspace_id input)")
  case None
  then show ?thesis by (simp add: ret_Query_empty)
next
  case (Some s)
  have "distinct (map h_memory_id (sort_by hit_less (reranked_hits r s input now)))"
    using ids_reranked_hits [OF ret_inv_snapshot [OF assms Some], of input now]
      umap_ok_candidate_map [of r s input] by simp
  then show ?thesis
    unfolding ret_Query_hits [OF assms Some] by (simp add: take_map [symmetric] del: distinct_map_sort_by)
qed

lemma ret_Query_bound_aux:
  assumes "ret_inv ops vinv vectors r"
  shows "length (qo_hits (ret_Query r input now st)) \<le> unat (effective_top_k input)"
  by (cases "map_of (snapshots r) (q_workspace_id input)")
    (simp_all add: ret_Query_empty ret_Query_hits [OF assms])

lemma ret_Query_sorted_aux:
  assumes "ret_inv ops vinv vectors r"
  shows "sorted_wrt (\<lambda>a b. \<not> hit_less b a) (qo_hits (ret_Query r input now st))"
  by (cases "map_of (snapshots r) (q_workspace_id input)")
    (simp_all add: ret_Query_empty ret_Query_hits [OF assms] hit_order.sorted_take_sort_by)

lemma ret_Query_scores_aux:
  assumes "ret_inv ops vinv vectors r" "hit \<in> set (qo_hits (ret_Query r input now st))"
  shows "0 \<le> sc_sparse (h_scores hit) \<and> sc_sparse (h_scores hit) \<le> 1 \<and>
    0 \<le> sc_dense (h_scores hit) \<and> sc_dense (h_scores hit) \<le> 1 \<and>
    0 < sc_freshness (h_scores hit) \<and> sc_freshness (h_scores hit) \<le> 1 \<and>
    sc_pin (h_scores hit) = (if h_pinned hit then 1 else 0) \<and>
    sc_final (h_scores hit) = w_sparse (q_rerank input) * sc_sparse (h_scores hit)
      + w_dense (q_rerank input) * sc_dense (h_scores hit)
      + w_freshness (q_rerank input) * sc_freshness (h_scores hit)
      + w_pin (q_rerank input) * sc_pin (h_scores hit)"
proof -
  obtain s where "hit \<in> set (reranked_hits r s input now)"
    by (rule ret_Query_hit [OF assms])
  then show ?thesis
    unfolding reranked_hit
  proof (elim bexE exE conjE)
    fix kv doc
    assume kv: "kv \<in> set (candidate_map r s input)"
      and hit: "hit = make_hit (d_record doc) (rerank_scores (q_rerank input) (d_record doc) (snd kv)
        (max_sparse (candidate_map r s input)) (max_dense (candidate_map r s input)) now)"
    have "sc_sparse (snd kv) \<le> max_sparse (candidate_map r s input)"
      "sc_dense (snd kv) \<le> max_dense (candidate_map r s input)"
      unfolding max_sparse_def max_dense_def using kv
      by (auto intro: fold_max_ge(2) [where f = "\<lambda>kv. sc_sparse (snd kv)"]
          fold_max_ge(2) [where f = "\<lambda>kv. sc_dense (snd kv)"])
    then show ?thesis
      by (simp add: hit rerank_scores_def Let_def Normalize_bounds FreshnessScore_bounds)
        (simp add: make_hit_def)
  qed
qed

lemma recall_limit_ge:
  assumes "unat (effective_top_k input) * unat (max 1 (ro_oversample (q_recall input))) < 2 ^ 64"
  shows "unat (effective_top_k input) \<le> unat (recall_limit k input)"
proof -
  let ?a = "effective_top_k input" and ?b = "max 1 (ro_oversample (q_recall input))"
  have "unat (?a * ?b) = unat ?a * unat ?b"
    using assms by (simp add: unat_mult_lem [THEN iffD1])
  moreover have "1 \<le> unat ?b" by (auto simp: max_def word_le_nat_alt)
  then have "unat ?a * 1 \<le> unat ?a * unat ?b" by (rule mult_le_mono2)
  then have "unat ?a \<le> unat ?a * unat ?b" by simp
  moreover have "unat (?a * ?b) \<le> unat (recall_limit k input)"
    by (simp add: recall_limit_def flip: word_le_nat_alt)
  ultimately show ?thesis by linarith
qed

context vec_index begin

lemma Query_returns_all:
  assumes "ret_inv ops inv vectors r"
    and "length (ret_docs r (q_workspace_id input)) \<le> unat (effective_top_k input)"
    and "unat (effective_top_k input) * unat (max 1 (ro_oversample (q_recall input))) < 2 ^ 64"
    and "embedding_Embed r (q_query input) (unat (embedding_dim r)) \<noteq> []"
  shows "h_memory_id ` set (qo_hits (ret_Query r input now st)) =
    {i. \<exists>record. ret_records r (q_workspace_id input) i = Some record \<and>
      PassesFilter record (q_filters input)}"
proof (cases "map_of (snapshots r) (q_workspace_id input)")
  case None
  then show ?thesis by (simp add: ret_Query_empty ret_records_def ret_docs_def)
next
  case (Some s)
  let ?ws = "q_workspace_id input"
  have ok: "snapshot_ok r ?ws s" by (rule ret_inv_snapshot [OF assms(1) Some])
  have docs: "ret_docs r ?ws = s_docs s" using Some by (simp add: ret_docs_def)
  let ?req = "\<lparr> vq_workspace_id = ?ws,
      vq_query = embedding_Embed r (q_query input) (unat (embedding_dim r)),
      vq_top_k = recall_limit (ro_dense_k (q_recall input)) input \<rparr>"
  have r: "vindex_vtable r = ops" "inv (vector_index r)" "vectors (vector_index r) = ret_vectors r"
    using assms(1) by (simp_all add: ret_inv_def)
  have dom: "dom (ret_vectors r ?ws) = fst ` set (s_docs s)"
    by (auto simp: ret_vectors_def docs dom_map_of_conv_image_fst [symmetric] dom_def)
  have "card (dom (vectors (vector_index r) ?ws)) \<le> unat (vq_top_k ?req)"
    using ok assms(2) recall_limit_ge [OF assms(3), of "ro_dense_k (q_recall input)"]
      card_length [of "map fst (s_docs s)"]
    by (simp add: r dom docs)
  then have all: "vr_memory_id ` set (vx_Search ops (vector_index r) ?req) = fst ` set (s_docs s)"
    using Search_complete [OF r(2), of ?req] assms(4) by (simp add: r dom)
  have cand: "fst ` set (candidate_map r s input) =
      {i. \<exists>doc. map_of (s_docs s) i = Some doc \<and> PassesFilter (d_record doc) (q_filters input)}"
    (is "?L = ?R")
  proof
    show "?L \<subseteq> ?R" using candidate_map_sound [of s _ r input] ok by (fastforce simp: snapshot_ok_def)
    have "i \<in> vr_memory_id ` set (dense_recall r s input)" if "i \<in> ?R" for i
    proof -
      from that have "i \<in> vr_memory_id ` set (vx_Search ops (vector_index r) ?req)"
        unfolding all by (auto simp: dom_map_of_conv_image_fst [symmetric])
      with that show ?thesis by (auto simp: dense_recall_def r)
    qed
    then show "?R \<subseteq> ?L" by (auto simp: candidate_map_def keys_merge_candidates)
  qed
  have "length (reranked_hits r s input now) \<le> unat (effective_top_k input)"
  proof -
    have "distinct (map fst (candidate_map r s input))" by (rule umap_ok_candidate_map)
    moreover have "set (map fst (candidate_map r s input)) \<subseteq> set (map fst (s_docs s))"
      unfolding set_map cand by (force dest: map_of_SomeD)
    ultimately have "length (candidate_map r s input) \<le> length (s_docs s)"
      using distinct_card [of "map fst (candidate_map r s input)"] card_length [of "map fst (s_docs s)"]
        card_mono [of "set (map fst (s_docs s))" "set (map fst (candidate_map r s input))"]
      by (simp del: set_map)
    then show ?thesis
      using arg_cong [OF ids_reranked_hits [OF ok, of input now], of length] assms(2) docs by simp
  qed
  then have "h_memory_id ` set (qo_hits (ret_Query r input now st)) = fst ` set (candidate_map r s input)"
    unfolding ret_Query_hits [OF assms(1) Some]
    using ids_reranked_hits [OF ok, of input now] by (simp add: flip: set_map)
  then show ?thesis unfolding cand by (auto simp: ret_records_def docs)
qed

end

section \<open>The BM25 score\<close>

lemma df_le_docs:
  assumes "snapshot_ok r ws s"
  shows "count_of (s_df s) t \<le> length (s_docs s)"
proof -
  have "\<forall>kv \<in> set (s_docs s). umap_ok (d_tf (snd kv))"
  proof
    fix kv assume "kv \<in> set (s_docs s)"
    with assms have "snd kv = make_doc r (d_record (snd kv))"
      by (auto simp: snapshot_ok_def doc_ok_def)
    then have "d_tf (snd kv) = token_counts (analyzer_Tokenize r (r_content (d_record (snd kv))))"
      by (metis make_doc_sel(2))
    then show "umap_ok (d_tf (snd kv))" by (simp add: token_counts)
  qed
  with assms show ?thesis
    by (simp add: snapshot_ok_def count_BuildDocumentFrequency umap_count_def)
qed

lemma bm25_term_pos:
  assumes "count_of df q \<le> N" "map_of (d_tf doc) q = Some n" "1 \<le> n" "0 < avgdl"
  shows "0 < bm25_term doc N avgdl df q"
proof -
  define d where "d = real (count_of df q)"
  have d: "0 \<le> d" "d \<le> real N" using assms(1) by (auto simp: d_def)
  have freq: "(case map_of df q of None \<Rightarrow> 0 | Some d \<Rightarrow> real d) = d"
    by (simp add: d_def count_of_def split: option.splits)
  have "0 < (real N - d + 0.5) / (d + 0.5)" using d by (intro divide_pos_pos) auto
  then have idf: "0 < ln ((real N - d + 0.5) / (d + 0.5) + 1)" by (intro ln_gt_zero) simp
  have "0 \<le> real (d_doc_len doc) / avgdl" using assms(4) by simp
  then have "0 < real_of_int n + 1.5 * (1 - 0.75 + 0.75 * (real (d_doc_len doc) / avgdl))"
    using assms(3) by (intro add_pos_nonneg) auto
  moreover have "0 < real_of_int n * (1.5 + 1)" using assms(3) by simp
  ultimately show ?thesis
    using idf unfolding bm25_term_def assms(2) option.simps freq Let_def
    by (intro mult_pos_pos divide_pos_pos) auto
qed

lemma fold_add_sum: "fold (\<lambda>x acc. acc + f x) xs a = a + sum_list (map f xs)"
  for f :: "'a \<Rightarrow> 'b::comm_monoid_add"
  by (induction xs arbitrary: a) (auto simp: add.assoc)

lemma sum_list_pos_iff:
  fixes f :: "'a \<Rightarrow> real"
  assumes "\<And>x. 0 \<le> f x"
  shows "0 < sum_list (map f xs) \<longleftrightarrow> (\<exists>x \<in> set xs. f x \<noteq> 0)"
proof (induction xs)
  case (Cons x xs)
  have "0 \<le> sum_list (map f xs)" by (intro sum_list_nonneg) (auto simp: assms)
  with Cons assms [of x] show ?case by (auto simp: less_le add_nonneg_eq_0_iff)
qed simp

lemma LexicalScore_pos_aux:
  assumes ok: "snapshot_ok r ws s" and doc: "(i, doc) \<in> set (s_docs s)"
  shows "0 < LexicalScore doc (token_counts q) (length (s_docs s)) (avg_doc_len s) (s_df s) \<longleftrightarrow>
    set q \<inter> set (analyzer_Tokenize r (r_content (d_record doc))) \<noteq> {}"
proof -
  let ?toks = "analyzer_Tokenize r (r_content (d_record doc))"
  let ?avg = "if 0 < avg_doc_len s then avg_doc_len s else 1"
  let ?score = "bm25_term doc (length (s_docs s)) ?avg (s_df s)"
  from ok doc have "doc = make_doc r (d_record doc)"
    by (auto simp: snapshot_ok_def doc_ok_def)
  then have tf: "d_tf doc = token_counts ?toks" and len: "d_doc_len doc = length ?toks"
    by (metis make_doc_sel)+
  have pos: "0 < ?score t" if "t \<in> set ?toks" for t
  proof -
    from that obtain n where n: "map_of (d_tf doc) t = Some n"
      using token_counts(3) [of ?toks] tf by auto
    then show ?thesis
      using token_counts_pos [of ?toks t n] tf df_le_docs [OF ok]
      by (intro bm25_term_pos) auto
  qed
  have zero: "?score t = 0" if "t \<notin> set ?toks" for t
    using that token_counts(3) [of ?toks] tf by (auto simp: bm25_term_def split: option.splits)
  have nonneg: "0 \<le> ?score t" for t
    using pos [of t] zero [of t] by (cases "t \<in> set ?toks") auto
  show ?thesis
  proof (cases "?toks = [] \<or> q = []")
    case True
    then show ?thesis by (auto simp: LexicalScore_def len token_counts_Nil)
  next
    case False
    have "LexicalScore doc (token_counts q) (length (s_docs s)) (avg_doc_len s) (s_df s) =
        sum_list (map (\<lambda>kv. ?score (fst kv)) (token_counts q))"
      using False doc
      by (auto simp: LexicalScore_def len token_counts_Nil fold_add_sum Let_def)
    also have "0 < \<dots> \<longleftrightarrow> (\<exists>kv \<in> set (token_counts q). ?score (fst kv) \<noteq> 0)"
      by (rule sum_list_pos_iff) (rule nonneg)
    also have "\<dots> \<longleftrightarrow> (\<exists>t \<in> set q. ?score t \<noteq> 0)"
      using set_token_counts [of q] by force
    also have "\<dots> \<longleftrightarrow> set q \<inter> set ?toks \<noteq> {}"
      using pos zero by (metis disjoint_iff less_irrefl)
    finally show ?thesis .
  qed
qed

section \<open>The contract, on the hybrid retriever over the LSH index\<close>

abbreviation hybrid_inv :: "LshVectorIndex HybridRetriever \<Rightarrow> bool" where
  "hybrid_inv \<equiv> ret_inv lsh_ops lsh_inv lsh_vectors"

lemma ret_ops_sel [simp]:
  "rt_Index ret_ops = ret_Index" "rt_Remove ret_ops = ret_Remove" "rt_Query ret_ops = ret_Query"
  "rt_EstimatedBytes ret_ops = ret_EstimatedBytes"
  "rt_EstimateDocBytes ret_ops = ret_EstimateDocBytes"
  by (simp_all add: ret_ops_def)

lemma ret_config_frame [simp]:
  "analyzer_Tokenize (ret_Remove ws i r) = analyzer_Tokenize r"
  "embedding_dim (ret_Remove ws i r) = embedding_dim r"
  "analyzer_Tokenize (ret_Index record r) = analyzer_Tokenize r"
  "embedding_dim (ret_Index record r) = embedding_dim r"
  by (auto simp: ret_Index_def ret_Remove_def Let_def split: option.splits prod.splits)

lemma doc_bytes_frame:
  "ret_EstimateDocBytes (ret_Index record r) = ret_EstimateDocBytes r"
  "ret_EstimateDocBytes (ret_Remove ws i r) = ret_EstimateDocBytes r"
  "ret_EstimateDocBytes r (record\<lparr> r_last_access_ms := a, r_hit_count := h \<rparr>) =
     ret_EstimateDocBytes r record"
  by (simp_all add: fun_eq_iff ret_EstimateDocBytes_def EstimateRecordBytes_def)

interpretation hybrid: retriever ret_ops hybrid_inv ret_records
  by unfold_locales
    (simp_all add: lsh.ret_inv_Index lsh.ret_inv_Remove lsh.ret_records_Index
      lsh.ret_records_Remove lsh.ret_records_live ret_Query_sound_aux ret_Query_distinct_aux
      ret_Query_bound_aux doc_bytes_frame)

lemma hybrid_inv_init: "hybrid_inv (CreateHybridRetriever hash)"
  by (auto simp: ret_inv_def CreateHybridRetriever_def lsh_inv_def lsh_vectors_def lsh_docs_def
      ret_vectors_def ret_docs_def fun_eq_iff)

lemma ret_docs_init: "ret_docs (CreateHybridRetriever hash) ws = []"
  by (simp add: ret_docs_def CreateHybridRetriever_def)

lemma ret_records_init: "ret_records (CreateHybridRetriever hash) = (\<lambda>_ _. None)"
  by (simp add: ret_records_def ret_docs_init fun_eq_iff)

text \<open>A workspace with one record, for the concrete instances below.\<close>

definition sample_record :: "string \<Rightarrow> string \<Rightarrow> MemoryRecord" where
  "sample_record i content =
     default_MemoryRecord\<lparr> r_id := i, r_workspace_id := ''w'', r_content := content \<rparr>"

definition sample_query :: QueryInput where
  "sample_query =
     \<lparr> q_workspace_id = ''w'', q_query = ''epoll loop'', q_top_k = 8, q_token_budget = 0,
       q_filters = \<lparr> f_session_id = '''', f_sources = [], f_tags_any = [], f_updated_after_ms = 0,
                     f_updated_before_ms = 0, f_pinned_only = False \<rparr>,
       q_recall = \<lparr> ro_sparse_k = 200, ro_dense_k = 200, ro_oversample = 4 \<rparr>,
       q_rerank = \<lparr> w_sparse = 0.5, w_dense = 0.4, w_freshness = 0.1, w_pin = 0 \<rparr>,
       q_debug = False \<rparr>"

definition sample_retriever :: "LshVectorIndex HybridRetriever" where
  "sample_retriever =
     ret_Index (sample_record ''m1'' ''use epoll'') (CreateHybridRetriever (\<lambda>_. 3))"

lemma sample_retriever_inv: "hybrid_inv sample_retriever"
  unfolding sample_retriever_def by (intro lsh.ret_inv_Index hybrid_inv_init)

lemma sample_retriever_records:
  "ret_records sample_retriever = (\<lambda>_ _. None)(''w'' := [''m1'' \<mapsto> sample_record ''m1'' ''use epoll''])"
  by (simp add: sample_retriever_def lsh.ret_records_Index [OF hybrid_inv_init] ret_records_init
      spec_Index_def sample_record_def default_MemoryRecord_def)

section \<open>Properties\<close>

text \<open>
  C33. Whatever sequence of index and remove commands a fresh retriever has executed, the
  records it holds are those of the abstract map (last write wins, tombstones and removals
  delete), and its invariant holds: exact document frequencies and total lengths, and a
  vector index in step with the snapshots.
\<close>

theorem hybrid_run_refines:
  "hybrid_inv (fold (run_cmd ret_ops) cmds (CreateHybridRetriever hash)) \<and>
   ret_records (fold (run_cmd ret_ops) cmds (CreateHybridRetriever hash)) =
     fold spec_cmd cmds (\<lambda>_ _. None)"
  using hybrid.run_refines [OF hybrid_inv_init] by (simp add: ret_records_init)

text \<open>
  C31. Every hit of a query is a record the workspace holds now, copied field by field, which
  is not a tombstone and passes every filter of the query; no record is returned twice.
\<close>

theorem ret_Query_sound:
  assumes "hybrid_inv r"
  shows "list_all (\<lambda>hit. \<exists>record.
      ret_records r (q_workspace_id input) (h_memory_id hit) = Some record \<and>
      hit_of_record record hit \<and> \<not> r_tombstone record \<and> PassesFilter record (q_filters input))
    (qo_hits (ret_Query r input now st)) \<and>
    distinct (map h_memory_id (qo_hits (ret_Query r input now st)))"
  using hybrid.Query_sound [OF assms] hybrid.Query_distinct [OF assms] hybrid.docs_live [OF assms]
  by (fastforce simp: list_all_iff)

theorem ret_Query_sound_witness:
  "list_all (\<lambda>hit. \<exists>record.
      ret_records sample_retriever ''w'' (h_memory_id hit) = Some record \<and>
      hit_of_record record hit \<and> \<not> r_tombstone record \<and>
      PassesFilter record (q_filters sample_query))
    (qo_hits (ret_Query sample_retriever sample_query 1000 \<lparr> st_sparse_ms = 0, st_dense_ms = 0,
       st_rerank_ms = 0, st_total_ms = 0 \<rparr>))"
  using ret_Query_sound [OF sample_retriever_inv, of sample_query 1000] by (simp add: sample_query_def)

text \<open>
  C38. The hits of a query come in decreasing final score (ties by recency), at most
  \<open>top_k\<close> of them (8 when \<open>top_k\<close> is 0); each component score lies in the unit interval and
  the final score is their weighted sum.
\<close>

theorem ret_Query_ranked:
  assumes "hybrid_inv r"
  shows "let hits = qo_hits (ret_Query r input now st) in
    length hits \<le> unat (if q_top_k input = 0 then 8 else q_top_k input) \<and>
    sorted_wrt (\<lambda>a b. sc_final (h_scores b) < sc_final (h_scores a) \<or>
      sc_final (h_scores a) = sc_final (h_scores b) \<and> h_updated_at_ms b \<le> h_updated_at_ms a) hits \<and>
    list_all (\<lambda>hit. sc_sparse (h_scores hit) \<in> {0..1} \<and> sc_dense (h_scores hit) \<in> {0..1} \<and>
      sc_freshness (h_scores hit) \<in> {0<..1} \<and>
      sc_pin (h_scores hit) = (if h_pinned hit then 1 else 0) \<and>
      sc_final (h_scores hit) = w_sparse (q_rerank input) * sc_sparse (h_scores hit)
        + w_dense (q_rerank input) * sc_dense (h_scores hit)
        + w_freshness (q_rerank input) * sc_freshness (h_scores hit)
        + w_pin (q_rerank input) * sc_pin (h_scores hit)) hits"
proof -
  define hits where "hits = qo_hits (ret_Query r input now st)"
  have "sorted_wrt (\<lambda>a b. sc_final (h_scores b) < sc_final (h_scores a) \<or>
      sc_final (h_scores a) = sc_final (h_scores b) \<and> h_updated_at_ms b \<le> h_updated_at_ms a) hits"
    using ret_Query_sorted_aux [OF assms(1), of input now st]
    unfolding hits_def
    by (rule sorted_wrt_mono_rel [rotated]) (auto simp: hit_less_def split: if_splits)
  then show ?thesis
    using ret_Query_bound_aux [OF assms(1), of input now st]
      ret_Query_scores_aux [OF assms(1), of _ input now st]
    by (auto simp: list_all_iff effective_top_k_def Let_def simp flip: hits_def)
qed

theorem ret_Query_ranked_witness:
  "length (qo_hits (ret_Query sample_retriever sample_query 1000 \<lparr> st_sparse_ms = 0, st_dense_ms = 0,
     st_rerank_ms = 0, st_total_ms = 0 \<rparr>)) \<le> 8"
  using ret_Query_ranked [OF sample_retriever_inv, of sample_query 1000]
  by (simp add: sample_query_def Let_def)

text \<open>
  C32. When a workspace holds no more records than \<open>top_k\<close> and \<open>top_k * oversample\<close> does
  not wrap, the ids a query returns are exactly those of the records that pass its filters:
  the recall limits lose nothing, whatever the query text.
\<close>

theorem ret_Query_complete:
  assumes "hybrid_inv r"
    and "length (ret_docs r (q_workspace_id input)) \<le> unat (effective_top_k input)"
    and "unat (effective_top_k input) * unat (max 1 (ro_oversample (q_recall input))) < 2 ^ 64"
    and "embedding_Embed r (q_query input) (unat (embedding_dim r)) \<noteq> []"
  shows "h_memory_id ` set (qo_hits (ret_Query r input now st)) =
    {i. \<exists>record. ret_records r (q_workspace_id input) i = Some record \<and>
      PassesFilter record (q_filters input)}"
  by (rule lsh.Query_returns_all [OF assms])

theorem ret_Query_complete_witness:
  "h_memory_id ` set (qo_hits (ret_Query sample_retriever sample_query 1000
     \<lparr> st_sparse_ms = 0, st_dense_ms = 0, st_rerank_ms = 0, st_total_ms = 0 \<rparr>)) = {''m1''}"
proof -
  have "embedding_Embed sample_retriever = HashEmbed (\<lambda>_. 3)" "embedding_dim sample_retriever = 64"
    by (simp_all add: sample_retriever_def ret_Index_def CreateHybridRetriever_def sample_record_def
        default_MemoryRecord_def Let_def)
  moreover have "HashEmbed (\<lambda>_. 3) t 64 \<noteq> []" for t
    using length_HashEmbed [of "\<lambda>_. 3" t 64] by force
  moreover have "length (ret_docs sample_retriever ''w'') = 1"
    by (simp add: sample_retriever_def ret_docs_Index ret_docs_init sample_record_def
        default_MemoryRecord_def)
  ultimately show ?thesis
    using ret_Query_complete [OF sample_retriever_inv, of sample_query 1000]
    by (simp add: sample_query_def effective_top_k_def sample_retriever_records PassesFilter_def)
      (simp add: sample_record_def default_MemoryRecord_def)
qed

text \<open>
  The BM25 score of an indexed document is positive exactly when the document and the
  query share a token, so the sparse recall keeps precisely the keyword matches.
\<close>

lemma LexicalScore_pos_iff:
  assumes "hybrid_inv r" and "map_of (snapshots r) ws = Some s" and "(i, doc) \<in> set (s_docs s)"
  shows "0 < LexicalScore doc (token_counts q) (length (s_docs s)) (avg_doc_len s) (s_df s) \<longleftrightarrow>
    set q \<inter> set (analyzer_Tokenize r (r_content (d_record doc))) \<noteq> {}"
  using LexicalScore_pos_aux [OF ret_inv_snapshot [OF assms(1,2)] assms(3)] .

theorem LexicalScore_pos_iff_witness:
  "\<exists>s doc. map_of (snapshots sample_retriever) ''w'' = Some s \<and>
     0 < LexicalScore doc (token_counts [''epoll'']) (length (s_docs s)) (avg_doc_len s) (s_df s)"
proof -
  let ?r = "sample_record ''m1'' ''use epoll''"
  have "ret_docs sample_retriever ''w'' = [(''m1'', make_doc (CreateHybridRetriever (\<lambda>_. 3)) ?r)]"
    by (simp add: sample_retriever_def ret_docs_Index ret_docs_init sample_record_def
        default_MemoryRecord_def)
  then obtain s where s: "map_of (snapshots sample_retriever) ''w'' = Some s"
    and docs: "s_docs s = [(''m1'', make_doc (CreateHybridRetriever (\<lambda>_. 3)) ?r)]"
    by (auto simp: ret_docs_def split: option.splits)
  have "analyzer_Tokenize sample_retriever = Tokenize"
    by (simp add: sample_retriever_def ret_Index_def CreateHybridRetriever_def sample_record_def
        default_MemoryRecord_def Let_def)
  moreover have "Tokenize ''use epoll'' = [''use'', ''epoll'']" by code_simp
  ultimately show ?thesis
    using LexicalScore_pos_iff [OF sample_retriever_inv s, of "''m1''" _ "[''epoll'']"] s docs
    by (fastforce simp: sample_record_def)
qed

text \<open>
  Freshness decays with age: it is 1 for a record of the current millisecond or of the
  future, and the more recent of two records never scores lower.
\<close>

theorem FreshnessScore_decay:
  "(now \<le> u \<longrightarrow> FreshnessScore u now = 1) \<and>
   (u \<le> u' \<and> u' \<le> now \<longrightarrow> FreshnessScore u now \<le> FreshnessScore u' now)"
  using FreshnessScore_mono [of u u' now] by (auto simp: FreshnessScore_age age_ms_def)

theorem FreshnessScore_decay_witness:
  "FreshnessScore 9 5 = 1 \<and> FreshnessScore 1 9 \<le> FreshnessScore 5 9"
  using FreshnessScore_decay [of 5 9 9] FreshnessScore_decay [of 9 1 5] by simp

end
