(* ===== verification/Metrics.thy ===== *)
theory Metrics
  imports Model_Types
begin

text \<open>
  \<open>include/pgmem/core/metrics.h\<close> and \<open>src/core/metrics.cpp\<close>: latency histograms, their
  95th percentile, and the token and fallback counters.  Every counter is an atomic
  64-bit integer, incremented by one operation, so a sequence of calls is a sequence of
  state updates.

  The lemmas relate the histogram to the latencies that were recorded: the reported
  percentile is the smallest bucket bound that covers 95% of them.
\<close>

definition kLatencyBucketUpperMs :: "real list" where
  "kLatencyBucketUpperMs =
     [0.1, 0.2, 0.5, 1, 2, 5, 10, 20, 40, 80, 120, 200, 400, 800, 1600, 3200]"

definition kLatencyBucketCount :: nat where
  "kLatencyBucketCount = 16"

record Metrics =
  read_lat_hist :: "u64 list"
  write_lat_hist :: "u64 list"
  token_before :: u64
  token_after :: u64
  fallback_total :: u64
  fallback_used :: u64

definition new_Metrics :: Metrics where
  "new_Metrics =
     \<lparr> read_lat_hist = replicate (kLatencyBucketCount + 1) 0,
       write_lat_hist = replicate (kLatencyBucketCount + 1) 0,
       token_before = 0, token_after = 0, fallback_total = 0, fallback_used = 0 \<rparr>"

fun bucket_from :: "nat \<Rightarrow> real list \<Rightarrow> real \<Rightarrow> nat" where
  "bucket_from i [] ms = kLatencyBucketCount"
| "bucket_from i (b # bs) ms = (if ms \<le> b then i else bucket_from (Suc i) bs ms)"

definition BucketIndex :: "real \<Rightarrow> nat" where
  "BucketIndex ms = (if ms < 0 then 0 else bucket_from 0 kLatencyBucketUpperMs ms)"

definition hist_add :: "nat \<Rightarrow> u64 list \<Rightarrow> u64 list" where
  "hist_add idx hist = hist[idx := hist ! idx + 1]"

definition RecordReadLatency :: "real \<Rightarrow> Metrics \<Rightarrow> Metrics" where
  "RecordReadLatency ms m = m\<lparr> read_lat_hist := hist_add (BucketIndex ms) (read_lat_hist m) \<rparr>"

definition RecordWriteLatency :: "real \<Rightarrow> Metrics \<Rightarrow> Metrics" where
  "RecordWriteLatency ms m = m\<lparr> write_lat_hist := hist_add (BucketIndex ms) (write_lat_hist m) \<rparr>"

definition RecordTokenReduction :: "u64 \<Rightarrow> u64 \<Rightarrow> Metrics \<Rightarrow> Metrics" where
  "RecordTokenReduction before_tokens after_tokens m =
     m\<lparr> token_before := token_before m + before_tokens,
         token_after := token_after m + after_tokens \<rparr>"

definition RecordFallback :: "bool \<Rightarrow> Metrics \<Rightarrow> Metrics" where
  "RecordFallback used_fallback m =
     (let m = m\<lparr> fallback_total := fallback_total m + 1 \<rparr> in
      if used_fallback then m\<lparr> fallback_used := fallback_used m + 1 \<rparr> else m)"

text \<open>The scan of \<open>ComputeP95\<close>: \<open>bs\<close> are the bucket bounds that are left, 3200 the last one.\<close>

fun p95_scan :: "u64 list \<Rightarrow> real list \<Rightarrow> u64 \<Rightarrow> u64 \<Rightarrow> real" where
  "p95_scan [] bs cumulative target = last kLatencyBucketUpperMs"
| "p95_scan (h # hs) bs cumulative target =
     (let cumulative = cumulative + h in
      if target \<le> cumulative
      then (case bs of b # _ \<Rightarrow> b | [] \<Rightarrow> last kLatencyBucketUpperMs)
      else p95_scan hs (tl bs) cumulative target)"

definition ComputeP95 :: "u64 list \<Rightarrow> real" where
  "ComputeP95 hist =
     (let tot = sum_list hist in
      if tot = 0 then 0
      else p95_scan hist kLatencyBucketUpperMs 0 (of_nat (nat \<lceil>real (unat tot) * 0.95\<rceil>)))"

definition default_StatsSnapshot :: StatsSnapshot where
  "default_StatsSnapshot =
     \<lparr> ss_p95_read_ms = 0, ss_p95_write_ms = 0, ss_token_reduction_ratio = 0, ss_fallback_rate = 0,
       ss_mem_used_bytes = 0, ss_disk_used_bytes = 0, ss_resident_used_bytes = 0,
       ss_resident_limit_bytes = 0, ss_resident_evicted_count = 0,
       ss_disk_fallback_search_count = 0, ss_item_count = 0, ss_tombstone_count = 0,
       ss_gc_last_run_ms = 0, ss_gc_evicted_count = 0, ss_capacity_blocked = False,
       ss_write_ack_mode = ''durable'', ss_effective_backend = '''',
       ss_index_stats = \<lparr> is_segment_count = 0, is_posting_terms = 0, is_vector_count = 0,
         is_query_cache_hit_rate = 0, is_dense_probe_count_p95 = 0,
         is_cold_rehydrate_count = 0 \<rparr> \<rparr>"

definition metrics_Snapshot :: "Metrics \<Rightarrow> StatsSnapshot" where
  "metrics_Snapshot m =
     default_StatsSnapshot\<lparr>
       ss_p95_read_ms := ComputeP95 (read_lat_hist m),
       ss_p95_write_ms := ComputeP95 (write_lat_hist m),
       ss_token_reduction_ratio :=
         (if 0 < token_before m \<and> token_after m \<le> token_before m
          then real (unat (token_before m - token_after m)) / real (unat (token_before m)) else 0),
       ss_fallback_rate :=
         (if 0 < fallback_total m
          then real (unat (fallback_used m)) / real (unat (fallback_total m)) else 0) \<rparr>"

section \<open>Buckets\<close>

lemma BucketIndex_less: "BucketIndex ms < 17"
proof -
  have "bucket_from i bs ms < 17" if "i + length bs \<le> 16" for i bs
    using that by (induction i bs ms rule: bucket_from.induct) (auto simp: kLatencyBucketCount_def)
  from this [of 0 kLatencyBucketUpperMs] show ?thesis
    by (simp add: BucketIndex_def kLatencyBucketUpperMs_def)
qed

lemma bounds_sorted: "sorted_wrt (<) kLatencyBucketUpperMs"
  by (simp add: kLatencyBucketUpperMs_def)

lemma length_bounds [simp]: "length kLatencyBucketUpperMs = 16"
  by (simp add: kLatencyBucketUpperMs_def)

lemma bucket_from_le:
  "sorted_wrt (<) bs \<Longrightarrow> i + length bs = 16 \<Longrightarrow> j < length bs \<Longrightarrow>
   bucket_from i bs ms \<le> i + j \<longleftrightarrow> ms \<le> bs ! j"
proof (induction i bs ms arbitrary: j rule: bucket_from.induct)
  case (2 i b bs ms)
  show ?case
  proof (cases j)
    case 0
    have "i < bucket_from (Suc i) bs ms"
      using 2(3) by (induction "Suc i" bs ms arbitrary: i rule: bucket_from.induct)
        (auto simp: kLatencyBucketCount_def less_Suc_eq_le)
    with 0 show ?thesis by auto
  next
    case (Suc k)
    with 2 have "ms \<le> b \<Longrightarrow> ms \<le> bs ! k"
      by (metis length_Cons less_imp_le nth_mem order_trans Suc_less_eq sorted_wrt.simps(2))
    with Suc 2 show ?thesis by auto
  qed
qed simp

lemma BucketIndex_le: "j < 16 \<Longrightarrow> BucketIndex ms \<le> j \<longleftrightarrow> ms \<le> kLatencyBucketUpperMs ! j"
proof (cases "ms < 0")
  case True
  assume j: "j < 16"
  have "0 < kLatencyBucketUpperMs ! j"
    using j nth_mem [of j kLatencyBucketUpperMs] by (auto simp: kLatencyBucketUpperMs_def)
  with True show ?thesis by (simp add: BucketIndex_def)
next
  case False
  assume "j < 16"
  with False bucket_from_le [OF bounds_sorted, of 0 j ms] show ?thesis
    by (simp add: BucketIndex_def)
qed

section \<open>Histograms\<close>

definition hist_of :: "real list \<Rightarrow> nat list" where
  "hist_of xs = map (\<lambda>i. length (filter (\<lambda>x. BucketIndex x = i) xs)) [0..<17]"

lemma hist_add_hist_of:
  "hist_add (BucketIndex x) (map of_nat (hist_of xs)) = map of_nat (hist_of (x # xs))"
  using BucketIndex_less [of x]
  by (intro nth_equalityI) (auto simp: hist_add_def hist_of_def nth_list_update)

lemma fold_RecordReadLatency:
  "read_lat_hist (fold RecordReadLatency xs m) =
     fold (\<lambda>x. hist_add (BucketIndex x)) xs (read_lat_hist m)"
  by (induction xs arbitrary: m) (auto simp: RecordReadLatency_def)

lemma fold_hist_add:
  "fold (\<lambda>x. hist_add (BucketIndex x)) xs (map of_nat (hist_of ys)) =
     map of_nat (hist_of (rev xs @ ys))"
  by (induction xs arbitrary: ys) (auto simp: hist_add_hist_of)

lemma read_hist:
  "read_lat_hist (fold RecordReadLatency xs new_Metrics) = map of_nat (hist_of xs)"
proof -
  have "read_lat_hist new_Metrics = map of_nat (hist_of [])"
    by (intro nth_equalityI) (auto simp: new_Metrics_def hist_of_def kLatencyBucketCount_def)
  moreover have "hist_of (rev xs) = hist_of xs"
    by (simp add: hist_of_def rev_filter [symmetric])
  ultimately show ?thesis
    by (simp only: fold_RecordReadLatency fold_hist_add append_Nil2)
qed

lemma sum_take_hist_of:
  "n \<le> 17 \<Longrightarrow> sum_list (take n (hist_of xs)) = length (filter (\<lambda>x. BucketIndex x < n) xs)"
proof (induction n)
  case (Suc n)
  have "length (filter (\<lambda>x. BucketIndex x < Suc n) xs) =
      length (filter (\<lambda>x. BucketIndex x < n) xs) + length (filter (\<lambda>x. BucketIndex x = n) xs)"
    by (induction xs) auto
  with Suc show ?case by (simp add: take_Suc_conv_app_nth hist_of_def)
qed simp

lemma sum_hist_of: "sum_list (hist_of xs) = length xs"
  using sum_take_hist_of [of 17 xs] BucketIndex_less by (simp add: hist_of_def filter_id_conv)

text \<open>The scan stops at the first bucket whose running total reaches the target.\<close>

lemma p95_scan_first:
  assumes "k + sum_list cs < 2 ^ 64" "length bs \<le> length cs"
  shows "(\<exists>i < length bs. p95_scan (map of_nat cs) bs (of_nat k) t = bs ! i \<and>
        unat t \<le> k + sum_list (take (Suc i) cs) \<and>
        (\<forall>j < i. k + sum_list (take (Suc j) cs) < unat t)) \<or>
    p95_scan (map of_nat cs) bs (of_nat k) t = last kLatencyBucketUpperMs \<and>
      (\<forall>j < length bs. k + sum_list (take (Suc j) cs) < unat t)"
  using assms
proof (induction cs arbitrary: k bs)
  case Nil
  then show ?case by simp
next
  case (Cons c cs)
  have sum: "of_nat k + of_nat c = (of_nat (k + c) :: u64)" by simp
  have le: "t \<le> of_nat (k + c) \<longleftrightarrow> unat t \<le> k + c"
    using Cons.prems(1) by (simp add: word_le_nat_alt unat_of_nat del: of_nat_add)
  show ?case
  proof (cases "unat t \<le> k + c")
    case True
    then show ?thesis
      by (cases bs) (simp_all only: p95_scan.simps Let_def sum le if_True list.map list.case, auto)
  next
    case False
    then have step: "p95_scan (map of_nat (c # cs)) bs (of_nat k) t =
        p95_scan (map of_nat cs) (tl bs) (of_nat (k + c)) t"
      by (simp only: p95_scan.simps Let_def sum le if_False list.map)
    show ?thesis
    proof (cases bs)
      case Nil
      then show ?thesis
        using Cons.IH [of "k + c" "[]"] Cons.prems step by (simp add: add.assoc)
    next
      case bs: (Cons b bs')
      note step' = step [unfolded bs list.sel]
      have shift: "(\<forall>j < Suc n. P j) \<longleftrightarrow> P 0 \<and> (\<forall>j < n. P (Suc j))" for n and P :: "nat \<Rightarrow> bool"
        by (auto simp: less_Suc_eq_0_disj)
      from Cons.IH [of "k + c" bs'] Cons.prems bs
      consider i where "i < length bs'" "p95_scan (map of_nat cs) bs' (of_nat (k + c)) t = bs' ! i"
          "unat t \<le> k + c + sum_list (take (Suc i) cs)"
          "\<forall>j < i. k + c + sum_list (take (Suc j) cs) < unat t"
        | "p95_scan (map of_nat cs) bs' (of_nat (k + c)) t = last kLatencyBucketUpperMs"
          "\<forall>j < length bs'. k + c + sum_list (take (Suc j) cs) < unat t"
        by (auto simp: add.assoc)
      then show ?thesis
      proof cases
        case 1
        with False show ?thesis
          unfolding bs step' by (intro disjI1 exI [of _ "Suc i"]) (simp add: shift add.assoc)
      next
        case 2
        with False show ?thesis
          unfolding bs step' by (intro disjI2) (simp add: shift add.assoc)
      qed
    qed
  qed
qed

lemma sum_list_map_of_nat: "sum_list (map of_nat cs) = (of_nat (sum_list cs) :: 'a::semiring_1)"
  by (induction cs) auto

definition at_most :: "real list \<Rightarrow> real \<Rightarrow> nat" where
  "at_most xs b = length (filter (\<lambda>x. x \<le> b) xs)"

lemma sum_take_at_most:
  assumes "i < 16"
  shows "sum_list (take (Suc i) (hist_of xs)) = at_most xs (kLatencyBucketUpperMs ! i)"
  using assms sum_take_hist_of [of "Suc i" xs]
  by (simp add: at_most_def less_Suc_eq_le BucketIndex_le)

section \<open>Properties\<close>

text \<open>
  The 95th read percentile that a snapshot reports after any sequence of latencies is a
  bucket bound; at least 95% of the latencies are within it (unless it is the last bound,
  which caps the histogram), and fewer than 95% are within any smaller bound.
\<close>

lemma p95_read_percentile:
  assumes "xs \<noteq> []" and "length xs < 2 ^ 64"
  shows "let v = ss_p95_read_ms (metrics_Snapshot (fold RecordReadLatency xs new_Metrics)) in
    v \<in> set kLatencyBucketUpperMs \<and>
    (real (length xs) * 0.95 \<le> real (at_most xs v) \<or> v = 3200) \<and>
    (\<forall>u \<in> set kLatencyBucketUpperMs. u < v \<longrightarrow> real (at_most xs u) < real (length xs) * 0.95)"
proof -
  define t where "t = nat \<lceil>real (length xs) * 0.95\<rceil>"
  have "t \<le> length xs" unfolding t_def by (simp add: ceiling_le_iff)
  then have t: "unat (of_nat t :: u64) = t" using assms(2) by (simp add: unat_of_nat)
  have t_le: "t \<le> n \<longleftrightarrow> real (length xs) * 0.95 \<le> real n" for n
    unfolding t_def by (simp add: nat_le_iff ceiling_le_iff)
  define v where "v = ss_p95_read_ms (metrics_Snapshot (fold RecordReadLatency xs new_Metrics))"
  have "sum_list (map of_nat (hist_of xs)) = (of_nat (length xs) :: u64)"
    by (simp add: sum_list_map_of_nat sum_hist_of)
  moreover have n: "unat (of_nat (length xs) :: u64) = length xs"
    using assms(2) by (simp add: unat_of_nat)
  moreover from n have "(of_nat (length xs) :: u64) \<noteq> 0"
    using assms(1) by (metis length_0_conv unat_0)
  ultimately have v: "v = p95_scan (map of_nat (hist_of xs)) kLatencyBucketUpperMs (of_nat 0) (of_nat t)"
    by (simp add: v_def metrics_Snapshot_def read_hist ComputeP95_def Let_def t_def)
  have "length (hist_of xs) = 17" by (simp add: hist_of_def)
  with p95_scan_first [of 0 "hist_of xs" kLatencyBucketUpperMs "of_nat t"] assms(2)
  consider i where "i < 16" "v = kLatencyBucketUpperMs ! i"
      "t \<le> at_most xs (kLatencyBucketUpperMs ! i)"
      "\<forall>j < i. at_most xs (kLatencyBucketUpperMs ! j) < t"
    | "v = kLatencyBucketUpperMs ! 15"
      "\<forall>j < 16. at_most xs (kLatencyBucketUpperMs ! j) < t"
    by (auto simp: v t sum_hist_of sum_take_at_most last_conv_nth
        simp flip: length_0_conv)
  then show ?thesis
    unfolding v_def [symmetric] Let_def
  proof cases
    case 1
    have "u < v \<Longrightarrow> u \<in> set kLatencyBucketUpperMs \<Longrightarrow> at_most xs u < t" for u
      using 1 bounds_sorted unfolding in_set_conv_nth
      by (metis length_bounds linorder_neqE_nat order_less_asym sorted_wrt_nth_less)
    with 1 t_le show "v \<in> set kLatencyBucketUpperMs \<and>
        (real (length xs) * 0.95 \<le> real (at_most xs v) \<or> v = 3200) \<and>
        (\<forall>u \<in> set kLatencyBucketUpperMs. u < v \<longrightarrow> real (at_most xs u) < real (length xs) * 0.95)"
      by (metis length_bounds not_le nth_mem)
  next
    case 2
    have "u \<in> set kLatencyBucketUpperMs \<Longrightarrow> at_most xs u < t" for u
      using 2 unfolding in_set_conv_nth by auto
    moreover have "v = 3200" using 2 by (simp add: kLatencyBucketUpperMs_def)
    moreover have "v \<in> set kLatencyBucketUpperMs" using 2 by simp
    ultimately show "v \<in> set kLatencyBucketUpperMs \<and>
        (real (length xs) * 0.95 \<le> real (at_most xs v) \<or> v = 3200) \<and>
        (\<forall>u \<in> set kLatencyBucketUpperMs. u < v \<longrightarrow> real (at_most xs u) < real (length xs) * 0.95)"
      using t_le by (metis not_le)
  qed
qed

theorem p95_read_percentile_witness:
  "let v = ss_p95_read_ms (metrics_Snapshot (fold RecordReadLatency [3, 0.4, 7] new_Metrics)) in
     v \<in> set kLatencyBucketUpperMs \<and> (3 * 0.95 \<le> real (at_most [3, 0.4, 7] v) \<or> v = 3200)"
  using p95_read_percentile [of "[3, 0.4, 7]"] by (simp add: Let_def)

text \<open>
  Both ratios of a snapshot lie in the unit interval as long as no counter has wrapped
  past the other: the fallback rate always counts a subset of the decisions, and a token
  reduction is only reported when the context did not grow.
\<close>

lemma metrics_ratios:
  assumes "fallback_used m \<le> fallback_total m"
  shows "ss_fallback_rate (metrics_Snapshot m) \<in> {0..1} \<and>
    ss_token_reduction_ratio (metrics_Snapshot m) \<in> {0..1}"
proof -
  have frac: "real a / real b \<in> {0..1}" if "a \<le> b" for a b :: nat
    using that by (cases "b = 0") auto
  have "unat (fallback_used m) \<le> unat (fallback_total m)"
    using assms by (simp add: word_le_nat_alt)
  moreover have "unat (token_before m - token_after m) \<le> unat (token_before m)"
    if "token_after m \<le> token_before m"
    using that by (simp add: unat_sub)
  ultimately show ?thesis
    using frac [of "unat (fallback_used m)" "unat (fallback_total m)"]
      frac [of "unat (token_before m - token_after m)" "unat (token_before m)"]
    by (simp only: metrics_Snapshot_def StatsSnapshot.select_convs StatsSnapshot.update_convs
        default_StatsSnapshot_def) auto
qed

theorem metrics_ratios_witness:
  "ss_fallback_rate (metrics_Snapshot
     (RecordFallback True (RecordFallback False new_Metrics))) \<in> {0..1}"
  using metrics_ratios [of "RecordFallback True (RecordFallback False new_Metrics)"]
  by (simp add: RecordFallback_def new_Metrics_def Let_def)

end
