(* ===== verification/Store.thy ===== *)
theory Store
  imports Model_Types
begin

text \<open>
  \<open>include/pgmem/store/store_adapter.h\<close> and \<open>src/store/in_memory_store_adapter.cpp\<close>.

  \<open>store_ops\<close> is the virtual interface \<open>IStoreAdapter\<close>.  The locale \<open>store_adapter\<close> says
  what a call that reports success has done to the abstract store, a map from name space
  and key to value and timestamp, for the name spaces that the adapter can tell apart and for scans
  without a limit;
  \<open>reliable_writes\<close> and \<open>reliable_store\<close> extend it with calls that never fail.
  The in-memory adapter with its 32 hash shards is an instance of all three.
  \<open>std::hash<std::string>\<close> and \<open>sizeof(StoredValue)\<close> are fields of \<open>mem_env\<close>.  Each call
  locks the shards it touches, so it is one atomic step of the model.  An \<open>error\<close> out-parameter
  is a second result, empty when the call does not set it.
\<close>

section \<open>The interface\<close>

record 's store_ops =
  so_Put :: "string \<Rightarrow> string \<Rightarrow> string \<Rightarrow> u64 \<Rightarrow> 's \<Rightarrow> 's \<times> StoreResult"
  so_Get :: "'s \<Rightarrow> string \<Rightarrow> string \<Rightarrow> GetResult"
  so_Delete :: "string \<Rightarrow> string \<Rightarrow> u64 \<Rightarrow> 's \<Rightarrow> 's \<times> StoreResult"
  so_Scan :: "'s \<Rightarrow> string \<Rightarrow> string \<Rightarrow> string \<Rightarrow> u64 \<Rightarrow> KeyValueEntry list \<times> string"
  so_BatchWrite :: "WriteEntry list \<Rightarrow> 's \<Rightarrow> 's \<times> StoreResult"
  so_ApproximateUsage :: "'s \<Rightarrow> StoreUsage \<times> string"
  so_TriggerStoreCompactAsync :: "'s \<Rightarrow> 's \<times> StoreCompactTriggerResult"

type_synonym store_view = "string \<Rightarrow> string \<Rightarrow> (string \<times> u64) option"

definition view_put :: "string \<Rightarrow> string \<Rightarrow> string \<Rightarrow> u64 \<Rightarrow> store_view \<Rightarrow> store_view" where
  "view_put ns key val ts w = w(ns := (w ns)(key \<mapsto> (val, ts)))"

definition view_delete :: "string \<Rightarrow> string \<Rightarrow> store_view \<Rightarrow> store_view" where
  "view_delete ns key w = w(ns := (w ns)(key := None))"

definition view_apply :: "WriteEntry \<Rightarrow> store_view \<Rightarrow> store_view" where
  "view_apply we w =
     (case we_op we of
        WUpsert \<Rightarrow> view_put (kv_name_space (we_entry we)) (kv_key (we_entry we))
                    (kv_value (we_entry we)) (kv_ts (we_entry we)) w
      | WDelete \<Rightarrow> view_delete (kv_name_space (we_entry we)) (kv_key (we_entry we)) w)"

definition in_range :: "string \<Rightarrow> string \<Rightarrow> string \<Rightarrow> bool" where
  "in_range b e key \<longleftrightarrow> b \<le> key \<and> (e = [] \<or> key < e)"

text \<open>
  A scan lists, in key order and each key once, entries of the range; all of them when there
  is no limit or it is not reached, and otherwise the first ones.
\<close>

definition scan_spec :: "store_view \<Rightarrow> string \<Rightarrow> string \<Rightarrow> string \<Rightarrow> u64 \<Rightarrow> KeyValueEntry list \<Rightarrow> bool" where
  "scan_spec w ns b e limit out \<longleftrightarrow>
     (\<exists>all. set all = {\<lparr> kv_name_space = ns, kv_key = key, kv_value = val, kv_ts = ts \<rparr> |key val ts.
                         w ns key = Some (val, ts) \<and> in_range b e key} \<and>
        sorted_wrt (\<lambda>x y. kv_key x < kv_key y) all \<and>
        out = (if limit = 0 then all else take (unat limit) all))"

locale store_adapter =
  fixes ops :: "'s store_ops"
    and inv :: "'s \<Rightarrow> bool"
    and view :: "'s \<Rightarrow> store_view"
    and nsok :: "string \<Rightarrow> bool"
  assumes Put_inv: "nsok ns \<Longrightarrow> inv s \<Longrightarrow> inv (fst (so_Put ops ns key val ts s))"
    and Put_view: "nsok ns \<Longrightarrow> inv s \<Longrightarrow> so_Put ops ns key val ts s = (s', res) \<Longrightarrow> sr_ok res \<Longrightarrow>
      view s' = view_put ns key val ts (view s)"
    and Delete_inv: "nsok ns \<Longrightarrow> inv s \<Longrightarrow> inv (fst (so_Delete ops ns key ts s))"
    and Delete_view: "nsok ns \<Longrightarrow> inv s \<Longrightarrow> so_Delete ops ns key ts s = (s', res) \<Longrightarrow> sr_ok res \<Longrightarrow>
      view s' = view_delete ns key (view s)"
    and Get_view: "nsok ns \<Longrightarrow> inv s \<Longrightarrow> gr_error (so_Get ops s ns key) = [] \<Longrightarrow>
      view s ns key = None \<and> \<not> gr_found (so_Get ops s ns key) \<or>
      (\<exists>ts. view s ns key = Some (gr_value (so_Get ops s ns key), ts) \<and>
        gr_found (so_Get ops s ns key))"
    and Scan_view: "nsok ns \<Longrightarrow> inv s \<Longrightarrow> so_Scan ops s ns b e 0 = (out, []) \<Longrightarrow>
      scan_spec (view s) ns b e 0 out"
    and BatchWrite_inv: "list_all (\<lambda>w. nsok (kv_name_space (we_entry w))) entries \<Longrightarrow> inv s \<Longrightarrow> inv (fst (so_BatchWrite ops entries s))"
    and BatchWrite_view: "list_all (\<lambda>w. nsok (kv_name_space (we_entry w))) entries \<Longrightarrow> inv s \<Longrightarrow>
      so_BatchWrite ops entries s = (s', res) \<Longrightarrow> sr_ok res \<Longrightarrow>
      view s' = fold view_apply entries (view s)"
begin

lemma Get_after_Put:
  assumes ns: "nsok ns" and "inv s" "so_Put ops ns key val ts s = (s', res)" "sr_ok res"
    "gr_error (so_Get ops s' ns key) = []"
  shows "gr_found (so_Get ops s' ns key) \<and> gr_value (so_Get ops s' ns key) = val"
proof -
  have "inv s'" using Put_inv [OF assms(1,2), of key val ts] assms(3) by simp
  moreover have "view s' ns key = Some (val, ts)"
    using Put_view [OF assms(1-4)] by (simp add: view_put_def)
  ultimately show ?thesis using Get_view [OF ns _ assms(5)] by auto
qed

end

text \<open>Writes and reads of one key that never fail; a scan still may.\<close>

locale reliable_writes = store_adapter ops inv view nsok
  for ops :: "'s store_ops" and inv :: "'s \<Rightarrow> bool" and view :: "'s \<Rightarrow> store_view"
    and nsok :: "string \<Rightarrow> bool" +
  assumes Put_ok: "inv s \<Longrightarrow> sr_ok (snd (so_Put ops ns key val ts s))"
    and Delete_ok: "inv s \<Longrightarrow> sr_ok (snd (so_Delete ops ns key ts s))"
    and BatchWrite_ok: "inv s \<Longrightarrow> sr_ok (snd (so_BatchWrite ops entries s))"
    and Get_ok: "inv s \<Longrightarrow> gr_error (so_Get ops s ns key) = []"
begin

lemma reliable_Put:
  "nsok ns \<Longrightarrow> inv s \<Longrightarrow> view (fst (so_Put ops ns key val ts s)) = view_put ns key val ts (view s)"
  by (metis Put_ok Put_view prod.collapse)

lemma reliable_BatchWrite:
  "list_all (\<lambda>w. nsok (kv_name_space (we_entry w))) entries \<Longrightarrow> inv s \<Longrightarrow>
   view (fst (so_BatchWrite ops entries s)) = fold view_apply entries (view s)"
  by (metis BatchWrite_ok BatchWrite_view prod.collapse)

end

locale reliable_store = reliable_writes ops inv view nsok
  for ops :: "'s store_ops" and inv :: "'s \<Rightarrow> bool" and view :: "'s \<Rightarrow> store_view"
    and nsok :: "string \<Rightarrow> bool" +
  assumes Scan_ok: "inv s \<Longrightarrow> snd (so_Scan ops s ns b e 0) = []"
begin

lemma reliable_Scan: "nsok ns \<Longrightarrow> inv s \<Longrightarrow> scan_spec (view s) ns b e 0 (fst (so_Scan ops s ns b e 0))"
  by (metis Scan_ok Scan_view prod.collapse)

end

section \<open>The in-memory adapter\<close>

record StoredValue =
  sv_value :: string
  sv_ts :: u64

type_synonym shard_db = "(string, (string, StoredValue) omap) umap"

record InMemoryStoreAdapter =
  shards :: "shard_db list"
  approx_mem_used_bytes :: u64
  approx_item_count :: u64

record mem_env =
  std_hash :: "string \<Rightarrow> u64"
  sizeof_StoredValue :: u64

definition kShardCount :: nat where
  "kShardCount = 32"

definition CreateInMemoryStoreAdapter :: InMemoryStoreAdapter where
  "CreateInMemoryStoreAdapter =
     \<lparr> shards = replicate kShardCount [], approx_mem_used_bytes = 0, approx_item_count = 0 \<rparr>"

definition EntryFootprintBytes :: "mem_env \<Rightarrow> string \<Rightarrow> string \<Rightarrow> string \<Rightarrow> u64" where
  "EntryFootprintBytes E ns key val =
     of_nat (length ns) + of_nat (length key) + of_nat (length val) + sizeof_StoredValue E"

definition ShardIndex :: "mem_env \<Rightarrow> string \<Rightarrow> string \<Rightarrow> nat" where
  "ShardIndex E ns key = unat (std_hash E (ns @ '':'' @ key)) mod kShardCount"

definition UpsertLocked :: "mem_env \<Rightarrow> nat \<Rightarrow> string \<Rightarrow> string \<Rightarrow> string \<Rightarrow> u64 \<Rightarrow>
    InMemoryStoreAdapter \<Rightarrow> InMemoryStoreAdapter" where
  "UpsertLocked E idx ns key val ts s =
     (let db = shards s ! idx;
          ns_map = (case map_of db ns of None \<Rightarrow> [] | Some m \<Rightarrow> m);
          new_bytes = EntryFootprintBytes E ns key val;
          s' = s\<lparr> shards := (shards s)[idx :=
                   umap_put ns (omap_put key \<lparr> sv_value = val, sv_ts = ts \<rparr> ns_map) db] \<rparr>
      in case map_of ns_map key of
           None \<Rightarrow> s'\<lparr> approx_item_count := approx_item_count s + 1,
                      approx_mem_used_bytes := approx_mem_used_bytes s + new_bytes \<rparr>
         | Some existing \<Rightarrow>
             (let old_bytes = EntryFootprintBytes E ns key (sv_value existing) in
              if old_bytes \<le> new_bytes
              then s'\<lparr> approx_mem_used_bytes := approx_mem_used_bytes s + (new_bytes - old_bytes) \<rparr>
              else s'\<lparr> approx_mem_used_bytes := approx_mem_used_bytes s - (old_bytes - new_bytes) \<rparr>))"

definition DeleteLocked :: "mem_env \<Rightarrow> nat \<Rightarrow> string \<Rightarrow> string \<Rightarrow> InMemoryStoreAdapter \<Rightarrow>
    InMemoryStoreAdapter" where
  "DeleteLocked E idx ns key s =
     (let db = shards s ! idx in
      case map_of db ns of
        None \<Rightarrow> s
      | Some ns_map \<Rightarrow>
          (case map_of ns_map key of
             None \<Rightarrow> s
           | Some sv \<Rightarrow>
               (let old_bytes = EntryFootprintBytes E ns key (sv_value sv);
                    ns_map = umap_erase key ns_map;
                    db = (if ns_map = [] then umap_erase ns db else umap_put ns ns_map db)
                in s\<lparr> shards := (shards s)[idx := db],
                      approx_item_count := approx_item_count s - 1,
                      approx_mem_used_bytes := approx_mem_used_bytes s - old_bytes \<rparr>)))"

definition mem_Put :: "mem_env \<Rightarrow> string \<Rightarrow> string \<Rightarrow> string \<Rightarrow> u64 \<Rightarrow> InMemoryStoreAdapter \<Rightarrow>
    InMemoryStoreAdapter \<times> StoreResult" where
  "mem_Put E ns key val ts s =
     (UpsertLocked E (ShardIndex E ns key) ns key val ts s, \<lparr> sr_ok = True, sr_error = '''' \<rparr>)"

definition mem_Get :: "mem_env \<Rightarrow> InMemoryStoreAdapter \<Rightarrow> string \<Rightarrow> string \<Rightarrow> GetResult" where
  "mem_Get E s ns key =
     (case map_of (shards s ! ShardIndex E ns key) ns of
        None \<Rightarrow> \<lparr> gr_found = False, gr_value = '''', gr_error = '''' \<rparr>
      | Some ns_map \<Rightarrow>
          (case map_of ns_map key of
             None \<Rightarrow> \<lparr> gr_found = False, gr_value = '''', gr_error = '''' \<rparr>
           | Some sv \<Rightarrow> \<lparr> gr_found = True, gr_value = sv_value sv, gr_error = '''' \<rparr>))"

definition mem_Delete :: "mem_env \<Rightarrow> string \<Rightarrow> string \<Rightarrow> u64 \<Rightarrow> InMemoryStoreAdapter \<Rightarrow>
    InMemoryStoreAdapter \<times> StoreResult" where
  "mem_Delete E ns key ts s =
     (DeleteLocked E (ShardIndex E ns key) ns key s, \<lparr> sr_ok = True, sr_error = '''' \<rparr>)"

definition entry_less :: "KeyValueEntry \<Rightarrow> KeyValueEntry \<Rightarrow> bool" where
  "entry_less lhs rhs \<longleftrightarrow>
     (if kv_key lhs = kv_key rhs then kv_ts lhs > kv_ts rhs else kv_key lhs < kv_key rhs)"

definition shard_scan :: "string \<Rightarrow> string \<Rightarrow> string \<Rightarrow> shard_db \<Rightarrow> KeyValueEntry list" where
  "shard_scan ns b e db =
     (case map_of db ns of
        None \<Rightarrow> []
      | Some ns_map \<Rightarrow>
          map (\<lambda>(key, sv). \<lparr> kv_name_space = ns, kv_key = key, kv_value = sv_value sv,
                             kv_ts = sv_ts sv \<rparr>)
            (takeWhile (\<lambda>p. \<not> (e \<noteq> [] \<and> e \<le> fst p)) (dropWhile (\<lambda>p. fst p < b) ns_map)))"

definition mem_Scan :: "InMemoryStoreAdapter \<Rightarrow> string \<Rightarrow> string \<Rightarrow> string \<Rightarrow> u64 \<Rightarrow>
    KeyValueEntry list \<times> string" where
  "mem_Scan s ns b e limit =
     (let out = sort_by entry_less (concat (map (shard_scan ns b e) (shards s))) in
      (if 0 < limit \<and> unat limit < length out then take (unat limit) out else out, ''''))"

fun mem_BatchWrite :: "mem_env \<Rightarrow> WriteEntry list \<Rightarrow> InMemoryStoreAdapter \<Rightarrow>
    InMemoryStoreAdapter \<times> StoreResult" where
  "mem_BatchWrite E [] s = (s, \<lparr> sr_ok = True, sr_error = '''' \<rparr>)"
| "mem_BatchWrite E (we # entries) s =
     (let (s, res) =
        (case we_op we of
           WDelete \<Rightarrow> mem_Delete E (kv_name_space (we_entry we)) (kv_key (we_entry we))
                       (kv_ts (we_entry we)) s
         | WUpsert \<Rightarrow> mem_Put E (kv_name_space (we_entry we)) (kv_key (we_entry we))
                       (kv_value (we_entry we)) (kv_ts (we_entry we)) s)
      in if \<not> sr_ok res then (s, res) else mem_BatchWrite E entries s)"

definition mem_ApproximateUsage :: "InMemoryStoreAdapter \<Rightarrow> StoreUsage \<times> string" where
  "mem_ApproximateUsage s =
     (\<lparr> su_mem_used_bytes = approx_mem_used_bytes s, su_disk_used_bytes = 0,
        su_item_count = approx_item_count s \<rparr>, '''')"

definition default_TriggerStoreCompactAsync :: "'s \<Rightarrow> 's \<times> StoreCompactTriggerResult" where
  "default_TriggerStoreCompactAsync s =
     (s, \<lparr> ct_triggered = False, ct_noop = True, ct_busy = False, ct_async = True,
           ct_partition_count = 0, ct_message = ''store compact noop for backend'' \<rparr>)"

definition mem_ops :: "mem_env \<Rightarrow> InMemoryStoreAdapter store_ops" where
  "mem_ops E =
     \<lparr> so_Put = mem_Put E, so_Get = mem_Get E, so_Delete = mem_Delete E, so_Scan = mem_Scan,
       so_BatchWrite = mem_BatchWrite E, so_ApproximateUsage = mem_ApproximateUsage,
       so_TriggerStoreCompactAsync = default_TriggerStoreCompactAsync \<rparr>"

subsection \<open>One shard\<close>

definition nsmap :: "shard_db \<Rightarrow> string \<Rightarrow> (string, StoredValue) omap" where
  "nsmap db ns = (case map_of db ns of None \<Rightarrow> [] | Some m \<Rightarrow> m)"

definition db_lookup :: "shard_db \<Rightarrow> string \<Rightarrow> string \<Rightarrow> StoredValue option" where
  "db_lookup db ns key = map_of (nsmap db ns) key"

definition db_put :: "string \<Rightarrow> string \<Rightarrow> StoredValue \<Rightarrow> shard_db \<Rightarrow> shard_db" where
  "db_put ns key sv db = umap_put ns (omap_put key sv (nsmap db ns)) db"

definition db_del :: "string \<Rightarrow> string \<Rightarrow> shard_db \<Rightarrow> shard_db" where
  "db_del ns key db =
     (if umap_erase key (nsmap db ns) = [] then umap_erase ns db
      else umap_put ns (umap_erase key (nsmap db ns)) db)"

definition db_ok :: "(string \<Rightarrow> string \<Rightarrow> bool) \<Rightarrow> shard_db \<Rightarrow> bool" where
  "db_ok P db \<longleftrightarrow> umap_ok db \<and>
     (\<forall>(ns, m) \<in> set db. omap_ok m \<and> m \<noteq> [] \<and> (\<forall>(key, sv) \<in> set m. P ns key))"

definition ns_sum :: "(string \<Rightarrow> string \<Rightarrow> StoredValue \<Rightarrow> 'a::comm_monoid_add) \<Rightarrow> string \<Rightarrow>
    (string, StoredValue) omap \<Rightarrow> 'a" where
  "ns_sum f ns m = umap_sum (\<lambda>q. f ns (fst q) (snd q)) m"

definition db_sum :: "(string \<Rightarrow> string \<Rightarrow> StoredValue \<Rightarrow> 'a::comm_monoid_add) \<Rightarrow> shard_db \<Rightarrow> 'a" where
  "db_sum f db = umap_sum (\<lambda>p. ns_sum f (fst p) (snd p)) db"

text \<open>A change of one part, carried over to a total.\<close>

lemma cancel_step:
  fixes A :: "'a::cancel_comm_monoid_add"
  assumes "A' + g = A + g'" "g' + old = g + x"
  shows "A' + old = A + x"
proof -
  have "A' + old + g = A + x + g" by (metis assms add.assoc add.commute)
  then show ?thesis by (simp only: add_right_cancel)
qed

lemma nsmap_put: "nsmap (db_put ns key sv db) ns' =
    (if ns' = ns then omap_put key sv (nsmap db ns) else nsmap db ns')"
  by (simp add: nsmap_def db_put_def umap_simps)

lemma nsmap_del: "nsmap (db_del ns key db) ns' =
    (if ns' = ns then umap_erase key (nsmap db ns) else nsmap db ns')"
  by (simp add: nsmap_def db_del_def umap_simps)

lemma db_lookup_put: "db_lookup (db_put ns key sv db) ns' key' =
    (if ns' = ns \<and> key' = key then Some sv else db_lookup db ns' key')"
  by (simp add: db_lookup_def nsmap_put umap_simps)

lemma db_lookup_del: "db_lookup (db_del ns key db) ns' key' =
    (if ns' = ns \<and> key' = key then None else db_lookup db ns' key')"
  by (simp add: db_lookup_def nsmap_del umap_simps)

lemma db_ok_nsmap:
  assumes "db_ok P db"
  shows "omap_ok (nsmap db ns)" "(key, sv) \<in> set (nsmap db ns) \<Longrightarrow> P ns key"
  using assms by (auto simp: db_ok_def nsmap_def dest!: map_of_SomeD split: option.splits)

lemma omap_put_nonempty: "omap_put k v m \<noteq> []"
  by (cases m) (auto split: if_splits)

lemma set_omap_put: "p \<in> set (omap_put k v m) \<Longrightarrow> p = (k, v) \<or> p \<in> set m"
  by (induction m) (auto split: if_splits)

lemma db_ok_put:
  assumes "db_ok P db" "P ns key"
  shows "db_ok P (db_put ns key sv db)"
proof -
  have "\<forall>(k, w) \<in> set (omap_put key sv (nsmap db ns)). P ns k"
    using db_ok_nsmap(2) [OF assms(1), of _ _ ns] assms(2) by (auto dest!: set_omap_put)
  with assms db_ok_nsmap(1) [OF assms(1), of ns] show ?thesis
    by (auto simp: db_ok_def db_put_def set_umap_put omap_put_nonempty)
qed

lemma db_ok_del:
  assumes "db_ok P db"
  shows "db_ok P (db_del ns key db)"
proof -
  have "\<forall>(k, w) \<in> set (umap_erase key (nsmap db ns)). P ns k"
    using db_ok_nsmap(2) [OF assms, of _ _ ns] by (auto simp: set_umap_erase)
  with assms db_ok_nsmap(1) [OF assms, of ns] show ?thesis
    by (auto simp: db_ok_def db_del_def set_umap_put set_umap_erase)
qed

lemma db_sum_nsmap:
  "(case map_of db ns of None \<Rightarrow> 0 | Some m \<Rightarrow> ns_sum f (fst (ns, m)) (snd (ns, m))) =
     ns_sum f ns (nsmap db ns)"
  by (simp add: nsmap_def ns_sum_def split: option.splits)

lemma ns_sum_Nil [simp]: "ns_sum f ns [] = 0"
  by (simp add: ns_sum_def)

lemma db_sum_put:
  fixes f :: "string \<Rightarrow> string \<Rightarrow> StoredValue \<Rightarrow> 'a::cancel_comm_monoid_add"
  assumes "db_ok P db"
  shows "db_sum f (db_put ns key sv db) +
      (case db_lookup db ns key of None \<Rightarrow> 0 | Some old \<Rightarrow> f ns key old) =
    db_sum f db + f ns key sv"
proof (rule cancel_step)
  have ok: "umap_ok db" using assms by (simp add: db_ok_def)
  show "db_sum f (db_put ns key sv db) + ns_sum f ns (nsmap db ns) =
      db_sum f db + ns_sum f ns (omap_put key sv (nsmap db ns))"
    using umap_sum_put [OF ok, of "\<lambda>p. ns_sum f (fst p) (snd p)" ns "omap_put key sv (nsmap db ns)"]
    by (simp add: db_sum_def db_put_def db_sum_nsmap)
  show "ns_sum f ns (omap_put key sv (nsmap db ns)) +
      (case db_lookup db ns key of None \<Rightarrow> 0 | Some old \<Rightarrow> f ns key old) =
    ns_sum f ns (nsmap db ns) + f ns key sv"
    using omap_sum_put [OF db_ok_nsmap(1) [OF assms], of "\<lambda>q. f ns (fst q) (snd q)" key sv ns]
    by (simp add: db_lookup_def ns_sum_def cong: option.case_cong)
qed

lemma db_sum_del:
  fixes f :: "string \<Rightarrow> string \<Rightarrow> StoredValue \<Rightarrow> 'a::cancel_comm_monoid_add"
  assumes "db_ok P db"
  shows "db_sum f (db_del ns key db) +
      (case db_lookup db ns key of None \<Rightarrow> 0 | Some old \<Rightarrow> f ns key old) = db_sum f db + 0"
proof (rule cancel_step)
  have ok: "umap_ok db" using assms by (simp add: db_ok_def)
  show "db_sum f (db_del ns key db) + ns_sum f ns (nsmap db ns) =
      db_sum f db + ns_sum f ns (umap_erase key (nsmap db ns))"
  proof (cases "umap_erase key (nsmap db ns) = []")
    case True
    with umap_sum_erase [OF ok, of "\<lambda>p. ns_sum f (fst p) (snd p)" ns]
    show ?thesis by (simp add: db_sum_def db_del_def db_sum_nsmap)
  next
    case False
    with umap_sum_put [OF ok, of "\<lambda>p. ns_sum f (fst p) (snd p)" ns "umap_erase key (nsmap db ns)"]
    show ?thesis by (simp add: db_sum_def db_del_def db_sum_nsmap)
  qed
  show "ns_sum f ns (umap_erase key (nsmap db ns)) +
      (case db_lookup db ns key of None \<Rightarrow> 0 | Some old \<Rightarrow> f ns key old) =
    ns_sum f ns (nsmap db ns) + 0"
    using umap_sum_erase [OF omap_ok_distinct [OF db_ok_nsmap(1) [OF assms]],
        of "\<lambda>q. f ns (fst q) (snd q)" key ns]
    by (simp add: db_lookup_def ns_sum_def cong: option.case_cong)
qed

subsection \<open>All shards\<close>

definition store_sum :: "(string \<Rightarrow> string \<Rightarrow> StoredValue \<Rightarrow> 'a::comm_monoid_add) \<Rightarrow>
    InMemoryStoreAdapter \<Rightarrow> 'a" where
  "store_sum f s = sum_list (map (db_sum f) (shards s))"

definition mem_lookup :: "mem_env \<Rightarrow> InMemoryStoreAdapter \<Rightarrow> string \<Rightarrow> string \<Rightarrow> StoredValue option" where
  "mem_lookup E s ns key = db_lookup (shards s ! ShardIndex E ns key) ns key"

definition mem_view :: "mem_env \<Rightarrow> InMemoryStoreAdapter \<Rightarrow> store_view" where
  "mem_view E s ns key = map_option (\<lambda>sv. (sv_value sv, sv_ts sv)) (mem_lookup E s ns key)"

definition shards_ok :: "mem_env \<Rightarrow> shard_db list \<Rightarrow> bool" where
  "shards_ok E dbs \<longleftrightarrow> length dbs = kShardCount \<and>
     (\<forall>i < kShardCount. db_ok (\<lambda>ns key. ShardIndex E ns key = i) (dbs ! i))"

text \<open>The counters are exact: the number of entries and the sum of their footprints.\<close>

definition mem_inv :: "mem_env \<Rightarrow> InMemoryStoreAdapter \<Rightarrow> bool" where
  "mem_inv E s \<longleftrightarrow> shards_ok E (shards s) \<and>
     approx_item_count s = store_sum (\<lambda>_ _ _. 1) s \<and>
     approx_mem_used_bytes s = store_sum (\<lambda>ns key sv. EntryFootprintBytes E ns key (sv_value sv)) s"

lemma ShardIndex_less [simp]: "ShardIndex E ns key < kShardCount"
  by (simp add: ShardIndex_def kShardCount_def)

lemma sum_list_update:
  fixes g :: "'b \<Rightarrow> 'a::comm_monoid_add"
  shows "i < length xs \<Longrightarrow> sum_list (map g (xs[i := y])) + g (xs ! i) = sum_list (map g xs) + g y"
proof (induction xs arbitrary: i)
  case (Cons x xs)
  then show ?case by (cases i) (auto simp: add_ac)
qed simp

lemma UpsertLocked_shards:
  "shards (UpsertLocked E idx ns key val ts s) =
     (shards s)[idx := db_put ns key \<lparr> sv_value = val, sv_ts = ts \<rparr> (shards s ! idx)]"
  by (auto simp: UpsertLocked_def db_put_def nsmap_def Let_def split: option.splits)

lemma UpsertLocked_counters:
  "approx_item_count (UpsertLocked E idx ns key val ts s) =
     approx_item_count s + (case db_lookup (shards s ! idx) ns key of None \<Rightarrow> 1 | Some _ \<Rightarrow> 0)"
  "approx_mem_used_bytes (UpsertLocked E idx ns key val ts s) =
     approx_mem_used_bytes s + EntryFootprintBytes E ns key val -
       (case db_lookup (shards s ! idx) ns key of None \<Rightarrow> 0
        | Some old \<Rightarrow> EntryFootprintBytes E ns key (sv_value old))"
  by (auto simp: UpsertLocked_def db_lookup_def nsmap_def Let_def split: option.splits)

lemma DeleteLocked_shards:
  "shards (DeleteLocked E idx ns key s) =
     (case db_lookup (shards s ! idx) ns key of None \<Rightarrow> shards s
      | Some _ \<Rightarrow> (shards s)[idx := db_del ns key (shards s ! idx)])"
  by (auto simp: DeleteLocked_def db_lookup_def db_del_def nsmap_def Let_def split: option.splits)

lemma DeleteLocked_counters:
  "approx_item_count (DeleteLocked E idx ns key s) =
     approx_item_count s - (case db_lookup (shards s ! idx) ns key of None \<Rightarrow> 0 | Some _ \<Rightarrow> 1)"
  "approx_mem_used_bytes (DeleteLocked E idx ns key s) =
     approx_mem_used_bytes s - (case db_lookup (shards s ! idx) ns key of None \<Rightarrow> 0
        | Some old \<Rightarrow> EntryFootprintBytes E ns key (sv_value old))"
  by (auto simp: DeleteLocked_def db_lookup_def nsmap_def Let_def split: option.splits)

lemma shards_ok_nth: "shards_ok E dbs \<Longrightarrow>
    db_ok (\<lambda>ns' key'. ShardIndex E ns' key' = ShardIndex E ns key) (dbs ! ShardIndex E ns key)"
  by (simp add: shards_ok_def)

lemma mem_inv_Upsert:
  fixes ns key :: string
  assumes "mem_inv E s"
  defines "i \<equiv> ShardIndex E ns key"
  shows "mem_inv E (UpsertLocked E i ns key val ts s)"
proof -
  have ok: "shards_ok E (shards s)" using assms(1) by (simp add: mem_inv_def)
  let ?db = "shards s ! i" and ?sv = "\<lparr> sv_value = val, sv_ts = ts \<rparr>"
  have db: "db_ok (\<lambda>ns' key'. ShardIndex E ns' key' = i) ?db"
    using shards_ok_nth [OF ok] by (simp add: i_def)
  have i: "i < length (shards s)" using ok by (simp add: shards_ok_def i_def)
  have sums: "store_sum f (UpsertLocked E i ns key val ts s) +
      (case db_lookup ?db ns key of None \<Rightarrow> 0 | Some old \<Rightarrow> f ns key old) =
    store_sum f s + f ns key ?sv" for f :: "string \<Rightarrow> string \<Rightarrow> StoredValue \<Rightarrow> u64"
    unfolding store_sum_def UpsertLocked_shards
    by (rule cancel_step [OF sum_list_update [OF i] db_sum_put [OF db]])
  have "shards_ok E (shards (UpsertLocked E i ns key val ts s))"
    using ok db_ok_put [OF db, of ns key ?sv]
    by (auto simp: shards_ok_def UpsertLocked_shards nth_list_update i_def)
  then show ?thesis
    using assms(1) sums [of "\<lambda>_ _ _. 1"] sums [of "\<lambda>ns key sv. EntryFootprintBytes E ns key (sv_value sv)"]
    by (auto simp: mem_inv_def UpsertLocked_counters algebra_simps split: option.splits)
qed

lemma mem_inv_DeleteLocked:
  fixes ns key :: string
  assumes "mem_inv E s"
  defines "i \<equiv> ShardIndex E ns key"
  shows "mem_inv E (DeleteLocked E i ns key s)"
proof -
  have ok: "shards_ok E (shards s)" using assms(1) by (simp add: mem_inv_def)
  let ?db = "shards s ! i"
  have db: "db_ok (\<lambda>ns' key'. ShardIndex E ns' key' = i) ?db"
    using shards_ok_nth [OF ok] by (simp add: i_def)
  have i: "i < length (shards s)" using ok by (simp add: shards_ok_def i_def)
  have sums: "store_sum f (DeleteLocked E i ns key s) +
      (case db_lookup ?db ns key of None \<Rightarrow> 0 | Some old \<Rightarrow> f ns key old) = store_sum f s"
    for f :: "string \<Rightarrow> string \<Rightarrow> StoredValue \<Rightarrow> u64"
  proof -
    have "sum_list (map (db_sum f) ((shards s)[i := db_del ns key ?db])) +
        (case db_lookup ?db ns key of None \<Rightarrow> 0 | Some old \<Rightarrow> f ns key old) =
      sum_list (map (db_sum f) (shards s)) + 0"
      by (rule cancel_step [OF sum_list_update [OF i] db_sum_del [OF db]])
    then show ?thesis
      by (cases "db_lookup ?db ns key") (simp_all add: store_sum_def DeleteLocked_shards)
  qed
  have "shards_ok E (shards (DeleteLocked E i ns key s))"
    using ok db_ok_del [OF db, of ns key]
    by (auto simp: shards_ok_def DeleteLocked_shards nth_list_update i_def split: option.splits)
  then show ?thesis
    using assms(1) sums [of "\<lambda>_ _ _. 1"] sums [of "\<lambda>ns key sv. EntryFootprintBytes E ns key (sv_value sv)"]
    by (auto simp: mem_inv_def DeleteLocked_counters algebra_simps split: option.splits)
qed

lemma mem_view_Upsert:
  assumes "mem_inv E s"
  shows "mem_view E (UpsertLocked E (ShardIndex E ns key) ns key val ts s) =
    view_put ns key val ts (mem_view E s)"
proof -
  have "length (shards s) = kShardCount" using assms by (simp add: mem_inv_def shards_ok_def)
  then show ?thesis
    by (auto simp: fun_eq_iff mem_view_def mem_lookup_def view_put_def UpsertLocked_shards
        nth_list_update db_lookup_put)
qed

lemma mem_view_Delete:
  assumes "mem_inv E s"
  shows "mem_view E (DeleteLocked E (ShardIndex E ns key) ns key s) = view_delete ns key (mem_view E s)"
proof -
  have "length (shards s) = kShardCount" using assms by (simp add: mem_inv_def shards_ok_def)
  then show ?thesis
    by (auto simp: fun_eq_iff mem_view_def mem_lookup_def view_delete_def DeleteLocked_shards
        nth_list_update db_lookup_del split: option.splits)
qed

subsection \<open>Scans\<close>

interpretation entry_order: weak_order entry_less
  by unfold_locales (auto simp: entry_less_def split: if_splits)

lemma range_slice:
  fixes m :: "(string, StoredValue) omap"
  assumes "omap_ok m"
  shows "set (takeWhile (\<lambda>p. \<not> (e \<noteq> [] \<and> e \<le> fst p)) (dropWhile (\<lambda>p. fst p < b) m)) =
    {p \<in> set m. in_range b e (fst p)}"
proof (cases "e = []")
  case True
  then have all: "takeWhile (\<lambda>p. \<not> (e \<noteq> [] \<and> e \<le> fst p)) xs = xs"
    for xs :: "(string \<times> StoredValue) list"
    by simp
  show ?thesis
    unfolding all using omap_lower_bound [OF assms, of b] True by (simp add: in_range_def)
next
  case False
  then have "takeWhile (\<lambda>p. \<not> (e \<noteq> [] \<and> e \<le> fst p)) (dropWhile (\<lambda>p. fst p < b) m) =
      takeWhile (\<lambda>p. fst p < e) (dropWhile (\<lambda>p. fst p < b) m)"
    by (simp add: not_le)
  then show ?thesis
    using omap_upper_bound [OF omap_ok_dropWhile [OF assms], of e] omap_lower_bound [OF assms, of b]
      False by (auto simp: in_range_def)
qed

definition kv_entry :: "string \<Rightarrow> string \<times> StoredValue \<Rightarrow> KeyValueEntry" where
  "kv_entry ns p = \<lparr> kv_name_space = ns, kv_key = fst p, kv_value = sv_value (snd p),
                     kv_ts = sv_ts (snd p) \<rparr>"

lemma shard_scan_eq: "shard_scan ns b e db = map (kv_entry ns)
    (takeWhile (\<lambda>p. \<not> (e \<noteq> [] \<and> e \<le> fst p)) (dropWhile (\<lambda>p. fst p < b) (nsmap db ns)))"
  by (simp add: shard_scan_def nsmap_def kv_entry_def case_prod_beta split: option.splits)

lemma set_shard_scan:
  assumes "db_ok P db"
  shows "set (shard_scan ns b e db) =
    {kv_entry ns (key, sv) |key sv. db_lookup db ns key = Some sv \<and> in_range b e key}"
proof -
  have "umap_ok (nsmap db ns)" by (rule omap_ok_distinct [OF db_ok_nsmap(1) [OF assms]])
  then have "p \<in> set (nsmap db ns) \<longleftrightarrow> db_lookup db ns (fst p) = Some (snd p)" for p
    by (simp add: db_lookup_def)
  then show ?thesis
    unfolding shard_scan_eq set_map range_slice [OF db_ok_nsmap(1) [OF assms]] by force
qed

lemma distinct_shard_scan:
  assumes "db_ok P db"
  shows "distinct (map kv_key (shard_scan ns b e db))"
proof -
  have "umap_ok (nsmap db ns)" by (rule omap_ok_distinct [OF db_ok_nsmap(1) [OF assms]])
  then have "umap_ok (takeWhile Q (dropWhile R (nsmap db ns)))" for Q R
    by (metis distinct_append dropWhile_append1 map_append takeWhile_dropWhile_id)
  then show ?thesis by (simp add: shard_scan_eq kv_entry_def o_def)
qed

lemma distinct_map_concat:
  assumes "\<forall>i < length xs. distinct (map g (F (xs ! i))) \<and> (\<forall>y \<in> set (F (xs ! i)). idx (g y) = i + k)"
  shows "distinct (map g (concat (map F xs))) \<and> (\<forall>y \<in> set (concat (map F xs)). k \<le> idx (g y))"
  using assms
proof (induction xs arbitrary: k)
  case Nil
  then show ?case by simp
next
  case (Cons x xs)
  have hd: "distinct (map g (F x))" "\<forall>y \<in> set (F x). idx (g y) = k"
    using Cons.prems [rule_format, of 0] by auto
  have "\<forall>i < length xs. distinct (map g (F (xs ! i))) \<and> (\<forall>y \<in> set (F (xs ! i)). idx (g y) = i + Suc k)"
    using Cons.prems by (auto dest: spec [of _ "Suc _"])
  from Cons.IH [OF this] have tl: "distinct (map g (concat (map F xs)))"
    "\<forall>y \<in> set (concat (map F xs)). Suc k \<le> idx (g y)" by auto
  have "g ` set (F x) \<inter> g ` set (concat (map F xs)) = {}"
    using hd(2) tl(2) by (fastforce simp del: set_concat)
  with hd tl show ?case by (fastforce simp del: set_concat)
qed

definition scan_all :: "InMemoryStoreAdapter \<Rightarrow> string \<Rightarrow> string \<Rightarrow> string \<Rightarrow> KeyValueEntry list" where
  "scan_all s ns b e = concat (map (shard_scan ns b e) (shards s))"

lemma shards_db: "shards_ok E dbs \<Longrightarrow> i < length dbs \<Longrightarrow> db_ok (\<lambda>ns key. ShardIndex E ns key = i) (dbs ! i)"
  by (simp add: shards_ok_def)

lemma db_lookup_shard:
  assumes "shards_ok E dbs" "i < length dbs" "db_lookup (dbs ! i) ns key = Some sv"
  shows "ShardIndex E ns key = i"
  using db_ok_nsmap(2) [OF shards_db [OF assms(1,2)]] assms(3)
  by (auto simp: db_lookup_def dest: map_of_SomeD)

lemma set_scan_all:
  assumes "mem_inv E s"
  shows "set (scan_all s ns b e) = {\<lparr> kv_name_space = ns, kv_key = key, kv_value = val, kv_ts = ts \<rparr>
    |key val ts. mem_view E s ns key = Some (val, ts) \<and> in_range b e key}" (is "?L = ?R")
proof -
  have ok: "shards_ok E (shards s)" using assms by (simp add: mem_inv_def)
  have "?L = (\<Union>i < length (shards s). set (shard_scan ns b e (shards s ! i)))"
    by (force simp: scan_all_def in_set_conv_nth [of _ "shards s"])
  also have "\<dots> = {kv_entry ns (key, sv) |key sv. mem_lookup E s ns key = Some sv \<and> in_range b e key}"
  proof -
    have "(\<exists>i < length (shards s). db_lookup (shards s ! i) ns key = Some sv) \<longleftrightarrow>
        mem_lookup E s ns key = Some sv" for key sv
      using db_lookup_shard [OF ok, of _ ns key sv] ok
      by (auto simp: mem_lookup_def shards_ok_def intro: exI [of _ "ShardIndex E ns key"])
    then have "{kv_entry ns (key, sv) |key sv. (\<exists>i < length (shards s). db_lookup (shards s ! i) ns key = Some sv)
        \<and> in_range b e key} =
      {kv_entry ns (key, sv) |key sv. mem_lookup E s ns key = Some sv \<and> in_range b e key}" by simp
    moreover have "(\<Union>i < length (shards s). set (shard_scan ns b e (shards s ! i))) =
      (\<Union>i < length (shards s). {kv_entry ns (key, sv) |key sv.
         db_lookup (shards s ! i) ns key = Some sv \<and> in_range b e key})"
      by (rule SUP_cong [OF refl], rule set_shard_scan, rule shards_db [OF ok]) simp
    moreover have "(\<Union>i < n. {kv_entry ns (key, sv) |key sv.
         db_lookup (shards s ! i) ns key = Some sv \<and> in_range b e key}) =
      {kv_entry ns (key, sv) |key sv. (\<exists>i < n. db_lookup (shards s ! i) ns key = Some sv)
        \<and> in_range b e key}" for n
      by blast
    ultimately show ?thesis by simp
  qed
  also have "\<dots> = ?R"
    by (force simp: kv_entry_def mem_view_def)
  finally show ?thesis .
qed

lemma distinct_scan_all:
  assumes "mem_inv E s"
  shows "distinct (map kv_key (scan_all s ns b e))"
proof -
  have ok: "shards_ok E (shards s)" using assms by (simp add: mem_inv_def)
  have "\<forall>i < length (shards s). distinct (map kv_key (shard_scan ns b e (shards s ! i))) \<and>
      (\<forall>y \<in> set (shard_scan ns b e (shards s ! i)). ShardIndex E ns (kv_key y) = i + 0)"
    using distinct_shard_scan [OF shards_db [OF ok]] db_lookup_shard [OF ok]
    by (fastforce simp: set_shard_scan [OF shards_db [OF ok]] kv_entry_def)
  from distinct_map_concat [OF this] show ?thesis by (simp add: scan_all_def)
qed

lemma sorted_scan_all:
  assumes "mem_inv E s"
  shows "sorted_wrt (\<lambda>x y. kv_key x < kv_key y) (sort_by entry_less (scan_all s ns b e))"
proof -
  have "sorted_wrt (\<lambda>x y. kv_key x \<le> kv_key y) (sort_by entry_less (scan_all s ns b e))"
    by (rule sorted_wrt_mono_rel [OF _ entry_order.sorted_sort_by])
      (auto simp: entry_less_def split: if_splits)
  then have "sorted (map kv_key (sort_by entry_less (scan_all s ns b e)))"
    by (simp add: sorted_wrt_map)
  moreover have "distinct (map kv_key (sort_by entry_less (scan_all s ns b e)))"
    using distinct_scan_all [OF assms] by simp
  ultimately have "sorted_wrt (<) (map kv_key (sort_by entry_less (scan_all s ns b e)))"
    by (simp only: strict_sorted_iff)
  then show ?thesis by (simp add: sorted_wrt_map)
qed

lemma mem_Scan_spec:
  assumes "mem_inv E s"
  shows "scan_spec (mem_view E s) ns b e limit (fst (mem_Scan s ns b e limit))"
  unfolding scan_spec_def
  by (rule exI [of _ "sort_by entry_less (scan_all s ns b e)"])
    (auto simp: set_scan_all [OF assms] sorted_scan_all [OF assms] mem_Scan_def Let_def
      scan_all_def [symmetric] word_gt_0)

lemma mem_Get_view:
  "mem_Get E s ns key =
     (case mem_view E s ns key of
        None \<Rightarrow> \<lparr> gr_found = False, gr_value = '''', gr_error = '''' \<rparr>
      | Some (val, ts) \<Rightarrow> \<lparr> gr_found = True, gr_value = val, gr_error = '''' \<rparr>)"
  by (simp add: mem_Get_def mem_view_def mem_lookup_def db_lookup_def nsmap_def split: option.splits)

lemma mem_BatchWrite_sound:
  assumes "mem_inv E s"
  shows "mem_inv E (fst (mem_BatchWrite E entries s)) \<and>
    sr_ok (snd (mem_BatchWrite E entries s)) \<and>
    mem_view E (fst (mem_BatchWrite E entries s)) = fold view_apply entries (mem_view E s)"
  using assms
proof (induction entries arbitrary: s)
  case Nil
  then show ?case by simp
next
  case (Cons we entries)
  then show ?case
    by (simp add: mem_Put_def mem_Delete_def view_apply_def mem_inv_Upsert mem_inv_DeleteLocked
        mem_view_Upsert mem_view_Delete Let_def split: WriteOp.split)
qed

lemma mem_BatchWrite_ok: "sr_ok (snd (mem_BatchWrite E entries s))"
  by (induction entries arbitrary: s)
    (auto simp: mem_Put_def mem_Delete_def Let_def split: WriteOp.split prod.splits)

lemma mem_ops_sel [simp]:
  "so_Put (mem_ops E) = mem_Put E" "so_Get (mem_ops E) = mem_Get E"
  "so_Delete (mem_ops E) = mem_Delete E" "so_Scan (mem_ops E) = mem_Scan"
  "so_BatchWrite (mem_ops E) = mem_BatchWrite E"
  "so_ApproximateUsage (mem_ops E) = mem_ApproximateUsage"
  "so_TriggerStoreCompactAsync (mem_ops E) = default_TriggerStoreCompactAsync"
  by (simp_all add: mem_ops_def)

interpretation mem: reliable_store "mem_ops E" "mem_inv E" "mem_view E" "\<lambda>_. True" for E
proof unfold_locales
  fix s ns key val ts s' res b e limit out entries
  assume inv: "mem_inv E s"
  show "mem_inv E (fst (so_Put (mem_ops E) ns key val ts s))"
    "mem_inv E (fst (so_Delete (mem_ops E) ns key ts s))"
    "mem_inv E (fst (so_BatchWrite (mem_ops E) entries s))"
    using inv by (simp_all add: mem_Put_def mem_Delete_def mem_inv_Upsert mem_inv_DeleteLocked
        mem_BatchWrite_sound)
  show "mem_view E s' = view_put ns key val ts (mem_view E s)"
    if "so_Put (mem_ops E) ns key val ts s = (s', res)"
    using inv that by (auto simp: mem_Put_def mem_view_Upsert)
  show "mem_view E s' = view_delete ns key (mem_view E s)"
    if "so_Delete (mem_ops E) ns key ts s = (s', res)"
    using inv that by (auto simp: mem_Delete_def mem_view_Delete)
  show "mem_view E s ns key = None \<and> \<not> gr_found (so_Get (mem_ops E) s ns key) \<or>
      (\<exists>ts. mem_view E s ns key = Some (gr_value (so_Get (mem_ops E) s ns key), ts) \<and>
        gr_found (so_Get (mem_ops E) s ns key))"
    by (auto simp: mem_Get_view split: option.splits)
  show "scan_spec (mem_view E s) ns b e 0 out" if "so_Scan (mem_ops E) s ns b e 0 = (out, [])"
    using mem_Scan_spec [OF inv, of ns b e 0] that by simp
  show "mem_view E s' = fold view_apply entries (mem_view E s)"
    if "so_BatchWrite (mem_ops E) entries s = (s', res)"
    using mem_BatchWrite_sound [OF inv, of entries] that by simp
next
  fix ns key val ts s b e limit entries
  show "sr_ok (snd (so_Put (mem_ops E) ns key val ts s))"
    "sr_ok (snd (so_Delete (mem_ops E) ns key ts s))"
    "gr_error (so_Get (mem_ops E) s ns key) = []"
    "snd (so_Scan (mem_ops E) s ns b e 0) = []"
    by (auto simp: mem_Put_def mem_Delete_def mem_Get_view mem_Scan_def Let_def
        split: option.splits)
  show "sr_ok (snd (so_BatchWrite (mem_ops E) entries s))" by (simp add: mem_BatchWrite_ok)
qed

lemma mem_inv_init: "mem_inv E CreateInMemoryStoreAdapter"
  by (simp add: mem_inv_def shards_ok_def CreateInMemoryStoreAdapter_def kShardCount_def db_ok_def
      store_sum_def db_sum_def sum_list_replicate)

lemma mem_view_init: "mem_view E CreateInMemoryStoreAdapter = (\<lambda>_ _. None)"
  by (simp add: fun_eq_iff mem_view_def mem_lookup_def db_lookup_def nsmap_def
      CreateInMemoryStoreAdapter_def)

subsection \<open>The counters, over the abstract store\<close>

type_synonym mem_entry = "(string \<times> string) \<times> StoredValue"

definition db_entries :: "shard_db \<Rightarrow> mem_entry list" where
  "db_entries db = concat (map (\<lambda>p. map (\<lambda>q. ((fst p, fst q), snd q)) (snd p)) db)"

definition mem_entries :: "InMemoryStoreAdapter \<Rightarrow> mem_entry list" where
  "mem_entries s = concat (map db_entries (shards s))"

lemma sum_list_map_concat: "sum_list (map g (concat xss)) = sum_list (map (\<lambda>xs. sum_list (map g xs)) xss)"
  by (induction xss) auto

lemma store_sum_entries:
  "store_sum f s = sum_list (map (\<lambda>((ns, key), sv). f ns key sv) (mem_entries s))"
  by (simp add: store_sum_def mem_entries_def db_sum_def [abs_def] db_entries_def ns_sum_def
      sum_list_map_concat o_def case_prod_beta)

lemma db_entries_ok:
  assumes "db_ok P db"
  shows "distinct (map fst (db_entries db))"
    "((ns, key), sv) \<in> set (db_entries db) \<longleftrightarrow> db_lookup db ns key = Some sv"
proof -
  have ok: "umap_ok db" using assms by (simp add: db_ok_def)
  have inner: "\<forall>p \<in> set db. umap_ok (snd p)"
    using assms by (fastforce simp: db_ok_def intro!: omap_ok_distinct)
  from ok inner show "distinct (map fst (db_entries db))"
  proof (induction db)
    case (Cons p db)
    have "distinct (map fst (map (\<lambda>q. ((fst p, fst q), snd q)) (snd p)))"
      using Cons.prems by (simp add: o_def distinct_map inj_on_def)
    moreover have "fst ` set (map (\<lambda>q. ((fst p, fst q), snd q)) (snd p)) \<inter> fst ` set (db_entries db) = {}"
    proof (rule equals0I)
      fix x
      assume x: "x \<in> fst ` set (map (\<lambda>q. ((fst p, fst q), snd q)) (snd p)) \<inter> fst ` set (db_entries db)"
      then have "fst x = fst p" by auto
      moreover from x have "fst x \<in> fst ` set db" by (force simp: db_entries_def)
      ultimately show False using Cons.prems(1) by simp
    qed
    moreover have "distinct (map fst (db_entries db))"
      using Cons by simp
    ultimately show ?case
      by (simp only: db_entries_def list.map concat.simps map_append distinct_append set_map simp_thms)
  qed (simp add: db_entries_def)
  have "((ns, key), sv) \<in> set (db_entries db) \<longleftrightarrow> (\<exists>m. (ns, m) \<in> set db \<and> (key, sv) \<in> set m)"
    unfolding db_entries_def by force
  also have "\<dots> \<longleftrightarrow> (\<exists>m. map_of db ns = Some m \<and> map_of m key = Some sv)"
    using inner umap_mem_iff [OF ok] by (metis snd_conv umap_mem_iff)
  also have "\<dots> \<longleftrightarrow> db_lookup db ns key = Some sv"
    by (simp add: db_lookup_def nsmap_def split: option.splits)
  finally show "((ns, key), sv) \<in> set (db_entries db) \<longleftrightarrow> db_lookup db ns key = Some sv" .
qed

lemma mem_entries_ok:
  assumes "mem_inv E s"
  shows "distinct (map fst (mem_entries s))"
    "((ns, key), sv) \<in> set (mem_entries s) \<longleftrightarrow> mem_lookup E s ns key = Some sv"
proof -
  have ok: "shards_ok E (shards s)" using assms by (simp add: mem_inv_def)
  have "\<forall>i < length (shards s). distinct (map fst (db_entries (shards s ! i))) \<and>
      (\<forall>y \<in> set (db_entries (shards s ! i)). (\<lambda>(ns, key). ShardIndex E ns key) (fst y) = i + 0)"
    using db_entries_ok [OF shards_db [OF ok]] db_lookup_shard [OF ok] by fastforce
  from distinct_map_concat [OF this] show "distinct (map fst (mem_entries s))"
    by (simp add: mem_entries_def)
  have "((ns, key), sv) \<in> set (mem_entries s) \<longleftrightarrow>
      (\<exists>i < length (shards s). ((ns, key), sv) \<in> set (db_entries (shards s ! i)))"
    by (force simp: mem_entries_def in_set_conv_nth [of _ "shards s"])
  also have "\<dots> \<longleftrightarrow> (\<exists>i < length (shards s). db_lookup (shards s ! i) ns key = Some sv)"
    using db_entries_ok(2) [OF shards_db [OF ok]] by blast
  also have "\<dots> \<longleftrightarrow> mem_lookup E s ns key = Some sv"
    using db_lookup_shard [OF ok, of _ ns key sv] ok
    by (auto simp: mem_lookup_def shards_ok_def intro: exI [of _ "ShardIndex E ns key"])
  finally show "((ns, key), sv) \<in> set (mem_entries s) \<longleftrightarrow> mem_lookup E s ns key = Some sv" .
qed

lemma store_sum_set:
  assumes "mem_inv E s"
  shows "store_sum f s = (\<Sum>((ns, key), sv) \<in> {((ns, key), sv). mem_lookup E s ns key = Some sv}. f ns key sv)"
proof -
  have "distinct (mem_entries s)" using mem_entries_ok(1) [OF assms] by (simp add: distinct_map)
  moreover have "set (mem_entries s) = {((ns, key), sv). mem_lookup E s ns key = Some sv}"
    using mem_entries_ok(2) [OF assms] by auto
  ultimately show ?thesis by (simp add: store_sum_entries sum_list_distinct_conv_sum_set)
qed

definition view_entries :: "store_view \<Rightarrow> (string \<times> string \<times> string \<times> u64) set" where
  "view_entries w = {(ns, key, val, ts). w ns key = Some (val, ts)}"

lemma store_sum_view:
  assumes "mem_inv E s"
  shows "store_sum (\<lambda>ns key sv. f ns key (sv_value sv)) s =
    (\<Sum>(ns, key, val, ts) \<in> view_entries (mem_view E s). f ns key val)"
  unfolding store_sum_set [OF assms]
  by (rule sum.reindex_bij_witness [of _ "\<lambda>(ns, key, val, ts). ((ns, key), \<lparr> sv_value = val, sv_ts = ts \<rparr>)"
        "\<lambda>((ns, key), sv). (ns, key, sv_value sv, sv_ts sv)"])
    (auto simp: view_entries_def mem_view_def)

section \<open>Properties\<close>

text \<open>
  C35. A fresh in-memory adapter after any batch of upserts and deletes answers every read as
  the abstract map does (last write wins, deletes remove), whatever the hash that spreads
  the keys over the shards; no call fails.
\<close>

theorem mem_BatchWrite_refines:
  "let (s, res) = mem_BatchWrite E entries CreateInMemoryStoreAdapter in
   sr_ok res \<and>
   mem_Get E s ns key =
     (case fold view_apply entries (\<lambda>_ _. None) ns key of
        None \<Rightarrow> \<lparr> gr_found = False, gr_value = '''', gr_error = '''' \<rparr>
      | Some (val, ts) \<Rightarrow> \<lparr> gr_found = True, gr_value = val, gr_error = '''' \<rparr>)"
  using mem_BatchWrite_sound [OF mem_inv_init, of E entries]
  by (simp add: mem_Get_view mem_view_init case_prod_beta)

text \<open>
  C37. The usage that the adapter reports is exact: the item count is the number of live keys,
  and the memory used is the sum of their footprints (both modulo \<open>2 ^ 64\<close>).
\<close>

theorem mem_usage_exact:
  assumes "mem_inv E s"
  shows "su_item_count (fst (mem_ApproximateUsage s)) = of_nat (card (view_entries (mem_view E s))) \<and>
    su_mem_used_bytes (fst (mem_ApproximateUsage s)) =
      (\<Sum>(ns, key, val, ts) \<in> view_entries (mem_view E s). EntryFootprintBytes E ns key val)"
  using assms store_sum_view [OF assms, of "\<lambda>_ _ _. 1 :: u64"]
    store_sum_view [OF assms, of "EntryFootprintBytes E"]
  by (simp add: mem_ApproximateUsage_def mem_inv_def case_prod_beta)

theorem mem_usage_exact_witness:
  "let E = \<lparr> std_hash = (\<lambda>_. 5), sizeof_StoredValue = 40 \<rparr>;
       s = fst (mem_Put E ''mem_docs'' ''k'' ''v'' 1 CreateInMemoryStoreAdapter)
   in su_item_count (fst (mem_ApproximateUsage s)) = of_nat (card (view_entries (mem_view E s)))"
  using mem_usage_exact [OF mem_inv_Upsert [OF mem_inv_init]] by (simp add: mem_Put_def Let_def)

text \<open>
  C36. A range scan returns the entries of the name space with begin <= key < end, each once
  and in key order, from all shards; with a limit it returns the first ones.
\<close>

theorem mem_Scan_range:
  assumes "mem_inv E s"
  shows "scan_spec (mem_view E s) ns b e limit (fst (mem_Scan s ns b e limit))"
  by (rule mem_Scan_spec [OF assms])

theorem mem_Scan_range_witness:
  "scan_spec (mem_view \<lparr> std_hash = (\<lambda>_. 5), sizeof_StoredValue = 40 \<rparr> CreateInMemoryStoreAdapter)
     ''mem_docs'' ''a'' ''z'' 3 (fst (mem_Scan CreateInMemoryStoreAdapter ''mem_docs'' ''a'' ''z'' 3))"
  by (rule mem_Scan_range [OF mem_inv_init])

end
