(* ===== verification/Engine_State.thy ===== *)
theory Engine_State
  imports Records Retriever Metrics Store
begin

text \<open>
  The state of \<open>MemoryEngine\<close> (\<open>include/pgmem/core/memory_engine.h\<close>) and the private
  operations of \<open>src/core/memory_engine.cpp\<close> that the public ones are composed of: what is
  written to the store for a record, the resident set with its byte accounting and its
  eviction loop, the projection events, loading a record.

  \<open>engine_env\<close> holds what the engine is constructed over: the virtual tables of its store
  and of its retriever, the JSON library, \<open>std::hash\<close>, the stream format of a \<open>float\<close>, and
  the clocks.  Each call of \<open>util::NowMs\<close> takes the next reading of \<open>ev_now\<close>; \<open>e_ticks\<close>
  counts them.  A pointer argument that the code tests for null is an \<open>option\<close>.
  A function that returns \<open>false\<close> with an error text is a sum; a loop whose exit
  depends on the state of the maps is a \<open>partial_function\<close>, so that not returning is
  \<open>None\<close>.
\<close>

section \<open>State\<close>

record MemoryEngineOptions =
  op_mem_budget_mb :: u64
  op_disk_budget_gb :: u64
  op_gc_high_watermark :: real
  op_gc_low_watermark :: real
  op_gc_batch_size :: u32
  op_max_record_bytes :: u64
  op_enable_tombstone_gc :: bool
  op_tombstone_retention_ms :: u64
  op_max_pinned_ratio :: real
  op_pin_ttl_override_s :: u64
  op_pin_quota_per_workspace :: u32
  op_effective_backend :: string

definition default_MemoryEngineOptions :: MemoryEngineOptions where
  "default_MemoryEngineOptions =
     \<lparr> op_mem_budget_mb = 512, op_disk_budget_gb = 20, op_gc_high_watermark = 0.9,
       op_gc_low_watermark = 0.75, op_gc_batch_size = 256, op_max_record_bytes = 131072,
       op_enable_tombstone_gc = True, op_tombstone_retention_ms = 24 * 60 * 60 * 1000,
       op_max_pinned_ratio = 0.5, op_pin_ttl_override_s = 0, op_pin_quota_per_workspace = 10000,
       op_effective_backend = '''' \<rparr>"

record CompactOutput =
  co_triggered :: bool
  co_capacity_blocked :: bool
  co_mem_before_bytes :: u64
  co_disk_before_bytes :: u64
  co_mem_after_bytes :: u64
  co_disk_after_bytes :: u64
  co_summarized_count :: u64
  co_tombstoned_count :: u64
  co_deleted_count :: u64
  co_segments_before :: u64
  co_segments_after :: u64
  co_postings_reclaimed :: u64
  co_vectors_reclaimed :: u64

definition default_CompactOutput :: CompactOutput where
  "default_CompactOutput =
     \<lparr> co_triggered = False, co_capacity_blocked = False, co_mem_before_bytes = 0,
       co_disk_before_bytes = 0, co_mem_after_bytes = 0, co_disk_after_bytes = 0,
       co_summarized_count = 0, co_tombstoned_count = 0, co_deleted_count = 0,
       co_segments_before = 0, co_segments_after = 0, co_postings_reclaimed = 0,
       co_vectors_reclaimed = 0 \<rparr>"

record ('s, 'r, 'j) engine_env =
  ev_store :: "'s store_ops"
  ev_retriever :: "'r retriever_ops"
  ev_json :: "'j json_api"
  ev_hash :: "string \<Rightarrow> u64"
  ev_float_format :: "real \<Rightarrow> string"
  ev_now :: "nat \<Rightarrow> u64"
  ev_elapsed_ms :: "nat \<Rightarrow> real"
  ev_stage :: "nat \<Rightarrow> StageTimes"

record ('s, 'r) MemoryEngine =
  e_store :: 's
  e_retriever :: 'r
  e_metrics :: Metrics
  e_options :: MemoryEngineOptions
  e_node_id :: string
  e_local_seq :: u64
  e_index_generation :: u64
  e_records :: "(string, MemoryRecord) umap"
  e_dedup_index :: "(string, string) umap"
  e_resident_charge_bytes :: "(string, u64) umap"
  e_resident_used_bytes :: u64
  e_resident_evicted_count :: u64
  e_disk_fallback_search_count :: u64
  e_cold_rehydrate_count :: u64
  e_dense_probe_count_total :: u64
  e_dense_probe_query_count :: u64
  e_query_cache_hit :: u64
  e_query_cache_total :: u64
  e_gc_running :: bool
  e_gc_stop :: bool
  e_gc_requested :: bool
  e_gc_last_run_ms :: u64
  e_gc_evicted_count :: u64
  e_capacity_blocked :: bool
  e_ticks :: nat

definition new_MemoryEngine :: "'s \<Rightarrow> 'r \<Rightarrow> string \<Rightarrow> MemoryEngineOptions \<Rightarrow> ('s, 'r) MemoryEngine" where
  "new_MemoryEngine store retr node_id options =
     \<lparr> e_store = store, e_retriever = retr, e_metrics = new_Metrics,
       e_options = (if op_effective_backend options = ''''
                    then options\<lparr> op_effective_backend := ''unknown'' \<rparr> else options),
       e_node_id = node_id, e_local_seq = 0, e_index_generation = 0, e_records = [],
       e_dedup_index = [], e_resident_charge_bytes = [], e_resident_used_bytes = 0,
       e_resident_evicted_count = 0, e_disk_fallback_search_count = 0, e_cold_rehydrate_count = 0,
       e_dense_probe_count_total = 0, e_dense_probe_query_count = 0, e_query_cache_hit = 0,
       e_query_cache_total = 0, e_gc_running = op_enable_tombstone_gc options, e_gc_stop = False,
       e_gc_requested = False, e_gc_last_run_ms = 0, e_gc_evicted_count = 0,
       e_capacity_blocked = False, e_ticks = 0 \<rparr>"

definition Shutdown :: "('s, 'r) MemoryEngine \<Rightarrow> ('s, 'r) MemoryEngine" where
  "Shutdown e = e\<lparr> e_gc_stop := True \<rparr>"

definition NowMs :: "('s, 'r, 'j) engine_env \<Rightarrow> ('s, 'r) MemoryEngine \<Rightarrow> u64 \<times> ('s, 'r) MemoryEngine" where
  "NowMs V e = (ev_now V (e_ticks e), e\<lparr> e_ticks := e_ticks e + 1 \<rparr>)"

section \<open>Store writes\<close>

definition upsert_entry :: "string \<Rightarrow> string \<Rightarrow> string \<Rightarrow> u64 \<Rightarrow> WriteEntry" where
  "upsert_entry ns key val ts =
     \<lparr> we_op = WUpsert, we_entry = \<lparr> kv_name_space = ns, kv_key = key, kv_value = val, kv_ts = ts \<rparr> \<rparr>"

definition delete_entry :: "string \<Rightarrow> string \<Rightarrow> u64 \<Rightarrow> WriteEntry" where
  "delete_entry ns key ts =
     \<lparr> we_op = WDelete, we_entry = \<lparr> kv_name_space = ns, kv_key = key, kv_value = '''', kv_ts = ts \<rparr> \<rparr>"

text \<open>The result is the error text of a failed batch.\<close>

definition PersistBatchNow :: "('s, 'r, 'j) engine_env \<Rightarrow> WriteEntry list \<Rightarrow> ('s, 'r) MemoryEngine \<Rightarrow>
    ('s, 'r) MemoryEngine \<times> string option" where
  "PersistBatchNow V writes e =
     (let (s, res) = so_BatchWrite (ev_store V) writes (e_store e) in
      (e\<lparr> e_store := s \<rparr>, if sr_ok res then None else Some (sr_error res)))"

definition delete_terms_for :: "('s, 'r, 'j) engine_env \<Rightarrow> u64 \<Rightarrow> MemoryRecord \<Rightarrow> WriteEntry list" where
  "delete_terms_for V ts rec =
     map (\<lambda>t. delete_entry kPostingBlkNs
            (BuildPostingKey (r_workspace_id rec) t (BucketForPosting (ev_hash V) (r_workspace_id rec) t)
              (r_id rec)) ts)
       (remdups (Tokenize (r_content rec)))"

definition delete_vectors_for :: "('s, 'r, 'j) engine_env \<Rightarrow> u64 \<Rightarrow> MemoryRecord \<Rightarrow> WriteEntry list" where
  "delete_vectors_for V ts rec =
     [delete_entry kVecCodeNs
        (BuildVecCodeKey (r_workspace_id rec) (BucketForPosting (ev_hash V) (r_workspace_id rec) (r_id rec))
          (r_id rec)) ts,
      delete_entry kVecFpNs (BuildVecFpKey (r_workspace_id rec) (r_id rec)) ts]"

definition vector_writes :: "('s, 'r, 'j) engine_env \<Rightarrow> MemoryRecord \<Rightarrow> WriteEntry list" where
  "vector_writes V record =
     (let J = ev_json V;
          embedding = BuildEmbedding (ev_hash V) (r_content record) 64;
          vec_bucket = EncodeVectorBucketSignature embedding mod 256;
          vec_code = put_fields J
            [(''model_id'', JStr ''hash-embed-v1''), (''bucket'', JU64 vec_bucket), (''dim'', JInt 64),
             (''updated_at_ms'', JU64 (r_updated_at_ms record))] (j_empty J);
          vec_fp = put_fields J
            [(''model_id'', JStr ''hash-embed-v1''), (''dim'', JInt 64),
             (''updated_at_ms'', JU64 (r_updated_at_ms record)),
             (''vector_csv'', JStr (EncodeVectorCsv (ev_float_format V) embedding))] (j_empty J)
      in [upsert_entry kVecCodeNs (BuildVecCodeKey (r_workspace_id record) vec_bucket (r_id record))
            (ToJsonString J vec_code False) (r_updated_at_ms record),
          upsert_entry kVecFpNs (BuildVecFpKey (r_workspace_id record) (r_id record))
            (ToJsonString J vec_fp False) (r_updated_at_ms record)])"

definition term_writes :: "('s, 'r, 'j) engine_env \<Rightarrow> MemoryRecord \<Rightarrow> nat \<Rightarrow> string \<times> int \<Rightarrow> WriteEntry list" where
  "term_writes V record doc_len kv =
     (let J = ev_json V; ws = r_workspace_id record;
          posting_key = BuildPostingKey ws (fst kv) (BucketForPosting (ev_hash V) ws (fst kv)) (r_id record);
          term_dict = j_add_child J ''block_refs'' (MakeArray J [posting_key])
            (put_fields J
              [(''df'', JInt 1), (''cf'', JInt (snd kv)), (''max_tf'', JInt (snd kv)),
               (''updated_at'', JU64 (r_updated_at_ms record))] (j_empty J));
          posting = put_fields J
            [(''doc_id'', JStr (r_id record)), (''tf'', JInt (snd kv)), (''doc_len'', JU64 (of_nat doc_len)),
             (''flags'', JStr (if r_pinned record then ''pinned'' else ''normal'')),
             (''updated_at'', JU64 (r_updated_at_ms record))] (j_empty J)
      in [upsert_entry kTermDictNs (BuildTermDictKey ws (fst kv)) (ToJsonString J term_dict False)
            (r_updated_at_ms record),
          upsert_entry kPostingBlkNs posting_key (ToJsonString J posting False) (r_updated_at_ms record)])"

definition PersistRecord :: "('s, 'r, 'j) engine_env \<Rightarrow> ('s, 'r) MemoryEngine \<Rightarrow> MemoryRecord \<Rightarrow>
    WriteEntry list option \<Rightarrow> string + WriteEntry list" where
  "PersistRecord V e record out_writes =
     (case out_writes of
        None \<Rightarrow> Inl ''null write list''
      | Some writes \<Rightarrow>
          (let ts = r_updated_at_ms record;
               writes = writes @ [upsert_entry kDocNs (BuildDocKey (r_workspace_id record) (r_id record))
                 (SerializeRecord (ev_json V) record) ts];
               writes = writes @
                 (case map_of (e_records e) (RecordMapKey (r_workspace_id record) (r_id record)) of
                    None \<Rightarrow> []
                  | Some old_record \<Rightarrow> delete_terms_for V ts old_record @ delete_vectors_for V ts old_record)
           in if r_tombstone record
              then Inr (writes @ delete_terms_for V ts record @ delete_vectors_for V ts record)
              else
                (let tokens = Tokenize (r_content record) in
                 Inr (writes @ vector_writes V record @
                   concat (map (term_writes V record (length tokens)) (token_counts tokens))))))"

text \<open>Every delete of \<open>DeleteRecordStorage\<close> carries a clock reading of its own.\<close>

fun stamp_deletes :: "('s, 'r, 'j) engine_env \<Rightarrow> (string \<times> string) list \<Rightarrow> ('s, 'r) MemoryEngine \<Rightarrow>
    WriteEntry list \<times> ('s, 'r) MemoryEngine" where
  "stamp_deletes V [] e = ([], e)"
| "stamp_deletes V ((ns, key) # ks) e =
     (let (now, e) = NowMs V e; (ws, e) = stamp_deletes V ks e in (delete_entry ns key now # ws, e))"

definition DeleteRecordStorage :: "('s, 'r, 'j) engine_env \<Rightarrow> MemoryRecord \<Rightarrow> WriteEntry list option \<Rightarrow>
    ('s, 'r) MemoryEngine \<Rightarrow> WriteEntry list option \<times> ('s, 'r) MemoryEngine" where
  "DeleteRecordStorage V record out_writes e =
     (case out_writes of
        None \<Rightarrow> (None, e)
      | Some writes \<Rightarrow>
          (let ws = r_workspace_id record;
               terms = remdups (Tokenize (r_content record));
               keys = [(kDocNs, BuildDocKey ws (r_id record)),
                  (kVecCodeNs, BuildVecCodeKey ws (BucketForPosting (ev_hash V) ws (r_id record)) (r_id record)),
                  (kVecFpNs, BuildVecFpKey ws (r_id record))] @
                  map (\<lambda>t. (kPostingBlkNs,
                    BuildPostingKey ws t (BucketForPosting (ev_hash V) ws t) (r_id record))) terms;
               (ds, e) = stamp_deletes V keys e
           in (Some (writes @ ds), e)))"

section \<open>The resident set\<close>

definition EstimateResidentCharge :: "('s, 'r, 'j) engine_env \<Rightarrow> 'r \<Rightarrow> MemoryRecord \<Rightarrow> u64" where
  "EstimateResidentCharge V retr record =
     (if 0 < r_size_bytes record then r_size_bytes record else ComputeRecordSizeBytes record)
     + rt_EstimateDocBytes (ev_retriever V) retr record"

definition ResidentLimitBytes :: "('s, 'r) MemoryEngine \<Rightarrow> u64" where
  "ResidentLimitBytes e = BytesFromMb (op_mem_budget_mb (e_options e))"

definition UpsertRecordInMemory :: "('s, 'r, 'j) engine_env \<Rightarrow> MemoryRecord \<Rightarrow> ('s, 'r) MemoryEngine \<Rightarrow>
    ('s, 'r) MemoryEngine" where
  "UpsertRecordInMemory V record e =
     (let map_key = RecordMapKey (r_workspace_id record) (r_id record);
          new_charge = EstimateResidentCharge V (e_retriever e) record;
          old_charge = (case map_of (e_resident_charge_bytes e) map_key of None \<Rightarrow> 0 | Some c \<Rightarrow> c);
          e = e\<lparr> e_records := umap_put map_key record (e_records e) \<rparr>;
          e = (if r_dedup_key record \<noteq> ''''
               then e\<lparr> e_dedup_index := umap_put (r_workspace_id record @ '':'' @ r_dedup_key record)
                         (r_id record) (e_dedup_index e) \<rparr>
               else e);
          e = e\<lparr> e_resident_charge_bytes :=
                   (if new_charge = 0 then umap_erase map_key (e_resident_charge_bytes e)
                    else umap_put map_key new_charge (e_resident_charge_bytes e)) \<rparr>;
          e = e\<lparr> e_retriever :=
                   (if r_tombstone record
                    then rt_Remove (ev_retriever V) (r_workspace_id record) (r_id record) (e_retriever e)
                    else rt_Index (ev_retriever V) record (e_retriever e)) \<rparr>
      in e\<lparr> e_resident_used_bytes :=
              (if old_charge \<le> new_charge then e_resident_used_bytes e + (new_charge - old_charge)
               else e_resident_used_bytes e - (old_charge - new_charge)) \<rparr>)"

definition RemoveRecordInMemory :: "('s, 'r, 'j) engine_env \<Rightarrow> MemoryRecord \<Rightarrow> ('s, 'r) MemoryEngine \<Rightarrow>
    ('s, 'r) MemoryEngine" where
  "RemoveRecordInMemory V record e =
     (let map_key = RecordMapKey (r_workspace_id record) (r_id record);
          (erased, e) =
            (case map_of (e_records e) map_key of
               None \<Rightarrow> (False, e)
             | Some found \<Rightarrow>
                 (True,
                  e\<lparr> e_dedup_index :=
                       (if r_dedup_key found \<noteq> ''''
                        then umap_erase (r_workspace_id record @ '':'' @ r_dedup_key found) (e_dedup_index e)
                        else e_dedup_index e),
                     e_records := umap_erase map_key (e_records e) \<rparr>));
          (removed_charge, e) =
            (case map_of (e_resident_charge_bytes e) map_key of
               None \<Rightarrow> (0, e)
             | Some c \<Rightarrow> (c, e\<lparr> e_resident_charge_bytes := umap_erase map_key (e_resident_charge_bytes e) \<rparr>))
      in if \<not> erased then e
         else
           (let e = (if 0 < removed_charge
                     then e\<lparr> e_resident_used_bytes := e_resident_used_bytes e - removed_charge \<rparr> else e)
            in e\<lparr> e_retriever := rt_Remove (ev_retriever V) (r_workspace_id record) (r_id record)
                   (e_retriever e) \<rparr>))"

subsection \<open>Eviction\<close>

definition consider_victim :: "u64 \<Rightarrow> string list option \<Rightarrow> bool \<Rightarrow> MemoryRecord \<Rightarrow>
    (MemoryRecord \<times> real) option \<Rightarrow> (MemoryRecord \<times> real) option" where
  "consider_victim now_ms protected_keys allow_protected rec best =
     (if r_pinned rec then best
      else if \<not> allow_protected \<and>
        (case protected_keys of None \<Rightarrow> False
         | Some ks \<Rightarrow> RecordMapKey (r_workspace_id rec) (r_id rec) \<in> set ks) then best
      else
        (let rank = EvictionRank rec now_ms in
         case best of
           None \<Rightarrow> Some (rec, rank)
         | Some (candidate, best_rank) \<Rightarrow>
             if rank < best_rank \<or> rank = best_rank \<and> r_updated_at_ms rec < r_updated_at_ms candidate
             then Some (rec, rank) else best))"

definition pick_candidate :: "u64 \<Rightarrow> string list option \<Rightarrow> bool \<Rightarrow> (string, MemoryRecord) umap \<Rightarrow>
    MemoryRecord option" where
  "pick_candidate now_ms protected_keys allow_protected records =
     map_option fst
       (fold (\<lambda>kv. consider_victim now_ms protected_keys allow_protected (snd kv)) records None)"

definition SelectEvictionCandidateLocked :: "u64 \<Rightarrow> string list option \<Rightarrow> (string, MemoryRecord) umap \<Rightarrow>
    MemoryRecord option" where
  "SelectEvictionCandidateLocked now_ms protected_keys records =
     (if records = [] then None
      else
        (case pick_candidate now_ms protected_keys False records of
           Some victim \<Rightarrow> Some victim
         | None \<Rightarrow>
             (case protected_keys of
                None \<Rightarrow> None
              | Some ks \<Rightarrow>
                  if ks \<noteq> [] then pick_candidate now_ms protected_keys True records else None)))"

definition evict :: "('s, 'r, 'j) engine_env \<Rightarrow> MemoryRecord \<Rightarrow> ('s, 'r) MemoryEngine \<Rightarrow>
    ('s, 'r) MemoryEngine" where
  "evict V victim e =
     (let map_key = RecordMapKey (r_workspace_id victim) (r_id victim);
          e = e\<lparr> e_records := umap_erase map_key (e_records e) \<rparr>;
          (victim_charge, e) =
            (case map_of (e_resident_charge_bytes e) map_key of
               None \<Rightarrow> (0, e)
             | Some c \<Rightarrow> (c, e\<lparr> e_resident_charge_bytes := umap_erase map_key (e_resident_charge_bytes e) \<rparr>));
          e = (if 0 < victim_charge
               then e\<lparr> e_resident_used_bytes := e_resident_used_bytes e - victim_charge \<rparr> else e);
          e = e\<lparr> e_retriever := rt_Remove (ev_retriever V) (r_workspace_id victim) (r_id victim)
                   (e_retriever e) \<rparr>
      in e\<lparr> e_resident_evicted_count := e_resident_evicted_count e + 1 \<rparr>)"

text \<open>
  The loop of \<open>EnforceResidentHardLimit\<close>.  Its \<open>continue\<close> (a victim whose key is not in the
  map) goes round again without a change of the maps, so termination is a property of the
  states that occur, not of the code by itself.
\<close>

partial_function (option) enforce_loop :: "('s, 'r, 'j) engine_env \<Rightarrow> string list option \<Rightarrow>
    ('s, 'r) MemoryEngine \<Rightarrow> ('s, 'r) MemoryEngine option" where
  "enforce_loop V protected_keys e =
     (if \<not> ResidentLimitBytes e < e_resident_used_bytes e then Some e
      else if e_records e = [] then Some e
      else
        (let (now, e) = NowMs V e in
         case SelectEvictionCandidateLocked now protected_keys (e_records e) of
           None \<Rightarrow> Some e
         | Some victim \<Rightarrow>
             (case map_of (e_records e) (RecordMapKey (r_workspace_id victim) (r_id victim)) of
                None \<Rightarrow> enforce_loop V protected_keys e
              | Some _ \<Rightarrow> enforce_loop V protected_keys (evict V victim e))))"

definition EnforceResidentHardLimit :: "('s, 'r, 'j) engine_env \<Rightarrow> string list option \<Rightarrow>
    ('s, 'r) MemoryEngine \<Rightarrow> ('s, 'r) MemoryEngine option" where
  "EnforceResidentHardLimit V protected_keys e =
     (if ResidentLimitBytes e = 0 then Some e else enforce_loop V protected_keys e)"

section \<open>Projection events\<close>

definition AppendProjectionEvent :: "('s, 'r, 'j) engine_env \<Rightarrow> MemoryRecord \<Rightarrow> OpType \<Rightarrow> string \<Rightarrow>
    WriteEntry list option \<Rightarrow> ('s, 'r) MemoryEngine \<Rightarrow>
    (WriteEntry list \<times> string) option \<times> ('s, 'r) MemoryEngine" where
  "AppendProjectionEvent V record op_type reason out_writes e =
     (case out_writes of
        None \<Rightarrow> (None, e)
      | Some writes \<Rightarrow>
          (let J = ev_json V;
               (now, e) = NowMs V e;
               now_ms = max (r_updated_at_ms record) now;
               sq = e_local_seq e + 1;
               e = e\<lparr> e_local_seq := e_local_seq e + 1 \<rparr>;
               workspace = (if r_workspace_id record = '''' then ''default'' else r_workspace_id record);
               event_key = BuildEventKey workspace now_ms sq;
               event = put_fields J
                 [(''event_key'', JStr event_key), (''workspace_id'', JStr workspace),
                  (''memory_id'', JStr (r_id record)), (''reason'', JStr reason),
                  (''op_type'', JStr (case op_type of OpPin \<Rightarrow> ''pin'' | OpDelete \<Rightarrow> ''delete''
                                      | OpUpsert \<Rightarrow> ''upsert'')),
                  (''updated_at_ms'', JU64 now_ms), (''version'', JU64 (r_version record)),
                  (''node_id'', JStr (e_node_id e)),
                  (''record_payload'', JStr (SerializeRecord J record))] (j_empty J)
           in (Some (writes @ [upsert_entry kEventsNs event_key (ToJsonString J event False) now_ms],
                     event_key), e)))"

definition AppendProjectionCheckpoint :: "('s, 'r, 'j) engine_env \<Rightarrow> string \<Rightarrow> string \<Rightarrow> u64 \<Rightarrow>
    WriteEntry list option \<Rightarrow> WriteEntry list option" where
  "AppendProjectionCheckpoint V workspace_id event_key ts out_writes =
     (case out_writes of
        None \<Rightarrow> None
      | Some writes \<Rightarrow>
          if workspace_id = '''' \<or> event_key = '''' then Some writes
          else
            (let J = ev_json V;
                 ckpt = put_fields J
                   [(''workspace_id'', JStr workspace_id), (''event_key'', JStr event_key),
                    (''updated_at_ms'', JU64 ts)] (j_empty J)
             in Some (writes @ [upsert_entry kProjectionCkptNs (BuildCkptKey workspace_id)
                  (ToJsonString J ckpt False) ts])))"

section \<open>Loading, usage and identifiers\<close>

definition LoadRecord :: "('s, 'r, 'j) engine_env \<Rightarrow> string \<Rightarrow> string \<Rightarrow> ('s, 'r) MemoryEngine \<Rightarrow>
    string + MemoryRecord" where
  "LoadRecord V workspace_id memory_id e =
     (case map_of (e_records e) (RecordMapKey workspace_id memory_id) of
        Some record \<Rightarrow> Inr record
      | None \<Rightarrow>
          (let get_res = so_Get (ev_store V) (e_store e) kDocNs (BuildDocKey workspace_id memory_id) in
           if \<not> gr_found get_res
           then Inl (if gr_error get_res = '''' then ''record not found'' else gr_error get_res)
           else DeserializeRecord (ev_json V) (gr_value get_res)))"

definition IsOverHighWatermark :: "MemoryEngineOptions \<Rightarrow> StoreUsage \<Rightarrow> bool" where
  "IsOverHighWatermark options usage \<longleftrightarrow>
     (let max_disk = BytesFromGb (op_disk_budget_gb options) in
      if max_disk = 0 then False
      else op_gc_high_watermark options \<le> real (unat (su_disk_used_bytes usage)) / real (unat max_disk))"

definition IsBelowLowWatermark :: "MemoryEngineOptions \<Rightarrow> StoreUsage \<Rightarrow> bool" where
  "IsBelowLowWatermark options usage \<longleftrightarrow>
     (let max_disk = BytesFromGb (op_disk_budget_gb options) in
      if max_disk = 0 then True
      else real (unat (su_disk_used_bytes usage)) / real (unat max_disk) \<le> op_gc_low_watermark options)"

definition MaybeScheduleGc :: "('s, 'r, 'j) engine_env \<Rightarrow> ('s, 'r) MemoryEngine \<Rightarrow> ('s, 'r) MemoryEngine" where
  "MaybeScheduleGc V e =
     (if \<not> e_gc_running e then e
      else if IsOverHighWatermark (e_options e) (fst (so_ApproximateUsage (ev_store V) (e_store e)))
      then e\<lparr> e_gc_requested := True \<rparr> else e)"

definition NextMemoryId :: "('s, 'r, 'j) engine_env \<Rightarrow> ('s, 'r) MemoryEngine \<Rightarrow> string \<times> ('s, 'r) MemoryEngine" where
  "NextMemoryId V e =
     (let (now_ms, e) = NowMs V e; sq = e_local_seq e in
      (''m-'' @ ZeroPadUint64 now_ms @ ''-'' @ ZeroPadUint64 sq, e\<lparr> e_local_seq := e_local_seq e + 1 \<rparr>))"

end
