(* ===== verification/Engine_Ops.thy ===== *)
theory Engine_Ops
  imports Engine_State
begin

text \<open>
  The public operations of \<open>MemoryEngine\<close>: \<open>Write\<close>, \<open>Query\<close>, \<open>Pin\<close>, \<open>Stats\<close>,
  \<open>Warmup\<close> with the replay of projection events, \<open>Compact\<close>, \<open>StoreCompact\<close>, and one round
  of the garbage collection thread.  Each is one function from the state before to the
  result and the state after; those that end in the eviction loop return an \<open>option\<close>, where
  \<open>None\<close> means that the loop does not return.
\<close>

section \<open>Write\<close>

record write_acc =
  wa_out :: WriteOutput
  wa_writes :: "WriteEntry list"
  wa_upserts :: "MemoryRecord list"
  wa_projected_active :: nat
  wa_projected_pinned :: nat

definition add_warning :: "string \<Rightarrow> WriteOutput \<Rightarrow> WriteOutput" where
  "add_warning w out = out\<lparr> wo_warnings := wo_warnings out @ [w] \<rparr>"

text \<open>The decision on a requested pin: whether it is granted, and the warning if not.\<close>

definition pin_decision :: "MemoryEngineOptions \<Rightarrow> bool \<Rightarrow> nat \<Rightarrow> nat \<Rightarrow> bool \<times> string option" where
  "pin_decision options pin projected_active projected_pinned =
     (if \<not> pin then (False, None)
      else
        (let next_active = projected_active + 1; next_pinned = projected_pinned + 1 in
         if unat (op_pin_quota_per_workspace options) < next_pinned
         then (False, Some ''pin governance: quota exceeded for record '')
         else if IsPinBlockedByRatio next_pinned next_active (op_max_pinned_ratio options)
         then (False, Some ''pin governance: pinned ratio exceeded for record '')
         else (True, None)))"

definition metadata_or :: "StringMap \<Rightarrow> string \<Rightarrow> string" where
  "metadata_or md key = (case map_of md key of None \<Rightarrow> '''' | Some v \<Rightarrow> v)"

definition build_record :: "('s, 'r) MemoryEngine \<Rightarrow> WriteInput \<Rightarrow> WriteRecordInput \<Rightarrow> string \<Rightarrow> bool \<Rightarrow> u64 \<Rightarrow>
    MemoryRecord" where
  "build_record e input rec_in rid pinned now_ms =
     (let options = e_options e;
          record = \<lparr> r_id = rid, r_workspace_id = wi_workspace_id input,
            r_session_id = (if wi_session_id input = '''' then ''default'' else wi_session_id input),
            r_source = (if wr_source rec_in = '''' then ''turn'' else wr_source rec_in),
            r_content = wr_content rec_in, r_tags = wr_tags rec_in, r_metadata = wr_metadata rec_in,
            r_dedup_key = wr_dedup_key rec_in, r_pinned = pinned, r_tombstone = False,
            r_created_at_ms = now_ms, r_updated_at_ms = now_ms, r_version = 1, r_size_bytes = 0,
            r_last_access_ms = now_ms, r_hit_count = 0,
            r_importance_score = max 0 (wr_importance rec_in), r_tier = ''hot'',
            r_node_id = e_node_id e,
            r_ttl_s = (if pinned \<and> 0 < op_pin_ttl_override_s options
                       then op_pin_ttl_override_s options else wr_ttl_s rec_in),
            r_shard_id = metadata_or (wr_metadata rec_in) ''shard_id'',
            r_replica_role = metadata_or (wr_metadata rec_in) ''replica_role'',
            r_routing_epoch = 0,
            r_shard_hint = metadata_or (wr_metadata rec_in) ''shard_hint'' \<rparr>
      in record\<lparr> r_size_bytes := ComputeRecordSizeBytes record \<rparr>)"

text \<open>The part of the loop body after the record is built: the persist lists grow or nothing does.\<close>

definition stage_record :: "('s, 'r, 'j) engine_env \<Rightarrow> u64 \<Rightarrow> MemoryRecord \<Rightarrow>
    ('s, 'r) MemoryEngine \<times> write_acc \<Rightarrow> ('s, 'r) MemoryEngine \<times> write_acc" where
  "stage_record V now_ms record = (\<lambda>(e, a).
     if op_max_record_bytes (e_options e) < r_size_bytes record
     then (e, a\<lparr> wa_out := add_warning (''skip oversized record: '' @ r_id record) (wa_out a) \<rparr>)
     else
       (case PersistRecord V e record (Some (wa_writes a)) of
          Inl persist_error \<Rightarrow>
            (e, a\<lparr> wa_out := add_warning (''persist build failed for '' @ r_id record @ '': ''
                    @ persist_error) (wa_out a) \<rparr>)
        | Inr writes \<Rightarrow>
            (case AppendProjectionEvent V record OpUpsert ''write'' (Some writes) e of
               (None, e) \<Rightarrow>
                 (e, a\<lparr> wa_writes := writes,
                        wa_out := add_warning (''failed to append event for '' @ r_id record) (wa_out a) \<rparr>)
             | (Some (writes, event_key), e) \<Rightarrow>
                 (let writes = (case AppendProjectionCheckpoint V (r_workspace_id record) event_key now_ms
                                  (Some writes) of None \<Rightarrow> writes | Some ws \<Rightarrow> ws) in
                  (e, a\<lparr> wa_writes := writes, wa_upserts := wa_upserts a @ [record],
                         wa_out := (wa_out a)\<lparr> wo_stored_ids := wo_stored_ids (wa_out a) @ [r_id record] \<rparr>,
                         wa_projected_active := wa_projected_active a + 1,
                         wa_projected_pinned := (if r_pinned record then wa_projected_pinned a + 1
                                                 else wa_projected_pinned a) \<rparr>)))))"

definition write_step :: "('s, 'r, 'j) engine_env \<Rightarrow> WriteInput \<Rightarrow> u64 \<Rightarrow> WriteRecordInput \<Rightarrow>
    ('s, 'r) MemoryEngine \<times> write_acc \<Rightarrow> ('s, 'r) MemoryEngine \<times> write_acc" where
  "write_step V input now_ms rec_in = (\<lambda>(e, a).
     if wr_content rec_in = ''''
     then (e, a\<lparr> wa_out := add_warning ''skip empty content record'' (wa_out a) \<rparr>)
     else
       (case (if wr_dedup_key rec_in \<noteq> '''' \<and> wi_write_mode input \<noteq> ''append''
              then map_of (e_dedup_index e) (wi_workspace_id input @ '':'' @ wr_dedup_key rec_in)
              else None) of
          Some known_id \<Rightarrow>
            (e, a\<lparr> wa_out := (wa_out a)\<lparr> wo_deduped_ids := wo_deduped_ids (wa_out a) @ [known_id] \<rparr> \<rparr>)
        | None \<Rightarrow>
            (let (rid, e) = (if wr_record_id rec_in = '''' then NextMemoryId V e
                             else (wr_record_id rec_in, e));
                 (pinned, warning) = pin_decision (e_options e) (wr_pin rec_in) (wa_projected_active a)
                    (wa_projected_pinned a);
                 a = (case warning of None \<Rightarrow> a
                      | Some w \<Rightarrow> a\<lparr> wa_out := add_warning (w @ rid) (wa_out a) \<rparr>)
             in stage_record V now_ms (build_record e input rec_in rid pinned now_ms) (e, a))))"

definition route_write :: "('s, 'r, 'j) engine_env \<Rightarrow> string \<Rightarrow> u64 \<Rightarrow> WriteEntry list" where
  "route_write V workspace_id now_ms =
     (let J = ev_json V;
          route = put_fields J [(''bucket_count'', JInt 1), (''hot_level'', JStr ''normal''),
                    (''shard_hint'', JStr ''workspace'')] (j_empty J)
      in [upsert_entry kRouteMetaNs (BuildRouteMetaKey workspace_id) (ToJsonString J route False) now_ms])"

definition token_total :: "string list \<Rightarrow> u64" where
  "token_total texts = of_nat (sum_list (map EstimateTokenCount texts))"

definition write_stage :: "('s, 'r, 'j) engine_env \<Rightarrow> WriteInput \<Rightarrow> ('s, 'r) MemoryEngine \<Rightarrow>
    u64 \<times> ('s, 'r) MemoryEngine \<times> write_acc" where
  "write_stage V input e =
     (let (now_ms, e) = NowMs V e;
          pin_stats = ComputeWorkspacePinStats (e_records e) (wi_workspace_id input)
      in (now_ms, fold (write_step V input now_ms) (wi_records input)
           (e, \<lparr> wa_out = default_WriteOutput, wa_writes = [], wa_upserts = [],
                 wa_projected_active = ps_active pin_stats,
                 wa_projected_pinned = ps_pinned pin_stats \<rparr>)))"

definition write_finish :: "('s, 'r, 'j) engine_env \<Rightarrow> WriteInput \<Rightarrow> MemoryRecord list \<Rightarrow> WriteOutput \<Rightarrow>
    ('s, 'r) MemoryEngine \<Rightarrow> WriteOutput \<times> ('s, 'r) MemoryEngine" where
  "write_finish V input upserts out e =
     (let e = MaybeScheduleGc V e;
          e = e\<lparr> e_metrics := RecordTokenReduction (token_total (map wr_content (wi_records input)))
                   (token_total (map r_content upserts)) (e_metrics e) \<rparr>;
          e = e\<lparr> e_metrics := RecordWriteLatency (ev_elapsed_ms V (e_ticks e)) (e_metrics e) \<rparr>;
          e = e\<lparr> e_index_generation := e_index_generation e + 1 \<rparr>
      in (out\<lparr> wo_ok := True, wo_index_generation := e_index_generation e \<rparr>, e))"

definition engine_Write :: "('s, 'r, 'j) engine_env \<Rightarrow> WriteInput \<Rightarrow> ('s, 'r) MemoryEngine \<Rightarrow>
    (WriteOutput \<times> ('s, 'r) MemoryEngine) option" where
  "engine_Write V input e =
     (if wi_workspace_id input = ''''
      then Some (add_warning ''workspace_id is required'' (default_WriteOutput\<lparr> wo_ok := False \<rparr>), e)
      else if wi_records input = []
      then Some (add_warning ''records is empty'' (default_WriteOutput\<lparr> wo_ok := True \<rparr>), e)
      else
        (let (now_ms, e, a) = write_stage V input e; out = wa_out a in
         if wa_writes a = []
         then Some (out\<lparr> wo_ok := wo_stored_ids out \<noteq> [] \<or> wo_deduped_ids out \<noteq> [] \<or>
                       wo_warnings out \<noteq> [] \<rparr>, e)
         else
           (case PersistBatchNow V (wa_writes a) e of
              (e, Some write_error) \<Rightarrow> Some (add_warning write_error (out\<lparr> wo_ok := False \<rparr>), e)
            | (e, None) \<Rightarrow>
                (let e = fold (UpsertRecordInMemory V) (wa_upserts a) e;
                     (e, route_error) = PersistBatchNow V (route_write V (wi_workspace_id input) now_ms) e
                 in map_option (write_finish V input (wa_upserts a) out)
                      (EnforceResidentHardLimit V None e)))))"

section \<open>Query\<close>

text \<open>The loop that keeps hits within the token budget and drops the expired ones.\<close>

fun select_hits :: "(string, MemoryRecord) umap \<Rightarrow> QueryInput \<Rightarrow> u64 \<Rightarrow> nat \<Rightarrow> QueryHit list \<Rightarrow> QueryHit list" where
  "select_hits records input now_ms used_tokens [] = []"
| "select_hits records input now_ms used_tokens (hit # hits) =
     (let hit_tokens = EstimateTokenCount (h_content hit) in
      if 0 < q_token_budget input \<and> nat (q_token_budget input) < used_tokens + hit_tokens then []
      else if (case map_of records (RecordMapKey (q_workspace_id input) (h_memory_id hit)) of
                 None \<Rightarrow> False | Some record \<Rightarrow> IsExpired record now_ms)
      then select_hits records input now_ms used_tokens hits
      else hit # select_hits records input now_ms (used_tokens + hit_tokens) hits)"

definition touch_record :: "string \<Rightarrow> u64 \<Rightarrow> QueryHit \<Rightarrow> (string, MemoryRecord) umap \<Rightarrow>
    (string, MemoryRecord) umap" where
  "touch_record workspace_id now_ms hit records =
     (let key = RecordMapKey workspace_id (h_memory_id hit) in
      case map_of records key of
        None \<Rightarrow> records
      | Some record \<Rightarrow>
          if r_tombstone record then records
          else umap_put key (record\<lparr> r_last_access_ms := now_ms,
                                     r_hit_count := r_hit_count record + 1 \<rparr>) records)"

definition engine_Query :: "('s, 'r, 'j) engine_env \<Rightarrow> QueryInput \<Rightarrow> ('s, 'r) MemoryEngine \<Rightarrow>
    QueryOutput \<times> ('s, 'r) MemoryEngine" where
  "engine_Query V input e =
     (if q_workspace_id input = '''' then (empty_QueryOutput, e)
      else
        (let (retriever_now, e) = NowMs V e;
             retrieved = rt_Query (ev_retriever V) (e_retriever e) input retriever_now (ev_stage V (e_ticks e));
             (now_ms, e) = NowMs V e;
             hits = select_hits (e_records e) input now_ms 0 (qo_hits retrieved);
             e = e\<lparr> e_records := fold (touch_record (q_workspace_id input) now_ms) hits (e_records e) \<rparr>;
             out = \<lparr> qo_hits = hits, qo_debug_stats = qo_debug_stats retrieved \<rparr>;
             e = e\<lparr> e_query_cache_total := e_query_cache_total e + 1,
                    e_dense_probe_query_count := e_dense_probe_query_count e + 1,
                    e_dense_probe_count_total := e_dense_probe_count_total e
                      + of_nat (qd_dense_candidates (qo_debug_stats out)),
                    e_metrics := RecordReadLatency (ev_elapsed_ms V (e_ticks e))
                      (RecordFallback False (e_metrics e)) \<rparr>
         in (out, e)))"

section \<open>Pin\<close>

definition pin_refusal :: "('s, 'r) MemoryEngine \<Rightarrow> string \<Rightarrow> string option" where
  "pin_refusal e workspace_id =
     (let pin_stats = ComputeWorkspacePinStats (e_records e) workspace_id in
      if unat (op_pin_quota_per_workspace (e_options e)) < ps_pinned pin_stats + 1
      then Some ''pin quota exceeded''
      else if IsPinBlockedByRatio (ps_pinned pin_stats + 1) (ps_active pin_stats + 1)
                (op_max_pinned_ratio (e_options e))
      then Some ''pin ratio exceeded''
      else None)"

definition pinned_record :: "('s, 'r) MemoryEngine \<Rightarrow> bool \<Rightarrow> u64 \<Rightarrow> MemoryRecord \<Rightarrow> MemoryRecord" where
  "pinned_record e pin now_ms record =
     (let record = record\<lparr> r_pinned := pin, r_updated_at_ms := now_ms, r_version := r_version record + 1,
            r_importance_score := (if pin then 100 else min (r_importance_score record) 5) \<rparr>;
          record = (if pin \<and> 0 < op_pin_ttl_override_s (e_options e)
                    then record\<lparr> r_ttl_s := op_pin_ttl_override_s (e_options e) \<rparr> else record);
          record = record\<lparr> r_size_bytes := ComputeRecordSizeBytes record \<rparr>
      in record\<lparr> r_node_id := e_node_id e \<rparr>)"

definition engine_Pin :: "('s, 'r, 'j) engine_env \<Rightarrow> string \<Rightarrow> string \<Rightarrow> bool \<Rightarrow> ('s, 'r) MemoryEngine \<Rightarrow>
    (string option \<times> ('s, 'r) MemoryEngine) option" where
  "engine_Pin V workspace_id memory_id pin e =
     (case LoadRecord V workspace_id memory_id e of
        Inl err \<Rightarrow> Some (Some err, e)
      | Inr record \<Rightarrow>
          (case (if pin \<and> \<not> r_pinned record then pin_refusal e workspace_id else None) of
             Some err \<Rightarrow> Some (Some err, e)
           | None \<Rightarrow>
               (let (now_ms, e) = NowMs V e; record = pinned_record e pin now_ms record in
                case PersistRecord V e record (Some []) of
                  Inl err \<Rightarrow> Some (Some err, e)
                | Inr writes \<Rightarrow>
                    (case AppendProjectionEvent V record OpPin ''pin'' (Some writes) e of
                       (None, e) \<Rightarrow> Some (Some ''failed to append projection event'', e)
                     | (Some (writes, event_key), e) \<Rightarrow>
                         (let (ckpt_now, e) = NowMs V e;
                              writes = (case AppendProjectionCheckpoint V (r_workspace_id record) event_key
                                (max (r_updated_at_ms record) ckpt_now) (Some writes) of
                                  None \<Rightarrow> writes | Some ws \<Rightarrow> ws)
                          in case PersistBatchNow V writes e of
                               (e, Some err) \<Rightarrow> Some (Some err, e)
                             | (e, None) \<Rightarrow>
                                 map_option (\<lambda>e. (None, MaybeScheduleGc V e))
                                   (EnforceResidentHardLimit V None (UpsertRecordInMemory V record e)))))))"

section \<open>Stats\<close>

record stats_acc =
  sa_item_count :: u64
  sa_tombstone_count :: u64
  sa_vector_count :: u64
  sa_active_count :: u64
  sa_pinned_count :: u64
  sa_has_evictable :: bool
  sa_term_set :: "string list"
  sa_workspace_set :: "string list"

definition stats_step :: "string \<Rightarrow> MemoryRecord \<Rightarrow> stats_acc \<Rightarrow> stats_acc" where
  "stats_step workspace_id rec a =
     (if workspace_id \<noteq> '''' \<and> r_workspace_id rec \<noteq> workspace_id then a
      else
        (let a = a\<lparr> sa_workspace_set := List.insert (r_workspace_id rec) (sa_workspace_set a),
                    sa_item_count := sa_item_count a + 1 \<rparr> in
         if r_tombstone rec then a\<lparr> sa_tombstone_count := sa_tombstone_count a + 1 \<rparr>
         else
           (let a = a\<lparr> sa_vector_count := sa_vector_count a + 1, sa_active_count := sa_active_count a + 1 \<rparr>;
                a = (if r_pinned rec then a\<lparr> sa_pinned_count := sa_pinned_count a + 1 \<rparr>
                     else a\<lparr> sa_has_evictable := True \<rparr>)
            in a\<lparr> sa_term_set := fold List.insert (Tokenize (r_content rec)) (sa_term_set a) \<rparr>)))"

definition stats_scan :: "string \<Rightarrow> (string, MemoryRecord) umap \<Rightarrow> stats_acc" where
  "stats_scan workspace_id records =
     fold (\<lambda>kv. stats_step workspace_id (snd kv)) records
       \<lparr> sa_item_count = 0, sa_tombstone_count = 0, sa_vector_count = 0, sa_active_count = 0,
         sa_pinned_count = 0, sa_has_evictable = False, sa_term_set = [], sa_workspace_set = [] \<rparr>"

definition engine_Stats :: "('s, 'r, 'j) engine_env \<Rightarrow> string \<Rightarrow> string \<Rightarrow> ('s, 'r) MemoryEngine \<Rightarrow>
    StatsSnapshot" where
  "engine_Stats V workspace_id window e =
     (let usage = fst (so_ApproximateUsage (ev_store V) (e_store e));
          a = stats_scan workspace_id (e_records e);
          pin_blocked = (0 < sa_active_count a \<and> \<not> sa_has_evictable a \<and>
            op_max_pinned_ratio (e_options e) \<le>
              PinnedRatio (unat (sa_pinned_count a)) (unat (sa_active_count a)))
      in (metrics_Snapshot (e_metrics e))\<lparr>
           ss_mem_used_bytes := su_mem_used_bytes usage,
           ss_disk_used_bytes := su_disk_used_bytes usage,
           ss_item_count := sa_item_count a,
           ss_tombstone_count := sa_tombstone_count a,
           ss_gc_last_run_ms := e_gc_last_run_ms e,
           ss_gc_evicted_count := e_gc_evicted_count e,
           ss_capacity_blocked := e_capacity_blocked e \<or> pin_blocked,
           ss_write_ack_mode := ''durable'',
           ss_effective_backend := op_effective_backend (e_options e),
           ss_resident_used_bytes := e_resident_used_bytes e,
           ss_resident_limit_bytes := ResidentLimitBytes e,
           ss_resident_evicted_count := e_resident_evicted_count e,
           ss_disk_fallback_search_count := e_disk_fallback_search_count e,
           ss_index_stats :=
             \<lparr> is_segment_count = of_nat (length (sa_workspace_set a)),
               is_posting_terms = of_nat (length (sa_term_set a)),
               is_vector_count = sa_vector_count a,
               is_query_cache_hit_rate =
                 (if 0 < e_query_cache_total e
                  then real (unat (e_query_cache_hit e)) / real (unat (e_query_cache_total e)) else 0),
               is_dense_probe_count_p95 =
                 (if 0 < e_dense_probe_query_count e
                  then real (unat (e_dense_probe_count_total e)) / real (unat (e_dense_probe_query_count e))
                  else 0),
               is_cold_rehydrate_count = e_cold_rehydrate_count e \<rparr> \<rparr>)"

section \<open>Warmup and replay\<close>

definition fill_defaults :: "MemoryRecord \<Rightarrow> MemoryRecord" where
  "fill_defaults record =
     (let record = (if r_size_bytes record = 0
                    then record\<lparr> r_size_bytes := ComputeRecordSizeBytes record \<rparr> else record);
          record = (if r_last_access_ms record = 0
                    then record\<lparr> r_last_access_ms := r_updated_at_ms record \<rparr> else record)
      in if r_tier record = ''''
         then record\<lparr> r_tier := (if r_tombstone record then ''cold'' else ''hot'') \<rparr> else record)"

definition warm_record :: "'j json_api \<Rightarrow> KeyValueEntry \<Rightarrow> MemoryRecord option" where
  "warm_record J entry =
     (case DeserializeRecord J (kv_value entry) of
        Inl decode_error \<Rightarrow> None
      | Inr record \<Rightarrow>
          (let record = (if r_workspace_id record = ''''
                         then record\<lparr> r_workspace_id := WorkspaceFromDocKey (kv_key entry) \<rparr> else record);
               record = (if r_id record = ''''
                         then record\<lparr> r_id := MemoryIdFromDocKey (kv_key entry) \<rparr> else record)
           in if r_id record = '''' \<or> r_workspace_id record = '''' then None
              else Some (fill_defaults record)))"

definition warm_step :: "('s, 'r, 'j) engine_env \<Rightarrow> KeyValueEntry \<Rightarrow> ('s, 'r) MemoryEngine \<Rightarrow>
    ('s, 'r) MemoryEngine" where
  "warm_step V entry e =
     (case warm_record (ev_json V) entry of None \<Rightarrow> e | Some record \<Rightarrow> UpsertRecordInMemory V record e)"

text \<open>A scan whose error says that the name space is missing counts as an empty one.\<close>

definition scan_namespace :: "('s, 'r, 'j) engine_env \<Rightarrow> string \<Rightarrow> ('s, 'r) MemoryEngine \<Rightarrow>
    string + KeyValueEntry list" where
  "scan_namespace V ns e =
     (let (entries, scan_error) = so_Scan (ev_store V) (e_store e) ns '''' '''' 0 in
      if scan_error \<noteq> ''''
      then (if \<not> IsMissingScanNamespaceError scan_error then Inl scan_error else Inr [])
      else Inr entries)"

definition ckpt_step :: "'j json_api \<Rightarrow> KeyValueEntry \<Rightarrow> (string, string) umap \<Rightarrow> (string, string) umap" where
  "ckpt_step J entry checkpoints =
     (case ParseJson J (kv_value entry) of
        Inl parse_error \<Rightarrow> checkpoints
      | Inr json \<Rightarrow>
          (let workspace = GetStringOr J json ''workspace_id'' '''';
               workspace = (if workspace = '''' \<and> prefix ''ws/'' (kv_key entry)
                            then drop (length ''ws/'') (kv_key entry) else workspace);
               event_key = GetStringOr J json ''event_key'' ''''
           in if workspace \<noteq> '''' \<and> event_key \<noteq> '''' then umap_put workspace event_key checkpoints
              else checkpoints))"

definition event_record :: "'j json_api \<Rightarrow> (string, string) umap \<Rightarrow> KeyValueEntry \<Rightarrow> MemoryRecord option" where
  "event_record J checkpoints event =
     (case ParseJson J (kv_value event) of
        Inl parse_error \<Rightarrow> None
      | Inr event_json \<Rightarrow>
          (let workspace = GetStringOr J event_json ''workspace_id'' '''';
               workspace = (if workspace = '''' then WorkspaceFromEventKey (kv_key event) else workspace)
           in if workspace = '''' then None
              else if (case map_of checkpoints workspace of
                         None \<Rightarrow> False | Some ckpt \<Rightarrow> kv_key event \<le> ckpt) then None
              else
                (case DeserializeRecord J (GetStringOr J event_json ''record_payload'' '''') of
                   Inl decode_error \<Rightarrow> None
                 | Inr incoming \<Rightarrow>
                     (let incoming = (if r_workspace_id incoming = ''''
                                      then incoming\<lparr> r_workspace_id := workspace \<rparr> else incoming);
                          incoming = (if r_id incoming = ''''
                                      then incoming\<lparr> r_id := GetStringOr J event_json ''memory_id'' '''' \<rparr>
                                      else incoming)
                      in if r_id incoming = '''' then None else Some incoming))))"

definition apply_incoming :: "('s, 'r, 'j) engine_env \<Rightarrow> MemoryRecord \<Rightarrow> ('s, 'r) MemoryEngine \<Rightarrow>
    ('s, 'r) MemoryEngine" where
  "apply_incoming V incoming e =
     (if (case map_of (e_records e) (RecordMapKey (r_workspace_id incoming) (r_id incoming)) of
            None \<Rightarrow> True | Some current \<Rightarrow> IsIncomingNewer current incoming)
      then UpsertRecordInMemory V (fill_defaults incoming) e else e)"

definition replay_step :: "('s, 'r, 'j) engine_env \<Rightarrow> (string, string) umap \<Rightarrow> KeyValueEntry \<Rightarrow>
    ('s, 'r) MemoryEngine \<Rightarrow> ('s, 'r) MemoryEngine" where
  "replay_step V checkpoints event e =
     (case event_record (ev_json V) checkpoints event of
        None \<Rightarrow> e | Some incoming \<Rightarrow> apply_incoming V incoming e)"

definition ReplayProjectionEvents :: "('s, 'r, 'j) engine_env \<Rightarrow> ('s, 'r) MemoryEngine \<Rightarrow>
    string + ('s, 'r) MemoryEngine" where
  "ReplayProjectionEvents V e =
     (case scan_namespace V kProjectionCkptNs e of
        Inl err \<Rightarrow> Inl err
      | Inr ckpt_entries \<Rightarrow>
          (let checkpoints = fold (ckpt_step (ev_json V)) ckpt_entries [] in
           case scan_namespace V kEventsNs e of
             Inl err \<Rightarrow> Inl err
           | Inr events \<Rightarrow> Inr (fold (replay_step V checkpoints) events e)))"

text \<open>A failed replay leaves the documents that were loaded before it in memory.\<close>

definition engine_Warmup :: "('s, 'r, 'j) engine_env \<Rightarrow> ('s, 'r) MemoryEngine \<Rightarrow>
    (string option \<times> ('s, 'r) MemoryEngine) option" where
  "engine_Warmup V e =
     (case scan_namespace V kDocNs e of
        Inl err \<Rightarrow> Some (Some err, e)
      | Inr entries \<Rightarrow>
          (let e = fold (warm_step V) entries e in
           case ReplayProjectionEvents V e of
             Inl err \<Rightarrow> Some (Some err, e)
           | Inr e \<Rightarrow> map_option (\<lambda>e. (None, e)) (EnforceResidentHardLimit V None e)))"

section \<open>Compaction\<close>

definition compact_less :: "u64 \<Rightarrow> MemoryRecord \<Rightarrow> MemoryRecord \<Rightarrow> bool" where
  "compact_less now_ms lhs rhs \<longleftrightarrow>
     (let lhs_rank = EvictionRank lhs now_ms; rhs_rank = EvictionRank rhs now_ms in
      if lhs_rank = rhs_rank then r_updated_at_ms lhs < r_updated_at_ms rhs else lhs_rank < rhs_rank)"

definition make_tombstone :: "string \<Rightarrow> u64 \<Rightarrow> MemoryRecord \<Rightarrow> MemoryRecord" where
  "make_tombstone node_id now_ms candidate =
     (let tomb = candidate\<lparr> r_tombstone := True, r_tier := ''cold'', r_updated_at_ms := now_ms,
            r_last_access_ms := now_ms, r_version := max (r_version candidate) 1 + 1, r_node_id := node_id \<rparr>
      in tomb\<lparr> r_size_bytes := ComputeRecordSizeBytes tomb \<rparr>)"

record compact_acc =
  ca_writes :: "WriteEntry list"
  ca_records :: "MemoryRecord list"
  ca_count :: u64
  ca_actions :: nat

text \<open>The event and the checkpoint of a compaction step, after the writes of the record itself.\<close>

definition compact_event :: "('s, 'r, 'j) engine_env \<Rightarrow> string \<Rightarrow> u64 \<Rightarrow> MemoryRecord \<Rightarrow> WriteEntry list \<Rightarrow>
    ('s, 'r) MemoryEngine \<times> compact_acc \<Rightarrow> ('s, 'r) MemoryEngine \<times> compact_acc" where
  "compact_event V reason now_ms record writes = (\<lambda>(e, a).
     case AppendProjectionEvent V record OpDelete reason (Some writes) e of
       (None, e) \<Rightarrow> (e, a\<lparr> ca_writes := writes \<rparr>)
     | (Some (writes, event_key), e) \<Rightarrow>
         (let writes = (case AppendProjectionCheckpoint V (r_workspace_id record) event_key now_ms
                          (Some writes) of None \<Rightarrow> writes | Some ws \<Rightarrow> ws) in
          (e, a\<lparr> ca_writes := writes, ca_records := ca_records a @ [record],
                 ca_count := ca_count a + 1, ca_actions := ca_actions a + 1 \<rparr>)))"

fun tombstone_loop :: "('s, 'r, 'j) engine_env \<Rightarrow> nat \<Rightarrow> u64 \<Rightarrow> MemoryRecord list \<Rightarrow>
    ('s, 'r) MemoryEngine \<times> compact_acc \<Rightarrow> ('s, 'r) MemoryEngine \<times> compact_acc" where
  "tombstone_loop V max_batch now_ms [] (e, a) = (e, a)"
| "tombstone_loop V max_batch now_ms (candidate # cs) (e, a) =
     (if max_batch \<le> ca_actions a then (e, a)
      else if r_pinned candidate \<or> r_tombstone candidate
      then tombstone_loop V max_batch now_ms cs (e, a)
      else
        (let tomb = make_tombstone (e_node_id e) now_ms candidate in
         case PersistRecord V e tomb (Some (ca_writes a)) of
           Inl persist_error \<Rightarrow> tombstone_loop V max_batch now_ms cs (e, a)
         | Inr writes \<Rightarrow>
             tombstone_loop V max_batch now_ms cs
               (compact_event V ''compact_tombstone'' now_ms tomb writes (e, a))))"

fun delete_loop :: "('s, 'r, 'j) engine_env \<Rightarrow> nat \<Rightarrow> u64 \<Rightarrow> MemoryRecord list \<Rightarrow>
    ('s, 'r) MemoryEngine \<times> compact_acc \<Rightarrow> ('s, 'r) MemoryEngine \<times> compact_acc" where
  "delete_loop V max_batch now_ms [] (e, a) = (e, a)"
| "delete_loop V max_batch now_ms (candidate # cs) (e, a) =
     (if max_batch \<le> ca_actions a then (e, a)
      else
        (let age_ms = (if r_updated_at_ms candidate < now_ms then now_ms - r_updated_at_ms candidate
                       else 0) in
         if age_ms < op_tombstone_retention_ms (e_options e) then delete_loop V max_batch now_ms cs (e, a)
         else
           (case DeleteRecordStorage V candidate (Some (ca_writes a)) e of
              (None, e) \<Rightarrow> delete_loop V max_batch now_ms cs (e, a)
            | (Some writes, e) \<Rightarrow>
                delete_loop V max_batch now_ms cs
                  (compact_event V ''compact_delete'' now_ms candidate writes (e, a)))))"

definition in_workspace :: "string \<Rightarrow> MemoryRecord \<Rightarrow> bool" where
  "in_workspace workspace_id rec \<longleftrightarrow> workspace_id = '''' \<or> r_workspace_id rec = workspace_id"

definition compact_plan :: "('s, 'r, 'j) engine_env \<Rightarrow> string \<Rightarrow> u64 \<Rightarrow> ('s, 'r) MemoryEngine \<Rightarrow>
    ('s, 'r) MemoryEngine \<times> compact_acc \<times> compact_acc" where
  "compact_plan V workspace_id now_ms e =
     (let max_batch = (if op_gc_batch_size (e_options e) = 0 then 256 else unat (op_gc_batch_size (e_options e)));
          records = filter (in_workspace workspace_id) (map snd (e_records e));
          active_records = sort_by (compact_less now_ms) (filter (\<lambda>rec. \<not> r_tombstone rec) records);
          tombstones = filter r_tombstone records;
          (e, upserted) = tombstone_loop V max_batch now_ms active_records
            (e, \<lparr> ca_writes = [], ca_records = [], ca_count = 0, ca_actions = 0 \<rparr>);
          (e, deleted) =
            (if op_enable_tombstone_gc (e_options e)
             then delete_loop V max_batch now_ms tombstones
               (e, \<lparr> ca_writes = ca_writes upserted, ca_records = [], ca_count = 0,
                     ca_actions = ca_actions upserted \<rparr>)
             else (e, \<lparr> ca_writes = ca_writes upserted, ca_records = [], ca_count = 0,
                        ca_actions = ca_actions upserted \<rparr>))
      in (e, upserted, deleted))"

definition compact_apply :: "('s, 'r, 'j) engine_env \<Rightarrow> WriteEntry list \<Rightarrow> MemoryRecord list \<Rightarrow>
    MemoryRecord list \<Rightarrow> u64 \<Rightarrow> ('s, 'r) MemoryEngine \<Rightarrow> bool \<times> ('s, 'r) MemoryEngine" where
  "compact_apply V writes upserted deleted deleted_count e =
     (if writes = [] then (False, e)
      else
        (let (s, batch_res) = so_BatchWrite (ev_store V) writes (e_store e); e = e\<lparr> e_store := s \<rparr> in
         if \<not> sr_ok batch_res then (False, e)
         else
           (let e = fold (RemoveRecordInMemory V) deleted (fold (UpsertRecordInMemory V) upserted e) in
            (True, if 0 < deleted_count
                   then e\<lparr> e_gc_evicted_count := e_gc_evicted_count e + deleted_count \<rparr> else e))))"

definition capacity_check :: "string \<Rightarrow> StoreUsage \<Rightarrow> ('s, 'r) MemoryEngine \<Rightarrow> bool" where
  "capacity_check workspace_id usage e \<longleftrightarrow>
     (let active = filter (\<lambda>rec. in_workspace workspace_id rec \<and> \<not> r_tombstone rec) (map snd (e_records e));
          has_active = active \<noteq> [];
          has_evictable = list_ex (\<lambda>rec. \<not> r_pinned rec) active;
          pin_blocked = (has_active \<and> \<not> has_evictable \<and>
            op_max_pinned_ratio (e_options e) \<le> PinnedRatio (length (filter r_pinned active)) (length active))
      in (IsOverHighWatermark (e_options e) usage \<and> has_active \<and> \<not> has_evictable) \<or> pin_blocked)"

definition CompactInternal :: "('s, 'r, 'j) engine_env \<Rightarrow> string \<Rightarrow> bool \<Rightarrow> ('s, 'r) MemoryEngine \<Rightarrow>
    CompactOutput \<times> ('s, 'r) MemoryEngine" where
  "CompactInternal V workspace_id force e =
     (let usage = fst (so_ApproximateUsage (ev_store V) (e_store e));
          out = default_CompactOutput\<lparr> co_mem_before_bytes := su_mem_used_bytes usage,
                  co_disk_before_bytes := su_disk_used_bytes usage, co_segments_before := 1 \<rparr>
      in if \<not> force \<and> \<not> IsOverHighWatermark (e_options e) usage
         then (out\<lparr> co_mem_after_bytes := su_mem_used_bytes usage,
                    co_disk_after_bytes := su_disk_used_bytes usage,
                    co_segments_after := co_segments_before out \<rparr>, e)
         else
           (let (now_ms, e) = NowMs V e;
                (e, upserted, deleted) = compact_plan V workspace_id now_ms e;
                (applied, e) = compact_apply V (ca_writes deleted) (ca_records upserted)
                  (ca_records deleted) (ca_count deleted) e;
                reclaimed = (if applied then of_nat (length (ca_records deleted)) else 0);
                usage = fst (so_ApproximateUsage (ev_store V) (e_store e));
                e = e\<lparr> e_gc_last_run_ms := now_ms \<rparr>;
                blocked = capacity_check workspace_id usage e;
                e = e\<lparr> e_capacity_blocked := blocked \<rparr>
            in (out\<lparr> co_triggered := True, co_tombstoned_count := ca_count upserted,
                     co_deleted_count := ca_count deleted, co_postings_reclaimed := reclaimed,
                     co_vectors_reclaimed := reclaimed, co_mem_after_bytes := su_mem_used_bytes usage,
                     co_disk_after_bytes := su_disk_used_bytes usage, co_segments_after := 1,
                     co_capacity_blocked := blocked \<rparr>, e)))"

definition engine_Compact :: "('s, 'r, 'j) engine_env \<Rightarrow> string \<Rightarrow> ('s, 'r) MemoryEngine \<Rightarrow>
    CompactOutput \<times> ('s, 'r) MemoryEngine" where
  "engine_Compact V workspace_id e = CompactInternal V workspace_id True e"

definition StoreCompact :: "('s, 'r, 'j) engine_env \<Rightarrow> ('s, 'r) MemoryEngine \<Rightarrow>
    StoreCompactTriggerResult \<times> ('s, 'r) MemoryEngine" where
  "StoreCompact V e =
     (let (s, res) = so_TriggerStoreCompactAsync (ev_store V) (e_store e) in (res, e\<lparr> e_store := s \<rparr>))"

text \<open>
  One round of \<open>RunGcLoop\<close>, entered when the wait ends (by request, by stop or after its
  30 seconds); \<open>None\<close> means that the thread leaves its loop.
\<close>

definition gc_round :: "('s, 'r, 'j) engine_env \<Rightarrow> ('s, 'r) MemoryEngine \<Rightarrow> ('s, 'r) MemoryEngine option" where
  "gc_round V e =
     (if e_gc_stop e then None
      else Some (snd (CompactInternal V '''' False (e\<lparr> e_gc_requested := False \<rparr>))))"

end
