(* ===== verification/Engine_Resident.thy ===== *)
theory Engine_Resident
  imports Engine_Ops
begin

text \<open>
  The resident set of the engine.  \<open>resident_ok\<close> is its accounting invariant: the maps have
  one entry per key, a record is filed under its own key, every record has its charge, and
  the byte counter is the sum of the charges (as a machine word, so no bound on the sum
  is needed).  The eviction loop keeps it, returns, and stops only within the limit or
  when all that is left is pinned.
\<close>

section \<open>Steps that only move the clock and the sequence number\<close>

definition clock_step :: "('s, 'r) MemoryEngine \<Rightarrow> ('s, 'r) MemoryEngine \<Rightarrow> bool" where
  "clock_step e e' \<longleftrightarrow> (\<exists>t n. e' = e\<lparr> e_ticks := t, e_local_seq := n \<rparr>)"

lemma clock_step_refl [simp]: "clock_step e e"
  unfolding clock_step_def by (intro exI [of _ "e_ticks e"] exI [of _ "e_local_seq e"]) simp

lemma clock_step_trans [trans]: "clock_step e e' \<Longrightarrow> clock_step e' e'' \<Longrightarrow> clock_step e e''"
  unfolding clock_step_def by (elim exE) (simp, blast)

lemma clock_step_NowMs [simp]: "clock_step e (snd (NowMs V e))"
  unfolding clock_step_def NowMs_def
  by (intro exI [of _ "e_ticks e + 1"] exI [of _ "e_local_seq e"]) simp

lemma clock_step_sel:
  assumes "clock_step e e'"
  shows "e_records e' = e_records e" "e_dedup_index e' = e_dedup_index e" "e_store e' = e_store e"
    "e_resident_charge_bytes e' = e_resident_charge_bytes e" "e_options e' = e_options e"
    "e_resident_used_bytes e' = e_resident_used_bytes e" "e_retriever e' = e_retriever e"
    "e_node_id e' = e_node_id e" "e_gc_evicted_count e' = e_gc_evicted_count e"
  using assms by (auto simp: clock_step_def)

lemma clock_step_seq: "clock_step e ((snd (NowMs V e))\<lparr> e_local_seq := n \<rparr>)"
  unfolding clock_step_def NowMs_def by (intro exI [of _ "e_ticks e + 1"] exI [of _ n]) simp

lemma clock_step_NextMemoryId [simp]: "clock_step e (snd (NextMemoryId V e))"
  by (simp add: NextMemoryId_def Let_def case_prod_beta clock_step_seq)

lemma clock_step_AppendProjectionEvent [simp]:
  "clock_step e (snd (AppendProjectionEvent V record op reason out e))"
  by (simp add: AppendProjectionEvent_def Let_def case_prod_beta clock_step_seq split: option.split)

lemma AppendProjectionEvent_clock:
  "AppendProjectionEvent V record op reason out e = (res, e') \<Longrightarrow> clock_step e e'"
  using clock_step_AppendProjectionEvent [of e V "record" op reason out] by simp

lemma clock_step_stage_record: "clock_step e (fst (stage_record V now record (e, a)))"
  by (auto simp: stage_record_def Let_def split: sum.splits prod.splits option.splits
      dest: AppendProjectionEvent_clock)

lemma clock_step_write_step: "clock_step e (fst (write_step V input now rec_in (e, a)))"
proof -
  have "clock_step e (snd (if b then NextMemoryId V e else (i, e)))" for b i
    by simp
  note 1 = clock_step_trans [OF this clock_step_stage_record]
  show ?thesis
    unfolding write_step_def prod.case Let_def case_prod_beta fst_conv snd_conv
    by (split if_split, intro conjI impI, simp, split option.split, intro conjI allI impI)
      (rule 1, simp)
qed

lemma clock_step_write_fold: "clock_step e (fst (fold (write_step V input now) rs (e, a)))"
proof (induction rs arbitrary: e a)
  case (Cons r rs)
  obtain e' a' where s: "write_step V input now r (e, a) = (e', a')" by fastforce
  then have "clock_step e e'" using clock_step_write_step [of e V input now r a] by simp
  with s Cons.IH [of e' a'] show ?case by (auto intro: clock_step_trans)
qed simp

lemma clock_step_write_stage: "clock_step e (fst (snd (write_stage V input e)))"
  unfolding write_stage_def Let_def case_prod_beta fst_conv snd_conv
  by (rule clock_step_trans [OF clock_step_NowMs clock_step_write_fold])

lemma clock_step_stamp_deletes: "clock_step e (snd (stamp_deletes V ks e))"
proof (induction ks arbitrary: e)
  case (Cons k ks)
  obtain ns key where k: "k = (ns, key)" by fastforce
  show ?case
    unfolding k stamp_deletes.simps Let_def case_prod_beta snd_conv
    by (rule clock_step_trans [OF clock_step_NowMs Cons.IH])
qed simp

lemma clock_step_DeleteRecordStorage: "clock_step e (snd (DeleteRecordStorage V record out e))"
  by (simp add: DeleteRecordStorage_def Let_def case_prod_beta clock_step_stamp_deletes
      del: append.simps stamp_deletes.simps split: option.split)

lemma clock_step_compact_event:
  "clock_step e (fst (compact_event V reason now record writes (e, a)))"
  by (auto simp: compact_event_def Let_def split: option.splits prod.splits
      dest: AppendProjectionEvent_clock)

lemma clock_step_tombstone_loop: "clock_step e (fst (tombstone_loop V mx now cs (e, a)))"
proof (induction cs arbitrary: e a)
  case (Cons c cs)
  have "clock_step e (fst (tombstone_loop V mx now cs (compact_event V reason now r ws (e, a))))"
    for reason r ws
    using Cons.IH clock_step_compact_event [of e V reason now r ws a]
    by (metis clock_step_trans prod.collapse)
  with Cons.IH show ?case by (simp add: Let_def split: sum.split)
qed simp

lemma clock_step_delete_loop: "clock_step e (fst (delete_loop V mx now cs (e, a)))"
proof (induction cs arbitrary: e a)
  case (Cons c cs)
  obtain o1 e1 where d: "DeleteRecordStorage V c (Some (ca_writes a)) e = (o1, e1)" by fastforce
  have e1: "clock_step e e1" using clock_step_DeleteRecordStorage [of e V c] by (metis d snd_conv)
  have 1: "clock_step e (fst (delete_loop V mx now cs (compact_event V reason now r ws (e1, a))))"
    for reason r ws
    using Cons.IH clock_step_compact_event [of e1 V reason now r ws a] e1
    by (metis clock_step_trans prod.collapse)
  have 2: "clock_step e (fst (delete_loop V mx now cs (e1, a)))"
    using e1 Cons.IH by (rule clock_step_trans)
  from 1 2 Cons.IH show ?case by (simp add: d Let_def split: option.split)
qed simp

lemma clock_step_compact_plan: "clock_step e (fst (compact_plan V ws now e))"
proof -
  have "clock_step e (fst (delete_loop V mx now cs (fst (tombstone_loop V mx now ts (e, a)), b)))"
    for mx cs ts a b
    by (rule clock_step_trans [OF clock_step_tombstone_loop clock_step_delete_loop])
  with clock_step_tombstone_loop [of e V] show ?thesis
    unfolding compact_plan_def Let_def case_prod_beta by simp
qed

section \<open>The accounting invariant\<close>

definition filed_ok :: "(string, MemoryRecord) umap \<Rightarrow> bool" where
  "filed_ok records \<longleftrightarrow> umap_ok records \<and>
     (\<forall>(k, r) \<in> set records. k = RecordMapKey (r_workspace_id r) (r_id r))"

definition charge_map :: "(MemoryRecord \<Rightarrow> u64) \<Rightarrow> (string, MemoryRecord) umap \<Rightarrow> string \<Rightarrow> u64 option" where
  "charge_map charge records k =
     (case map_of records k of
        None \<Rightarrow> None | Some r \<Rightarrow> if charge r = 0 then None else Some (charge r))"

definition resident_ok :: "('s, 'r, 'j) engine_env \<Rightarrow> ('s, 'r) MemoryEngine \<Rightarrow> bool" where
  "resident_ok V e \<longleftrightarrow> filed_ok (e_records e) \<and> umap_ok (e_resident_charge_bytes e) \<and>
     umap_ok (e_dedup_index e) \<and>
     map_of (e_resident_charge_bytes e) =
       charge_map (EstimateResidentCharge V (e_retriever e)) (e_records e) \<and>
     e_resident_used_bytes e =
       umap_sum (\<lambda>kv. EstimateResidentCharge V (e_retriever e) (snd kv)) (e_records e)"

lemma filed_ok_put [inv_intros]:
  "filed_ok m \<Longrightarrow> k = RecordMapKey (r_workspace_id r) (r_id r) \<Longrightarrow> filed_ok (umap_put k r m)"
  by (auto simp: filed_ok_def set_umap_put)

lemma filed_ok_erase [inv_intros]: "filed_ok m \<Longrightarrow> filed_ok (umap_erase k m)"
  by (auto simp: filed_ok_def set_umap_erase)

lemma filed_okD:
  "filed_ok m \<Longrightarrow> map_of m k = Some r \<Longrightarrow> k = RecordMapKey (r_workspace_id r) (r_id r)"
  "filed_ok m \<Longrightarrow> umap_ok m"
  by (auto simp: filed_ok_def dest: map_of_SomeD)

lemma charge_map_put:
  "charge_map c (umap_put k r m) = (charge_map c m)(k := (if c r = 0 then None else Some (c r)))"
  by (auto simp: charge_map_def umap_simps fun_eq_iff)

lemma charge_map_erase: "charge_map c (umap_erase k m) = (charge_map c m)(k := None)"
  by (auto simp: charge_map_def umap_simps fun_eq_iff)

lemma resident_ok_clock: "clock_step e e' \<Longrightarrow> resident_ok V e' = resident_ok V e"
  by (simp add: resident_ok_def clock_step_sel)

text \<open>Updates of fields that the accounting does not mention.\<close>

lemma resident_ok_frame [simp]:
  "resident_ok V (e\<lparr> e_store := s \<rparr>) = resident_ok V e"
  "resident_ok V (e\<lparr> e_metrics := mt \<rparr>) = resident_ok V e"
  "resident_ok V (e\<lparr> e_index_generation := n \<rparr>) = resident_ok V e"
  "resident_ok V (e\<lparr> e_resident_evicted_count := n \<rparr>) = resident_ok V e"
  "resident_ok V (e\<lparr> e_gc_requested := b \<rparr>) = resident_ok V e"
  "resident_ok V (e\<lparr> e_gc_stop := b \<rparr>) = resident_ok V e"
  "resident_ok V (e\<lparr> e_gc_last_run_ms := n \<rparr>) = resident_ok V e"
  "resident_ok V (e\<lparr> e_gc_evicted_count := n \<rparr>) = resident_ok V e"
  "resident_ok V (e\<lparr> e_capacity_blocked := b \<rparr>) = resident_ok V e"
  "resident_ok V (e\<lparr> e_query_cache_total := n \<rparr>) = resident_ok V e"
  "resident_ok V (e\<lparr> e_dense_probe_query_count := n \<rparr>) = resident_ok V e"
  "resident_ok V (e\<lparr> e_dense_probe_count_total := n \<rparr>) = resident_ok V e"
  by (simp_all add: resident_ok_def)

section \<open>Eviction\<close>

text \<open>The first least element of a list, as a scan that keeps the best so far finds it.\<close>

definition better_of :: "('a \<Rightarrow> 'a \<Rightarrow> bool) \<Rightarrow> 'a \<Rightarrow> 'a option \<Rightarrow> 'a option" where
  "better_of lt x best = (case best of None \<Rightarrow> Some x | Some b \<Rightarrow> if lt x b then Some x else best)"

lemma better_of_simps [simp]:
  "better_of lt x None = Some x"
  "better_of lt x (Some b) = Some (if lt x b then x else b)"
  by (simp_all add: better_of_def)

definition least_by :: "('a \<Rightarrow> 'a \<Rightarrow> bool) \<Rightarrow> 'a list \<Rightarrow> 'a option" where
  "least_by lt xs = fold (better_of lt) xs None"

context weak_order begin

lemma fold_better_of:
  "\<exists>m. fold (better_of lt) xs (Some b) = Some m \<and> m \<in> insert b (set xs) \<and>
     (\<forall>x \<in> insert b (set xs). \<not> lt x m)"
proof (induction xs arbitrary: b)
  case Nil
  then show ?case using lt_asym by auto
next
  case (Cons y ys)
  define c where "c = (if lt y b then y else b)"
  from Cons.IH [of c] obtain m where m: "fold (better_of lt) ys (Some c) = Some m"
    "m \<in> insert c (set ys)" "\<forall>x \<in> insert c (set ys). \<not> lt x m" by auto
  have "\<not> lt x m" if "x = b \<or> x = y" for x
  proof
    assume "lt x m"
    then have "lt x c \<or> lt c m" by (rule lt_negtrans)
    with m(3) have "lt x c" by simp
    with that show False using lt_asym by (auto simp: c_def split: if_splits)
  qed
  with m show ?case by (auto simp: c_def [symmetric]) (auto simp: c_def split: if_splits)
qed

lemma least_by_None: "least_by lt xs = None \<longleftrightarrow> xs = []"
proof (cases xs)
  case (Cons a list)
  with fold_better_of [of list a] show ?thesis by (auto simp: least_by_def)
qed (simp add: least_by_def)

lemma least_by_Some: "least_by lt xs = Some m \<Longrightarrow> m \<in> set xs \<and> (\<forall>x \<in> set xs. \<not> lt x m)"
proof (cases xs)
  case (Cons a list)
  with fold_better_of [of list a] show "least_by lt xs = Some m \<Longrightarrow> ?thesis" by (auto simp: least_by_def)
qed (simp add: least_by_def)

end

interpretation compact_order: weak_order "compact_less now" for now
  by unfold_locales (auto simp: compact_less_def Let_def split: if_splits)

definition evictable :: "string list option \<Rightarrow> bool \<Rightarrow> MemoryRecord \<Rightarrow> bool" where
  "evictable p allow rec \<longleftrightarrow> \<not> r_pinned rec \<and>
     (allow \<or> (case p of None \<Rightarrow> True | Some ks \<Rightarrow> RecordMapKey (r_workspace_id rec) (r_id rec) \<notin> set ks))"

lemma pick_candidate_least_by:
  "pick_candidate now p allow records = least_by (compact_less now) (filter (evictable p allow) (map snd records))"
proof -
  have "map_option fst (fold (\<lambda>kv. consider_victim now p allow (snd kv)) records best) =
      fold (better_of (compact_less now)) (filter (evictable p allow) (map snd records)) (map_option fst best)"
    if "case best of None \<Rightarrow> True | Some (b, x) \<Rightarrow> x = EvictionRank b now" for best
    using that
  proof (induction records arbitrary: best)
    case (Cons kv records)
    let ?b = "consider_victim now p allow (snd kv) best"
    have b: "case ?b of None \<Rightarrow> True | Some (b, x) \<Rightarrow> x = EvictionRank b now"
      using Cons.prems by (auto simp: consider_victim_def Let_def split: option.splits)
    have "map_option fst ?b =
        (if evictable p allow (snd kv) then better_of (compact_less now) (snd kv) (map_option fst best)
         else map_option fst best)"
      using Cons.prems
      by (auto simp: consider_victim_def evictable_def better_of_def compact_less_def Let_def
          split: option.splits)
    with Cons.IH [OF b] show ?case by auto
  qed simp
  from this [of None] show ?thesis by (simp add: pick_candidate_def least_by_def)
qed

lemma pick_candidate_props:
  "pick_candidate now p allow records = None \<longleftrightarrow> (\<forall>r \<in> snd ` set records. \<not> evictable p allow r)"
  "pick_candidate now p allow records = Some v \<Longrightarrow> v \<in> snd ` set records \<and> evictable p allow v \<and>
     (\<forall>r \<in> snd ` set records. evictable p allow r \<longrightarrow> \<not> compact_less now r v)"
  unfolding pick_candidate_least_by compact_order.least_by_None
  by (force simp: filter_empty_conv dest!: compact_order.least_by_Some)+

lemma Select_in:
  "SelectEvictionCandidateLocked now p records = Some r \<Longrightarrow> r \<in> snd ` set records \<and> \<not> r_pinned r"
  using pick_candidate_props(2) [of now p _ records r]
  by (auto simp: SelectEvictionCandidateLocked_def evictable_def split: if_splits option.splits)

lemma Select_None_iff:
  "SelectEvictionCandidateLocked now p records = None \<longleftrightarrow> (\<forall>r \<in> snd ` set records. r_pinned r)"
  unfolding SelectEvictionCandidateLocked_def
  using pick_candidate_props(1) [of now p False records] pick_candidate_props(1) [of now p True records]
  by (cases p; cases "pick_candidate now p False records") (auto simp: evictable_def)

section \<open>The eviction loop\<close>

definition enforced :: "('s, 'r) MemoryEngine \<Rightarrow> ('s, 'r) MemoryEngine \<Rightarrow> bool" where
  "enforced e e' \<longleftrightarrow>
     map_of (e_records e') \<subseteq>\<^sub>m map_of (e_records e) \<and>
     (filed_ok (e_records e) \<longrightarrow> filed_ok (e_records e')) \<and>
     (\<forall>k r. map_of (e_records e) k = Some r \<and> r_pinned r \<longrightarrow> map_of (e_records e') k = Some r) \<and>
     e_options e' = e_options e \<and> e_store e' = e_store e \<and> e_dedup_index e' = e_dedup_index e \<and>
     e_node_id e' = e_node_id e"

lemma enforced_refl [simp]: "enforced e e"
  by (simp add: enforced_def)

lemma enforced_trans: "enforced e e' \<Longrightarrow> enforced e' e'' \<Longrightarrow> enforced e e''"
  unfolding enforced_def by (metis map_le_trans)

lemma enforced_clock: "clock_step e e' \<Longrightarrow> enforced e e'"
  by (simp add: enforced_def clock_step_sel)

lemma evict_sel [simp]:
  "e_records (evict V victim e) = umap_erase (RecordMapKey (r_workspace_id victim) (r_id victim)) (e_records e)"
  "e_retriever (evict V victim e) = rt_Remove (ev_retriever V) (r_workspace_id victim) (r_id victim) (e_retriever e)"
  "e_options (evict V victim e) = e_options e"
  "e_store (evict V victim e) = e_store e"
  "e_dedup_index (evict V victim e) = e_dedup_index e"
  "e_node_id (evict V victim e) = e_node_id e"
  by (auto simp: evict_def Let_def split: option.splits)

lemma filed_ok_in:
  "filed_ok m \<Longrightarrow> r \<in> snd ` set m \<Longrightarrow> map_of m (RecordMapKey (r_workspace_id r) (r_id r)) = Some r"
  by (auto simp: filed_ok_def)

lemma enforced_evict:
  assumes "filed_ok (e_records e)" "r \<in> snd ` set (e_records e)" "\<not> r_pinned r"
  shows "enforced e (evict V r e)"
  using filed_ok_in [OF assms(1,2)] assms(3)
  by (auto simp: enforced_def umap_simps map_le_def filed_ok_erase)

text \<open>On well-filed records the loop returns, and it only gives up when all that is left is pinned.\<close>

lemma enforce_loop_returns:
  "filed_ok (e_records e) \<Longrightarrow> \<exists>e'. enforce_loop V p e = Some e' \<and> enforced e e' \<and>
     (e_resident_used_bytes e' \<le> ResidentLimitBytes e' \<or> (\<forall>r \<in> snd ` set (e_records e'). r_pinned r))"
proof (induction "length (e_records e)" arbitrary: e rule: less_induct)
  case less
  show ?case
  proof (cases "\<not> ResidentLimitBytes e < e_resident_used_bytes e \<or> e_records e = []")
    case True
    then show ?thesis by (subst enforce_loop.simps) auto
  next
    case False
    obtain now e1 where n: "NowMs V e = (now, e1)" by fastforce
    then have c: "clock_step e e1" using clock_step_NowMs [of e V] by simp
    note rec = clock_step_sel(1) [OF c]
    show ?thesis
    proof (cases "SelectEvictionCandidateLocked now p (e_records e1)")
      case None
      then have "\<forall>r \<in> snd ` set (e_records e1). r_pinned r" by (simp only: Select_None_iff)
      with None False enforced_clock [OF c] show ?thesis
        by (subst enforce_loop.simps) (auto simp: n)
    next
      case (Some r)
      then have r: "r \<in> snd ` set (e_records e1)" "\<not> r_pinned r" by (auto dest: Select_in)
      have f: "filed_ok (e_records e1)" using less.prems by (simp add: rec)
      note found = filed_ok_in [OF f r(1)]
      have "length (e_records (evict V r e1)) < length (e_records e)"
        using found length_umap_erase_less [of "e_records e1"] by (simp add: rec)
      moreover have "filed_ok (e_records (evict V r e1))" using f by (simp add: filed_ok_erase)
      ultimately obtain e' where e': "enforce_loop V p (evict V r e1) = Some e'" "enforced (evict V r e1) e'"
        "e_resident_used_bytes e' \<le> ResidentLimitBytes e' \<or> (\<forall>r \<in> snd ` set (e_records e'). r_pinned r)"
        using less.hyps by blast
      have "enforced e e'"
        using enforced_trans [OF enforced_trans [OF enforced_clock [OF c] enforced_evict [OF f r]] e'(2)] .
      with e' False Some found show ?thesis
        by (subst enforce_loop.simps) (auto simp: n)
    qed
  qed
qed

lemma Enforce_returns:
  assumes "filed_ok (e_records e)"
  obtains e' where "EnforceResidentHardLimit V p e = Some e'" "enforced e e'"
    "ResidentLimitBytes e = 0 \<or> e_resident_used_bytes e' \<le> ResidentLimitBytes e' \<or>
     (\<forall>r \<in> snd ` set (e_records e'). r_pinned r)"
  using enforce_loop_returns [OF assms, of V p] that
  by (cases "ResidentLimitBytes e = 0") (auto simp: EnforceResidentHardLimit_def)

section \<open>Accounting\<close>

text \<open>Replacing one summand, on machine words.\<close>

lemma charge_sum_put:
  fixes c :: "'v \<Rightarrow> u64"
  assumes "umap_ok m"
  shows "umap_sum (\<lambda>kv. c (snd kv)) (umap_put k v m) =
    umap_sum (\<lambda>kv. c (snd kv)) m + c v - (case map_of m k of None \<Rightarrow> 0 | Some w \<Rightarrow> c w)"
  using umap_sum_put [OF assms, of "\<lambda>kv. c (snd kv)" k v] unfolding snd_conv
  by (metis add_diff_cancel)

lemma charge_sum_erase:
  fixes c :: "'v \<Rightarrow> u64"
  assumes "umap_ok m"
  shows "umap_sum (\<lambda>kv. c (snd kv)) (umap_erase k m) =
    umap_sum (\<lambda>kv. c (snd kv)) m - (case map_of m k of None \<Rightarrow> 0 | Some w \<Rightarrow> c w)"
  using umap_sum_erase [OF assms, of "\<lambda>kv. c (snd kv)" k] unfolding snd_conv
  by (metis add_diff_cancel)

lemma charge_map_value:
  "(case charge_map c m k of None \<Rightarrow> 0 | Some x \<Rightarrow> x) = (case map_of m k of None \<Rightarrow> 0 | Some r \<Rightarrow> c r)"
  by (simp add: charge_map_def split: option.split)

lemma UpsertRecordInMemory_sel:
  "e_records (UpsertRecordInMemory V record e) =
     umap_put (RecordMapKey (r_workspace_id record) (r_id record)) record (e_records e)"
  "e_dedup_index (UpsertRecordInMemory V record e) =
     (if r_dedup_key record = '''' then e_dedup_index e
      else umap_put (r_workspace_id record @ '':'' @ r_dedup_key record) (r_id record) (e_dedup_index e))"
  "e_resident_charge_bytes (UpsertRecordInMemory V record e) =
     (let key = RecordMapKey (r_workspace_id record) (r_id record);
          c = EstimateResidentCharge V (e_retriever e) record in
      if c = 0 then umap_erase key (e_resident_charge_bytes e)
      else umap_put key c (e_resident_charge_bytes e))"
  "e_resident_used_bytes (UpsertRecordInMemory V record e) =
     e_resident_used_bytes e + EstimateResidentCharge V (e_retriever e) record
     - (case map_of (e_resident_charge_bytes e) (RecordMapKey (r_workspace_id record) (r_id record)) of
          None \<Rightarrow> 0 | Some c \<Rightarrow> c)"
  "e_retriever (UpsertRecordInMemory V record e) =
     (if r_tombstone record
      then rt_Remove (ev_retriever V) (r_workspace_id record) (r_id record) (e_retriever e)
      else rt_Index (ev_retriever V) record (e_retriever e))"
  "e_options (UpsertRecordInMemory V record e) = e_options e"
  "e_store (UpsertRecordInMemory V record e) = e_store e"
  "e_node_id (UpsertRecordInMemory V record e) = e_node_id e"
  by (simp_all add: UpsertRecordInMemory_def Let_def)

lemma RemoveRecordInMemory_sel:
  fixes e rec V
  defines "key \<equiv> RecordMapKey (r_workspace_id rec) (r_id rec)"
  shows
  "e_records (RemoveRecordInMemory V rec e) = umap_erase key (e_records e)"
  "e_dedup_index (RemoveRecordInMemory V rec e) =
     (case map_of (e_records e) key of
        None \<Rightarrow> e_dedup_index e
      | Some found \<Rightarrow> if r_dedup_key found = '''' then e_dedup_index e
                      else umap_erase (r_workspace_id rec @ '':'' @ r_dedup_key found) (e_dedup_index e))"
  "e_resident_charge_bytes (RemoveRecordInMemory V rec e) = umap_erase key (e_resident_charge_bytes e)"
  "e_resident_used_bytes (RemoveRecordInMemory V rec e) =
     (case map_of (e_records e) key of
        None \<Rightarrow> e_resident_used_bytes e
      | Some _ \<Rightarrow> e_resident_used_bytes e -
          (case map_of (e_resident_charge_bytes e) key of None \<Rightarrow> 0 | Some c \<Rightarrow> c))"
  "e_retriever (RemoveRecordInMemory V rec e) =
     (case map_of (e_records e) key of
        None \<Rightarrow> e_retriever e
      | Some _ \<Rightarrow> rt_Remove (ev_retriever V) (r_workspace_id rec) (r_id rec) (e_retriever e))"
  "e_options (RemoveRecordInMemory V rec e) = e_options e"
  "e_store (RemoveRecordInMemory V rec e) = e_store e"
  "e_node_id (RemoveRecordInMemory V rec e) = e_node_id e"
  by (auto simp: RemoveRecordInMemory_def Let_def key_def word_gt_0 umap_erase_absent
      split: option.split)

lemma evict_accounts:
  fixes e victim V
  defines "key \<equiv> RecordMapKey (r_workspace_id victim) (r_id victim)"
  shows "e_resident_charge_bytes (evict V victim e) = umap_erase key (e_resident_charge_bytes e)"
    "e_resident_used_bytes (evict V victim e) = e_resident_used_bytes e -
       (case map_of (e_resident_charge_bytes e) key of None \<Rightarrow> 0 | Some c \<Rightarrow> c)"
  by (auto simp: evict_def Let_def key_def word_gt_0 umap_erase_absent split: option.split)

locale resident_engine = retriever "ev_retriever V" rinv rdocs
  for V :: "('s, 'r, 'j) engine_env" and rinv :: "'r \<Rightarrow> bool"
    and rdocs :: "'r \<Rightarrow> string \<Rightarrow> string \<Rightarrow> MemoryRecord option"
begin

lemma charge_Index: "EstimateResidentCharge V (rt_Index (ev_retriever V) record s) = EstimateResidentCharge V s"
  by (simp add: fun_eq_iff EstimateResidentCharge_def DocBytes_Index)

lemma charge_Remove: "EstimateResidentCharge V (rt_Remove (ev_retriever V) ws i s) = EstimateResidentCharge V s"
  by (simp add: fun_eq_iff EstimateResidentCharge_def DocBytes_Remove)

lemma charge_access: "EstimateResidentCharge V s (record\<lparr> r_last_access_ms := a, r_hit_count := h \<rparr>) =
    EstimateResidentCharge V s record"
  by (simp add: EstimateResidentCharge_def DocBytes_access ComputeRecordSizeBytes_def)

lemma resident_ok_Upsert:
  assumes "resident_ok V e"
  shows "resident_ok V (UpsertRecordInMemory V record e)"
proof -
  have ok: "umap_ok (e_records e)" using assms by (simp add: resident_ok_def filed_ok_def)
  show ?thesis
    using assms
    unfolding resident_ok_def UpsertRecordInMemory_sel
    by (simp add: charge_Index charge_Remove umap_simps charge_map_put filed_ok_put Let_def
        charge_sum_put [OF ok] charge_map_value cong: option.case_cong)
qed

lemma resident_ok_Remove:
  assumes "resident_ok V e"
  shows "resident_ok V (RemoveRecordInMemory V record e)"
proof -
  have ok: "umap_ok (e_records e)" using assms by (simp add: resident_ok_def filed_ok_def)
  show ?thesis
    using assms
    unfolding resident_ok_def RemoveRecordInMemory_sel
    by (auto simp: charge_Remove umap_simps charge_map_erase filed_ok_erase umap_erase_absent
        charge_sum_erase [OF ok] charge_map_value split: option.split)
qed

lemma resident_ok_evict:
  assumes "resident_ok V e"
  shows "resident_ok V (evict V victim e)"
proof -
  have ok: "umap_ok (e_records e)" using assms by (simp add: resident_ok_def filed_ok_def)
  show ?thesis
    using assms
    unfolding resident_ok_def evict_accounts evict_sel
    by (simp add: charge_Remove umap_simps charge_map_erase filed_ok_erase
        charge_sum_erase [OF ok] charge_map_value)
qed

lemma resident_ok_touch:
  assumes "resident_ok V e"
  shows "resident_ok V (e\<lparr> e_records := touch_record ws now hit (e_records e) \<rparr>)"
proof (cases "map_of (e_records e) (RecordMapKey ws (h_memory_id hit))")
  case None
  with assms show ?thesis by (simp add: touch_record_def)
next
  case (Some r)
  have ok: "filed_ok (e_records e)" using assms by (simp add: resident_ok_def)
  define key where "key = RecordMapKey ws (h_memory_id hit)"
  define r' where "r' = r\<lparr> r_last_access_ms := now, r_hit_count := r_hit_count r + 1 \<rparr>"
  have r: "map_of (e_records e) key = Some r" using Some by (simp add: key_def)
  have c: "EstimateResidentCharge V s r' = EstimateResidentCharge V s r" for s
    by (simp add: r'_def charge_access)
  have "filed_ok (umap_put key r' (e_records e))"
    using filed_okD(1) [OF ok r] by (intro filed_ok_put [OF ok]) (simp add: r'_def)
  moreover have "charge_map (EstimateResidentCharge V s) (umap_put key r' (e_records e)) =
      charge_map (EstimateResidentCharge V s) (e_records e)" for s
    by (simp add: charge_map_put fun_eq_iff c) (simp add: charge_map_def r)
  moreover have "umap_sum (\<lambda>kv. EstimateResidentCharge V s (snd kv)) (umap_put key r' (e_records e)) =
      umap_sum (\<lambda>kv. EstimateResidentCharge V s (snd kv)) (e_records e)" for s
    using filed_okD(2) [OF ok] by (simp add: charge_sum_put r c)
  ultimately have "resident_ok V (e\<lparr> e_records := umap_put key r' (e_records e) \<rparr>)"
    using assms by (simp add: resident_ok_def)
  with assms r show ?thesis by (auto simp: touch_record_def key_def r'_def)
qed

end

end
