(* ===== verification/Engine_Steps.thy ===== *)
theory Engine_Steps
  imports Engine_Resident
begin

text \<open>
  What the parts of an operation do, said once for the proofs about the whole operations:
  the writes that a record gives rise to, the effect of one round of the loops of
  \<open>Write\<close> and \<open>CompactInternal\<close> on their accumulators.
\<close>

section \<open>Persisting\<close>

definition record_writes :: "('s, 'r, 'j) engine_env \<Rightarrow> (string, MemoryRecord) umap \<Rightarrow> MemoryRecord \<Rightarrow>
    WriteEntry list" where
  "record_writes V records r =
     upsert_entry kDocNs (BuildDocKey (r_workspace_id r) (r_id r)) (SerializeRecord (ev_json V) r)
       (r_updated_at_ms r) #
     (case map_of records (RecordMapKey (r_workspace_id r) (r_id r)) of
        None \<Rightarrow> []
      | Some old \<Rightarrow> delete_terms_for V (r_updated_at_ms r) old @ delete_vectors_for V (r_updated_at_ms r) old) @
     (if r_tombstone r
      then delete_terms_for V (r_updated_at_ms r) r @ delete_vectors_for V (r_updated_at_ms r) r
      else vector_writes V r @
        concat (map (term_writes V r (length (Tokenize (r_content r)))) (token_counts (Tokenize (r_content r)))))"

lemma PersistRecord_Some:
  "PersistRecord V e r (Some w) = Inr (w @ record_writes V (e_records e) r)"
  by (simp add: PersistRecord_def record_writes_def Let_def)

text \<open>Writes that only concern the projection log.\<close>

definition log_writes :: "WriteEntry list \<Rightarrow> bool" where
  "log_writes ws \<longleftrightarrow>
     list_all (\<lambda>w. we_op w = WUpsert \<and>
       kv_name_space (we_entry w) \<in> {kEventsNs, kProjectionCkptNs}) ws"

lemma AppendProjectionEvent_Some:
  obtains ev key e' where
    "AppendProjectionEvent V r op reason (Some w) e = (Some (w @ ev, key), e')"
    "log_writes ev" "ev \<noteq> []" "clock_step e e'"
proof -
  obtain res e' where a: "AppendProjectionEvent V r op reason (Some w) e = (res, e')" by fastforce
  note c = AppendProjectionEvent_clock [OF a]
  from a obtain k v ts where
    "AppendProjectionEvent V r op reason (Some w) e = (Some (w @ [upsert_entry kEventsNs k v ts], k), e')"
    unfolding AppendProjectionEvent_def Let_def case_prod_beta option.case by auto
  with c show ?thesis
    by (intro that [of "[upsert_entry kEventsNs k v ts]" k e']) (simp_all add: log_writes_def upsert_entry_def)
qed

lemma AppendProjectionCheckpoint_Some:
  obtains ck where
    "(case AppendProjectionCheckpoint V ws key ts (Some w) of None \<Rightarrow> w | Some w' \<Rightarrow> w') = w @ ck"
    "log_writes ck"
proof (cases "ws = '''' \<or> key = ''''")
  case True
  then show ?thesis
    by (intro that [of "[]"]) (auto simp: AppendProjectionCheckpoint_def log_writes_def)
next
  case False
  obtain k v where "AppendProjectionCheckpoint V ws key ts (Some w) = Some (w @ [upsert_entry kProjectionCkptNs k v ts])"
    using False by (simp add: AppendProjectionCheckpoint_def Let_def)
  then show ?thesis
    by (intro that [of "[upsert_entry kProjectionCkptNs k v ts]"]) (simp_all add: log_writes_def upsert_entry_def)
qed

lemma log_writes_append [simp]: "log_writes (a @ b) \<longleftrightarrow> log_writes a \<and> log_writes b"
  by (simp add: log_writes_def)

section \<open>One round of Write\<close>

lemma stage_record_cases:
  obtains (oversized) "op_max_record_bytes (e_options e) < r_size_bytes r"
      "stage_record V now r (e, a) =
         (e, a\<lparr> wa_out := add_warning (''skip oversized record: '' @ r_id r) (wa_out a) \<rparr>)"
  | (staged) e' lg where "\<not> op_max_record_bytes (e_options e) < r_size_bytes r"
      "clock_step e e'" "log_writes lg"
      "stage_record V now r (e, a) = (e', a\<lparr>
         wa_writes := wa_writes a @ record_writes V (e_records e) r @ lg, wa_upserts := wa_upserts a @ [r],
         wa_out := (wa_out a)\<lparr> wo_stored_ids := wo_stored_ids (wa_out a) @ [r_id r] \<rparr>,
         wa_projected_active := wa_projected_active a + 1,
         wa_projected_pinned := wa_projected_pinned a + (if r_pinned r then 1 else 0) \<rparr>)"
proof (cases "op_max_record_bytes (e_options e) < r_size_bytes r")
  case True
  then show ?thesis by (intro oversized) (simp_all add: stage_record_def)
next
  case False
  let ?w = "wa_writes a @ record_writes V (e_records e) r"
  obtain ev key e' where ev: "AppendProjectionEvent V r OpUpsert ''write'' (Some ?w) e = (Some (?w @ ev, key), e')"
    "log_writes ev" "clock_step e e'"
    by (rule AppendProjectionEvent_Some)
  obtain ck where ck: "(case AppendProjectionCheckpoint V (r_workspace_id r) key now (Some (?w @ ev)) of
      None \<Rightarrow> ?w @ ev | Some w' \<Rightarrow> w') = (?w @ ev) @ ck" "log_writes ck"
    by (rule AppendProjectionCheckpoint_Some)
  show ?thesis
    using False ev ck(2)
    by (intro staged [of e' "ev @ ck"])
      (simp_all add: stage_record_def PersistRecord_Some ck(1) [unfolded append_assoc] Let_def)
qed

lemma pin_decision_granted:
  "fst (pin_decision opts pin active pinned) \<Longrightarrow>
   pin \<and> pinned + 1 \<le> unat (op_pin_quota_per_workspace opts) \<and>
     \<not> IsPinBlockedByRatio (pinned + 1) (active + 1) (op_max_pinned_ratio opts)"
  by (auto simp: pin_decision_def Let_def split: if_splits)

text \<open>A round either skips its record or stages it; the stored ids follow the staged records.\<close>

lemma write_step_cases:
  obtains (skip) e' out' where "write_step V input now rec_in (e, a) = (e', a\<lparr> wa_out := out' \<rparr>)"
      "clock_step e e'" "wo_stored_ids out' = wo_stored_ids (wa_out a)"
      "wo_deduped_ids out' = wo_deduped_ids (wa_out a) \<and> wo_warnings out' \<noteq> [] \<or>
       (\<exists>i. wo_deduped_ids out' = wo_deduped_ids (wa_out a) @ [i])"
  | (stage) e1 e' out' r rid pinned lg where
      "write_step V input now rec_in (e, a) = (e', a\<lparr>
         wa_writes := wa_writes a @ record_writes V (e_records e) r @ lg, wa_upserts := wa_upserts a @ [r],
         wa_out := out', wa_projected_active := wa_projected_active a + 1,
         wa_projected_pinned := wa_projected_pinned a + (if pinned then 1 else 0) \<rparr>)"
      "clock_step e e'" "clock_step e e1" "log_writes lg"
      "r = build_record e1 input rec_in rid pinned now"
      "r_size_bytes r \<le> op_max_record_bytes (e_options e)"
      "pinned = fst (pin_decision (e_options e) (wr_pin rec_in) (wa_projected_active a) (wa_projected_pinned a))"
      "wo_stored_ids out' = wo_stored_ids (wa_out a) @ [rid]"
      "wo_deduped_ids out' = wo_deduped_ids (wa_out a)"
proof -
  let ?known = "if wr_dedup_key rec_in \<noteq> '''' \<and> wi_write_mode input \<noteq> ''append''
     then map_of (e_dedup_index e) (wi_workspace_id input @ '':'' @ wr_dedup_key rec_in) else None"
  consider (empty) "wr_content rec_in = ''''" | (known) i where "wr_content rec_in \<noteq> ''''" "?known = Some i"
    | (fresh) "wr_content rec_in \<noteq> ''''" "?known = None" by fastforce
  then show ?thesis
  proof cases
    case empty
    then show ?thesis by (intro skip [of e "add_warning ''skip empty content record'' (wa_out a)"])
        (auto simp: write_step_def add_warning_def)
  next
    case known
    then show ?thesis
      by (intro skip [of e "(wa_out a)\<lparr> wo_deduped_ids := wo_deduped_ids (wa_out a) @ [i] \<rparr>"])
        (simp_all add: write_step_def)
  next
    case fresh
    obtain rid e1 where id: "(if wr_record_id rec_in = '''' then NextMemoryId V e
        else (wr_record_id rec_in, e)) = (rid, e1)" by fastforce
    have "clock_step e (snd (if wr_record_id rec_in = '''' then NextMemoryId V e else (wr_record_id rec_in, e)))"
      by simp
    then have e1: "clock_step e e1" by (simp only: id snd_conv)
    obtain pinned warning where pin: "pin_decision (e_options e1) (wr_pin rec_in) (wa_projected_active a)
        (wa_projected_pinned a) = (pinned, warning)" by fastforce
    let ?out = "case warning of None \<Rightarrow> wa_out a | Some w \<Rightarrow> add_warning (w @ rid) (wa_out a)"
    let ?a = "a\<lparr> wa_out := ?out \<rparr>"
    let ?r = "build_record e1 input rec_in rid pinned now"
    have step: "write_step V input now rec_in (e, a) = stage_record V now ?r (e1, ?a)"
      using fresh by (simp add: write_step_def id pin cong: option.case_cong split: option.split)
    have out: "wo_stored_ids ?out = wo_stored_ids (wa_out a)" "wo_deduped_ids ?out = wo_deduped_ids (wa_out a)"
      by (simp_all add: add_warning_def split: option.split)
    have r: "r_id ?r = rid" "r_pinned ?r = pinned" by (simp_all add: build_record_def Let_def)
    show ?thesis
    proof (cases rule: stage_record_cases [of e1 ?r V now ?a])
      case oversized
      with e1 out show ?thesis
        by (intro skip [of e1 "add_warning (''skip oversized record: '' @ r_id ?r) ?out"])
          (simp_all add: step add_warning_def)
    next
      case (staged e' lg)
      with out r pin show ?thesis
        by (intro stage [of e' pinned "?out\<lparr> wo_stored_ids := wo_stored_ids (wa_out a) @ [rid] \<rparr>" ?r lg e1 rid])
          (simp_all add: step clock_step_sel [OF e1] e1 clock_step_trans [OF e1] split: if_split)
    qed
  qed
qed

text \<open>The writes of a record touch the document name space once, with the document itself.\<close>

definition doc_write :: "'j json_api \<Rightarrow> MemoryRecord \<Rightarrow> WriteEntry" where
  "doc_write J r = upsert_entry kDocNs (BuildDocKey (r_workspace_id r) (r_id r)) (SerializeRecord J r)
     (r_updated_at_ms r)"

definition in_ns :: "string \<Rightarrow> WriteEntry \<Rightarrow> bool" where
  "in_ns ns w \<longleftrightarrow> kv_name_space (we_entry w) = ns"

lemma in_ns_simps [simp]:
  "in_ns ns (upsert_entry n k v t) \<longleftrightarrow> n = ns"
  "in_ns ns (delete_entry n k t) \<longleftrightarrow> n = ns"
  by (simp_all add: in_ns_def upsert_entry_def delete_entry_def)

lemma filter_log_writes: "log_writes ws \<Longrightarrow> filter (in_ns kDocNs) ws = []"
  by (auto simp: log_writes_def filter_empty_conv list_all_iff in_ns_def name_spaces)

lemma other_writes_not_doc:
  "filter (in_ns kDocNs) (delete_terms_for V ts r) = []"
  "filter (in_ns kDocNs) (delete_vectors_for V ts r) = []"
  "filter (in_ns kDocNs) (vector_writes V r) = []"
  "filter (in_ns kDocNs) (term_writes V r n kv) = []"
  by (simp_all add: delete_terms_for_def delete_vectors_for_def vector_writes_def term_writes_def
      filter_map comp_def Let_def name_spaces)

lemma filter_record_writes:
  "filter (in_ns kDocNs) (record_writes V records r) = [doc_write (ev_json V) r]"
  by (simp add: record_writes_def doc_write_def other_writes_not_doc filter_concat comp_def
      concat_map_singleton split: option.split)

section \<open>The staged batch of Write\<close>

definition staged_ok :: "('s, 'r, 'j) engine_env \<Rightarrow> MemoryEngineOptions \<Rightarrow> WriteInput \<Rightarrow> u64 \<Rightarrow> write_acc \<Rightarrow> bool" where
  "staged_ok V opts input now a \<longleftrightarrow>
     list_all (\<lambda>r. r_workspace_id r = wi_workspace_id input \<and> \<not> r_tombstone r \<and> r_version r = 1 \<and>
       r_updated_at_ms r = now \<and> r_size_bytes r = ComputeRecordSizeBytes r \<and>
       r_size_bytes r \<le> op_max_record_bytes opts) (wa_upserts a) \<and>
     wo_stored_ids (wa_out a) = map r_id (wa_upserts a) \<and>
     filter (in_ns kDocNs) (wa_writes a) = map (doc_write (ev_json V)) (wa_upserts a) \<and>
     (wa_writes a = [] \<longleftrightarrow> wa_upserts a = [])"

lemma build_record_sel:
  "r_workspace_id (build_record e input rec_in rid pinned now) = wi_workspace_id input"
  "r_id (build_record e input rec_in rid pinned now) = rid"
  "r_pinned (build_record e input rec_in rid pinned now) = pinned"
  "\<not> r_tombstone (build_record e input rec_in rid pinned now)"
  "r_version (build_record e input rec_in rid pinned now) = 1"
  "r_updated_at_ms (build_record e input rec_in rid pinned now) = now"
  "r_content (build_record e input rec_in rid pinned now) = wr_content rec_in"
  by (simp_all add: build_record_def Let_def)

lemma ComputeRecordSizeBytes_size [simp]:
  "ComputeRecordSizeBytes (r\<lparr> r_size_bytes := n \<rparr>) = ComputeRecordSizeBytes r"
  by (simp add: ComputeRecordSizeBytes_def)

lemma build_record_size:
  "r_size_bytes (build_record e input rec_in rid pinned now) =
     ComputeRecordSizeBytes (build_record e input rec_in rid pinned now)"
  by (simp add: build_record_def Let_def ComputeRecordSizeBytes_def)

lemma record_writes_nonempty: "record_writes V records r \<noteq> []"
  by (simp add: record_writes_def)

lemma staged_ok_step:
  assumes "staged_ok V (e_options e) input now a"
  shows "staged_ok V (e_options e) input now (snd (write_step V input now rec_in (e, a)))"
proof (cases rule: write_step_cases [of V input now rec_in e a])
  case (skip e' out')
  with assms show ?thesis by (simp add: staged_ok_def)
next
  case (stage e1 e' out' r rid pinned lg)
  have "r_workspace_id r = wi_workspace_id input" "\<not> r_tombstone r" "r_version r = 1" "r_updated_at_ms r = now"
    "r_id r = rid" "r_size_bytes r = ComputeRecordSizeBytes r"
    using stage(5) build_record_size by (simp_all add: build_record_sel)
  with assms stage(1,4,6,8) show ?thesis
    by (simp add: staged_ok_def filter_record_writes filter_log_writes record_writes_nonempty)
qed

lemma staged_ok_fold:
  "staged_ok V (e_options e) input now a \<Longrightarrow>
   staged_ok V (e_options e) input now (snd (fold (write_step V input now) rs (e, a)))"
proof (induction rs arbitrary: e a)
  case (Cons r rs)
  obtain e' a' where s: "write_step V input now r (e, a) = (e', a')" by fastforce
  then have "e_options e' = e_options e"
    using clock_step_sel(5) [OF clock_step_write_step [of e V input now r a]] by simp
  with Cons staged_ok_step [OF Cons.prems, of r] s show ?case
    by simp (metis snd_conv)
qed simp

lemma staged_ok_empty:
  "staged_ok V opts input now \<lparr> wa_out = default_WriteOutput, wa_writes = [], wa_upserts = [],
     wa_projected_active = n, wa_projected_pinned = m \<rparr>"
  by (simp add: staged_ok_def default_WriteOutput_def)

lemma staged_ok_stage:
  "staged_ok V (e_options e) input (fst (write_stage V input e)) (snd (snd (write_stage V input e)))"
proof -
  have "e_options (snd (NowMs V e)) = e_options e" by (rule clock_step_sel(5)) simp
  with staged_ok_fold [OF staged_ok_empty, of V "snd (NowMs V e)"] show ?thesis
    by (simp add: write_stage_def Let_def case_prod_beta)
qed

section \<open>Rounds of the compaction\<close>

lemma compact_event_acc:
  obtains e' lg where "compact_event V reason now r w (e, a) =
      (e', a\<lparr> ca_writes := w @ lg, ca_records := ca_records a @ [r], ca_count := ca_count a + 1,
              ca_actions := ca_actions a + 1 \<rparr>)"
    "log_writes lg" "lg \<noteq> []" "clock_step e e'"
proof -
  obtain ev key e' where ev: "AppendProjectionEvent V r OpDelete reason (Some w) e = (Some (w @ ev, key), e')"
    "log_writes ev" "ev \<noteq> []" "clock_step e e'"
    by (rule AppendProjectionEvent_Some)
  obtain ck where ck: "(case AppendProjectionCheckpoint V (r_workspace_id r) key now (Some (w @ ev)) of
      None \<Rightarrow> w @ ev | Some w' \<Rightarrow> w') = (w @ ev) @ ck" "log_writes ck"
    by (rule AppendProjectionCheckpoint_Some)
  show ?thesis
    using ev ck(2)
    by (intro that [of e' "ev @ ck"]) (simp_all add: compact_event_def ck(1) [unfolded append_assoc] Let_def)
qed

lemma tombstone_loop_records:
  fixes e :: "('s, 'r) MemoryEngine"
  defines "tomb \<equiv> \<lambda>e :: ('s, 'r) MemoryEngine. make_tombstone (e_node_id e)"
  shows "ca_records (snd (tombstone_loop V mx now cs (e, a))) = ca_records a @
     map (tomb e now) (take (mx - ca_actions a) (filter (\<lambda>r. \<not> r_pinned r \<and> \<not> r_tombstone r) cs)) \<and>
   ca_actions (snd (tombstone_loop V mx now cs (e, a))) = ca_actions a +
     length (take (mx - ca_actions a) (filter (\<lambda>r. \<not> r_pinned r \<and> \<not> r_tombstone r) cs)) \<and>
   ca_count (snd (tombstone_loop V mx now cs (e, a))) = ca_count a +
     of_nat (length (take (mx - ca_actions a) (filter (\<lambda>r. \<not> r_pinned r \<and> \<not> r_tombstone r) cs)))"
proof (induction cs arbitrary: e a)
  case (Cons c cs)
  show ?case
  proof (cases "mx \<le> ca_actions a \<or> r_pinned c \<or> r_tombstone c")
    case True
    with Cons.IH [of e a] show ?thesis by auto
  next
    case False
    let ?w = "ca_writes a @ record_writes V (e_records e) (tomb e now c)"
    obtain e' lg where step: "compact_event V ''compact_tombstone'' now (tomb e now c) ?w (e, a) =
      (e', a\<lparr> ca_writes := ?w @ lg, ca_records := ca_records a @ [tomb e now c], ca_count := ca_count a + 1,
              ca_actions := ca_actions a + 1 \<rparr>)" "clock_step e e'"
      by (rule compact_event_acc)
    have mx: "mx - ca_actions a = Suc (mx - Suc (ca_actions a))" using False by auto
    have "e_node_id e' = e_node_id e" by (rule clock_step_sel(8) [OF step(2)])
    with False step(1) Cons.IH [of e'] mx show ?thesis
      by (simp add: PersistRecord_Some tomb_def Let_def)
  qed
qed simp

lemma DeleteRecordStorage_Some:
  obtains ds e' where "DeleteRecordStorage V r (Some w) e = (Some (w @ ds), e')" "clock_step e e'"
    "list_all (\<lambda>d. we_op d = WDelete) ds"
proof -
  have del: "list_all (\<lambda>d. we_op d = WDelete) (fst (stamp_deletes V ks e))" for ks
  proof (induction ks arbitrary: e)
    case (Cons k ks)
    then show ?case by (cases k) (simp add: Let_def case_prod_beta delete_entry_def)
  qed simp
  obtain out e' where d: "DeleteRecordStorage V r (Some w) e = (out, e')" by fastforce
  have "clock_step e e'" using clock_step_DeleteRecordStorage [of e V r "Some w"] by (simp add: d)
  moreover obtain ds where "out = Some (w @ ds)" "list_all (\<lambda>d. we_op d = WDelete) ds"
    using d del unfolding DeleteRecordStorage_def Let_def option.case case_prod_beta prod.inject
    by (metis (no_types, lifting))
  ultimately show ?thesis using d that by blast
qed

lemma delete_loop_records:
  fixes e :: "('s, 'r) MemoryEngine"
  defines "aged \<equiv> \<lambda>e :: ('s, 'r) MemoryEngine. \<lambda>now r. \<not> (if r_updated_at_ms r < now then now - r_updated_at_ms r else 0)
    < op_tombstone_retention_ms (e_options e)"
  shows "ca_records (snd (delete_loop V mx now cs (e, a))) = ca_records a @
     take (mx - ca_actions a) (filter (aged e now) cs) \<and>
   ca_count (snd (delete_loop V mx now cs (e, a))) = ca_count a +
     of_nat (length (take (mx - ca_actions a) (filter (aged e now) cs)))"
proof (induction cs arbitrary: e a)
  case (Cons c cs)
  show ?case
  proof (cases "mx \<le> ca_actions a \<or> \<not> aged e now c")
    case True
    with Cons.IH [of e a] show ?thesis by (auto simp: aged_def Let_def)
  next
    case False
    obtain ds e1 where d: "DeleteRecordStorage V c (Some (ca_writes a)) e = (Some (ca_writes a @ ds), e1)"
      "clock_step e e1"
      by (rule DeleteRecordStorage_Some)
    let ?w = "ca_writes a @ ds"
    obtain e' lg where step: "compact_event V ''compact_delete'' now c ?w (e1, a) =
      (e', a\<lparr> ca_writes := ?w @ lg, ca_records := ca_records a @ [c], ca_count := ca_count a + 1,
              ca_actions := ca_actions a + 1 \<rparr>)" "clock_step e1 e'"
      by (rule compact_event_acc)
    have mx: "mx - ca_actions a = Suc (mx - Suc (ca_actions a))" using False by auto
    have opts: "e_options e' = e_options e"
      using clock_step_sel(5) [OF d(2)] clock_step_sel(5) [OF step(2)] by simp
    from False step(1) d(1) Cons.IH [of e'] mx opts show ?thesis
      by (simp add: aged_def Let_def)
  qed
qed simp

end
