(* ===== verification/Engine_Inv.thy ===== *)
theory Engine_Inv
  imports Engine_Steps
begin

text \<open>
  Runs of the engine.  A call is one public operation, one round of the collector thread,
  or the shutdown; a run is a sequence of calls, and \<open>None\<close> when one of them does not
  return.  The locale \<open>engine_invariant\<close> lists what a predicate has to survive (adding,
  dropping, evicting and touching a record, and changes elsewhere) to hold in every state
  of every run; it is interpreted for the accounting invariant and for the agreement of
  the retriever with the records.
\<close>

section \<open>Calls and runs\<close>

datatype engine_call =
    CallWrite WriteInput
  | CallQuery QueryInput
  | CallPin string string bool
  | CallWarmup
  | CallCompact string
  | CallStoreCompact
  | CallGcRound
  | CallShutdown

fun run_call :: "('s, 'r, 'j) engine_env \<Rightarrow> engine_call \<Rightarrow> ('s, 'r) MemoryEngine \<Rightarrow> ('s, 'r) MemoryEngine option" where
  "run_call V (CallWrite input) e = map_option snd (engine_Write V input e)"
| "run_call V (CallQuery input) e = Some (snd (engine_Query V input e))"
| "run_call V (CallPin ws i pin) e = map_option snd (engine_Pin V ws i pin e)"
| "run_call V CallWarmup e = map_option snd (engine_Warmup V e)"
| "run_call V (CallCompact ws) e = Some (snd (engine_Compact V ws e))"
| "run_call V CallStoreCompact e = Some (snd (StoreCompact V e))"
| "run_call V CallGcRound e = Some (case gc_round V e of None \<Rightarrow> e | Some e' \<Rightarrow> e')"
| "run_call V CallShutdown e = Some (Shutdown e)"

fun run_calls :: "('s, 'r, 'j) engine_env \<Rightarrow> engine_call list \<Rightarrow> ('s, 'r) MemoryEngine \<Rightarrow> ('s, 'r) MemoryEngine option" where
  "run_calls V [] e = Some e"
| "run_calls V (c # cs) e = Option.bind (run_call V c e) (run_calls V cs)"

text \<open>The records a call may bring into memory live in workspaces of the given set.\<close>

definition call_ok :: "(string \<Rightarrow> bool) \<Rightarrow> ('s, 'r, 'j) engine_env \<Rightarrow> engine_call \<Rightarrow> ('s, 'r) MemoryEngine \<Rightarrow> bool" where
  "call_ok allowed V c e \<longleftrightarrow>
     (case c of
        CallWrite input \<Rightarrow> allowed (wi_workspace_id input)
      | CallPin ws i pin \<Rightarrow>
          (case LoadRecord V ws i e of Inl _ \<Rightarrow> True | Inr r \<Rightarrow> allowed (r_workspace_id r))
      | CallWarmup \<Rightarrow>
          (case scan_namespace V kDocNs e of
             Inl _ \<Rightarrow> True
           | Inr entries \<Rightarrow>
               list_all (\<lambda>x. case warm_record (ev_json V) x of
                   None \<Rightarrow> True | Some r \<Rightarrow> allowed (r_workspace_id r)) entries) \<and>
          (case scan_namespace V kEventsNs e of
             Inl _ \<Rightarrow> True
           | Inr events \<Rightarrow>
               list_all (\<lambda>x. case event_record (ev_json V) [] x of
                   None \<Rightarrow> True | Some r \<Rightarrow> allowed (r_workspace_id r)) events)
      | _ \<Rightarrow> True)"

fun calls_ok :: "(string \<Rightarrow> bool) \<Rightarrow> ('s, 'r, 'j) engine_env \<Rightarrow> engine_call list \<Rightarrow> ('s, 'r) MemoryEngine \<Rightarrow> bool" where
  "calls_ok allowed V [] e = True"
| "calls_ok allowed V (c # cs) e \<longleftrightarrow>
     call_ok allowed V c e \<and> (case run_call V c e of None \<Rightarrow> True | Some e' \<Rightarrow> calls_ok allowed V cs e')"

lemma call_ok_all [simp]: "call_ok (\<lambda>_. True) V c e"
  by (simp add: call_ok_def list_all_iff split: engine_call.split sum.split option.split)

lemma calls_ok_all [simp]: "calls_ok (\<lambda>_. True) V cs e"
  by (induction cs arbitrary: e) (simp_all split: option.split)

section \<open>Invariants of the memory\<close>

definition same_memory :: "('s, 'r) MemoryEngine \<Rightarrow> ('s, 'r) MemoryEngine \<Rightarrow> bool" where
  "same_memory e e' \<longleftrightarrow>
     e_records e' = e_records e \<and> e_dedup_index e' = e_dedup_index e \<and>
     e_resident_charge_bytes e' = e_resident_charge_bytes e \<and>
     e_resident_used_bytes e' = e_resident_used_bytes e \<and> e_retriever e' = e_retriever e \<and>
     e_options e' = e_options e \<and> e_node_id e' = e_node_id e"

lemma same_memory_clock: "clock_step e e' \<Longrightarrow> same_memory e e'"
  by (simp add: same_memory_def clock_step_sel)

lemma same_memory_refl [simp]: "same_memory e e"
  by (simp add: same_memory_def)

lemma same_memory_trans [trans]: "same_memory e e' \<Longrightarrow> same_memory e' e'' \<Longrightarrow> same_memory e e''"
  by (simp add: same_memory_def)

lemma same_memory_Persist: "same_memory e (fst (PersistBatchNow V ws e))"
  by (simp add: same_memory_def PersistBatchNow_def Let_def case_prod_beta)

lemma same_memory_MaybeScheduleGc: "same_memory e (MaybeScheduleGc V e)"
  by (simp add: same_memory_def MaybeScheduleGc_def)

lemma same_memory_write_finish: "same_memory e (snd (write_finish V input ups out e))"
  using same_memory_MaybeScheduleGc [of e V]
  by (simp add: same_memory_def write_finish_def Let_def)

lemma write_stage_allowed:
  "list_all (\<lambda>r. r_workspace_id r = wi_workspace_id input) (wa_upserts (snd (snd (write_stage V input e))))"
  using staged_ok_stage [of V e input] by (simp add: staged_ok_def list_all_iff)

lemma compact_plan_records:
  assumes "compact_plan V ws now e = (e', upserted, deleted)"
  shows "\<forall>r \<in> set (ca_records upserted). \<exists>c \<in> snd ` set (e_records e). \<not> r_pinned c \<and> \<not> r_tombstone c \<and>
      in_workspace ws c \<and> r = make_tombstone (e_node_id e) now c"
    "\<forall>r \<in> set (ca_records deleted). r \<in> snd ` set (e_records e) \<and> r_tombstone r \<and> in_workspace ws r"
proof -
  let ?mx = "if op_gc_batch_size (e_options e) = 0 then 256 else unat (op_gc_batch_size (e_options e))"
  let ?recs = "filter (in_workspace ws) (map snd (e_records e))"
  let ?act = "sort_by (compact_less now) (filter (\<lambda>rec. \<not> r_tombstone rec) ?recs)"
  let ?a0 = "\<lparr> ca_writes = [], ca_records = [], ca_count = 0, ca_actions = 0 \<rparr>"
  define t where "t = tombstone_loop V ?mx now ?act (e, ?a0)"
  let ?b0 = "\<lparr> ca_writes = ca_writes (snd t), ca_records = [], ca_count = 0, ca_actions = ca_actions (snd t) \<rparr>"
  define d where "d = (if op_enable_tombstone_gc (e_options (fst t))
    then delete_loop V ?mx now (filter r_tombstone ?recs) (fst t, ?b0) else (fst t, ?b0))"
  have "compact_plan V ws now e = (fst d, snd t, snd d)"
    unfolding compact_plan_def Let_def case_prod_beta d_def t_def by simp
  with assms have u: "upserted = snd t" and del: "deleted = snd d" by simp_all
  show "\<forall>r \<in> set (ca_records upserted). \<exists>c \<in> snd ` set (e_records e). \<not> r_pinned c \<and> \<not> r_tombstone c \<and>
      in_workspace ws c \<and> r = make_tombstone (e_node_id e) now c"
    unfolding u t_def tombstone_loop_records [THEN conjunct1]
    by (auto dest!: in_set_takeD)
  have "set (ca_records (snd d)) \<subseteq> set (filter r_tombstone ?recs)"
  proof (cases "op_enable_tombstone_gc (e_options (fst t))")
    case True
    then show ?thesis
      unfolding d_def if_P [OF True] delete_loop_records [THEN conjunct1]
      using set_take_subset by fastforce
  qed (simp add: d_def)
  then show "\<forall>r \<in> set (ca_records deleted). r \<in> snd ` set (e_records e) \<and> r_tombstone r \<and> in_workspace ws r"
    unfolding del by auto
qed

lemma drop_guard:
  "(if a then None else if c then None else x) = Some r \<Longrightarrow> (if a then None else if False then None else x) = Some r"
  by (simp split: if_splits)

lemma event_record_ckpts:
  assumes "event_record J ckpts x = Some r"
  shows "event_record J [] x = Some r"
proof (cases "ParseJson J (kv_value x)")
  case (Inl err)
  with assms show ?thesis by (simp add: event_record_def)
next
  case (Inr json)
  with assms show ?thesis
    unfolding event_record_def Inr sum.case Let_def map_of.simps option.case
    by (rule_tac drop_guard)
qed

lemma UpsertRecordInMemory_store: "e_store (UpsertRecordInMemory V r e) = e_store e"
  by (simp add: UpsertRecordInMemory_sel)

lemma warm_fold_store: "e_store (fold (warm_step V) entries e) = e_store e"
  by (induction entries arbitrary: e) (simp_all add: warm_step_def UpsertRecordInMemory_store split: option.split)

lemma fill_defaults_ws:
  "r_workspace_id (fill_defaults r) = r_workspace_id r" "r_id (fill_defaults r) = r_id r"
  by (simp_all add: fill_defaults_def Let_def)

locale engine_invariant =
  fixes V :: "('s, 'r, 'j) engine_env"
    and I :: "('s, 'r) MemoryEngine \<Rightarrow> bool"
    and allowed :: "string \<Rightarrow> bool"
  assumes I_frame: "I e \<Longrightarrow> same_memory e e' \<Longrightarrow> I e'"
    and I_filed: "I e \<Longrightarrow> filed_ok (e_records e)"
    and I_allowed: "I e \<Longrightarrow> r \<in> snd ` set (e_records e) \<Longrightarrow> allowed (r_workspace_id r)"
    and I_upsert: "I e \<Longrightarrow> allowed (r_workspace_id r) \<Longrightarrow> I (UpsertRecordInMemory V r e)"
    and I_remove: "I e \<Longrightarrow> allowed (r_workspace_id r) \<Longrightarrow> I (RemoveRecordInMemory V r e)"
    and I_evict: "I e \<Longrightarrow> r \<in> snd ` set (e_records e) \<Longrightarrow> I (evict V r e)"
    and I_touch: "I e \<Longrightarrow> I (e\<lparr> e_records := touch_record ws now hit (e_records e) \<rparr>)"
begin

lemma I_upserts: "I e \<Longrightarrow> list_all (\<lambda>r. allowed (r_workspace_id r)) rs \<Longrightarrow> I (fold (UpsertRecordInMemory V) rs e)"
  by (induction rs arbitrary: e) (simp_all add: I_upsert)

lemma I_removes: "I e \<Longrightarrow> list_all (\<lambda>r. allowed (r_workspace_id r)) rs \<Longrightarrow> I (fold (RemoveRecordInMemory V) rs e)"
  by (induction rs arbitrary: e) (simp_all add: I_remove)

lemma I_touches: "I e \<Longrightarrow> I (e\<lparr> e_records := fold (touch_record ws now) hits (e_records e) \<rparr>)"
proof (induction hits arbitrary: e)
  case (Cons h hits)
  from I_touch [OF Cons.prems] Cons.IH [of "e\<lparr> e_records := touch_record ws now h (e_records e) \<rparr>"]
  show ?case by simp
qed simp

lemma I_clock: "I e \<Longrightarrow> clock_step e e' \<Longrightarrow> I e'"
  by (rule I_frame [OF _ same_memory_clock])

lemma I_enforce_loop: "I e \<Longrightarrow> enforce_loop V p e = Some e' \<Longrightarrow> I e'"
proof (induction "length (e_records e)" arbitrary: e rule: less_induct)
  case less
  show ?case
  proof (cases "\<not> ResidentLimitBytes e < e_resident_used_bytes e \<or> e_records e = []")
    case True
    with less.prems show ?thesis by (auto simp: enforce_loop.simps [of V p e] split: if_splits)
  next
    case False
    obtain now e1 where n: "NowMs V e = (now, e1)" by fastforce
    then have c: "clock_step e e1" using clock_step_NowMs [of e V] by simp
    note I1 = I_clock [OF less.prems(1) c]
    show ?thesis
    proof (cases "SelectEvictionCandidateLocked now p (e_records e1)")
      case None
      with less.prems(2) False I1 show ?thesis
        by (simp add: enforce_loop.simps [of V p e] n)
    next
      case (Some r)
      then have r: "r \<in> snd ` set (e_records e1)" by (auto dest: Select_in)
      note found = filed_ok_in [OF I_filed [OF I1] r]
      have "length (e_records (evict V r e1)) < length (e_records e)"
        using found length_umap_erase_less [of "e_records e1"] by (simp add: clock_step_sel(1) [OF c])
      moreover have "enforce_loop V p (evict V r e1) = Some e'"
        using less.prems(2) False Some found by (simp add: enforce_loop.simps [of V p e] n)
      ultimately show ?thesis using less.hyps I_evict [OF I1 r] by blast
    qed
  qed
qed

lemma I_Enforce: "I e \<Longrightarrow> \<exists>e'. EnforceResidentHardLimit V p e = Some e' \<and> I e'"
  using enforce_loop_returns [OF I_filed, of e V p] I_enforce_loop
  by (auto simp: EnforceResidentHardLimit_def)

lemma I_PersistBatchNow: "I e \<Longrightarrow> PersistBatchNow V ws e = (e', err) \<Longrightarrow> I e'"
  using I_frame [OF _ same_memory_Persist [of e V ws]] by simp

lemma I_finish: "I e \<Longrightarrow> write_finish V input ups out e = (out', e') \<Longrightarrow> I e'"
  using I_frame [OF _ same_memory_write_finish [of e V input ups out]] by simp

lemma I_Write:
  assumes "I e" "allowed (wi_workspace_id input)"
  shows "\<exists>out e'. engine_Write V input e = Some (out, e') \<and> I e'"
proof -
  obtain now e1 a where st: "write_stage V input e = (now, e1, a)" by (metis prod_cases3)
  have I1: "I e1" using I_clock [OF assms(1) clock_step_write_stage [of e V input]] by (simp add: st)
  obtain e2 err where p: "PersistBatchNow V (wa_writes a) e1 = (e2, err)" by fastforce
  note I2 = I_PersistBatchNow [OF I1 p]
  have "list_all (\<lambda>r. allowed (r_workspace_id r)) (wa_upserts a)"
    using write_stage_allowed [of input V e] assms(2) by (simp add: st list_all_iff)
  note I3 = I_upserts [OF I2 this]
  obtain e4 err' where p2: "PersistBatchNow V (route_write V (wi_workspace_id input) now)
      (fold (UpsertRecordInMemory V) (wa_upserts a) e2) = (e4, err')" by fastforce
  obtain e5 where e5: "EnforceResidentHardLimit V None e4 = Some e5" "I e5"
    using I_Enforce [OF I_PersistBatchNow [OF I3 p2]] by blast
  obtain out e6 where e6: "write_finish V input (wa_upserts a) (wa_out a) e5 = (out, e6)" by fastforce
  from I_finish [OF e5(2) e6] assms(1) I1 I2 show ?thesis
    by (cases err) (simp_all add: engine_Write_def st p p2 e5(1) e6 Let_def)
qed

lemma I_Query: "I e \<Longrightarrow> I (snd (engine_Query V input e))"
proof -
  assume I: "I e"
  let ?e2 = "snd (NowMs V (snd (NowMs V e)))"
  have I2: "I ?e2" by (rule I_clock [OF I_clock [OF I clock_step_NowMs] clock_step_NowMs])
  show ?thesis
  proof (cases "q_workspace_id input = ''''")
    case True
    with I show ?thesis by (simp add: engine_Query_def)
  next
    case False
    have "same_memory (?e2\<lparr> e_records := fold (touch_record (q_workspace_id input)
          (fst (NowMs V (snd (NowMs V e))))) (qo_hits (fst (engine_Query V input e))) (e_records ?e2) \<rparr>)
        (snd (engine_Query V input e))"
      using False by (simp add: engine_Query_def Let_def case_prod_beta same_memory_def)
    with I_touches [OF I2] show ?thesis using I_frame by blast
  qed
qed

lemma I_Pin:
  assumes "I e" "case LoadRecord V ws i e of Inl _ \<Rightarrow> True | Inr r \<Rightarrow> allowed (r_workspace_id r)"
  shows "\<exists>out e'. engine_Pin V ws i pin e = Some (out, e') \<and> I e'"
proof (cases "LoadRecord V ws i e")
  case (Inl err)
  with assms show ?thesis by (simp add: engine_Pin_def)
next
  case (Inr r)
  with assms(2) have ok: "allowed (r_workspace_id r)" by simp
  obtain now e1 where n: "NowMs V e = (now, e1)" by fastforce
  have I1: "I e1" using I_clock [OF assms(1) clock_step_NowMs [of e V]] by (simp add: n)
  let ?r = "pinned_record e1 pin now r"
  obtain ev key e2 where ap: "AppendProjectionEvent V ?r OpPin ''pin''
      (Some (record_writes V (e_records e1) ?r)) e1 =
      (Some (record_writes V (e_records e1) ?r @ ev, key), e2)" "clock_step e1 e2"
    by (rule AppendProjectionEvent_Some)
  obtain now3 e3 where n3: "NowMs V e2 = (now3, e3)" by fastforce
  have I3: "I e3" using I_clock [OF I_clock [OF I1 ap(2)] clock_step_NowMs [of e2 V]] by (simp add: n3)
  obtain e4 err where p: "PersistBatchNow V
      (case AppendProjectionCheckpoint V (r_workspace_id ?r) key (max (r_updated_at_ms ?r) now3)
        (Some (record_writes V (e_records e1) ?r @ ev)) of
         None \<Rightarrow> record_writes V (e_records e1) ?r @ ev | Some w \<Rightarrow> w) e3 = (e4, err)"
    by fastforce
  note I4 = I_PersistBatchNow [OF I3 p]
  have "I (UpsertRecordInMemory V ?r e4)"
    using I4 ok by (intro I_upsert) (simp_all add: pinned_record_def Let_def)
  then obtain e5 where e5: "EnforceResidentHardLimit V None (UpsertRecordInMemory V ?r e4) = Some e5" "I e5"
    using I_Enforce by blast
  have gc: "I (MaybeScheduleGc V e5)"
    by (rule I_frame [OF e5(2) same_memory_MaybeScheduleGc])
  have "engine_Pin V ws i pin e =
      (case (if pin \<and> \<not> r_pinned r then pin_refusal e ws else None) of
         Some err' \<Rightarrow> Some (Some err', e)
       | None \<Rightarrow> (case err of Some err' \<Rightarrow> Some (Some err', e4)
           | None \<Rightarrow> Some (None, MaybeScheduleGc V e5)))"
    using PersistRecord_Some [of V e1 ?r "[]"]
    by (simp add: engine_Pin_def Inr n ap(1) n3 p e5(1) Let_def cong: option.case_cong)
  with assms(1) I4 gc show ?thesis by (simp split: option.split)
qed

lemma I_warm:
  assumes "I e" "list_all (\<lambda>x. case warm_record (ev_json V) x of
      None \<Rightarrow> True | Some r \<Rightarrow> allowed (r_workspace_id r)) entries"
  shows "I (fold (warm_step V) entries e)"
  using assms
proof (induction entries arbitrary: e)
  case (Cons x entries)
  then have "I (warm_step V x e)" by (auto simp: warm_step_def intro: I_upsert split: option.split)
  with Cons show ?case by simp
qed simp

lemma I_replay:
  assumes "I e" "list_all (\<lambda>x. case event_record (ev_json V) [] x of
      None \<Rightarrow> True | Some r \<Rightarrow> allowed (r_workspace_id r)) events"
  shows "I (fold (replay_step V ckpts) events e)"
  using assms
proof (induction events arbitrary: e)
  case (Cons x events)
  have "I (replay_step V ckpts x e)"
  proof (cases "event_record (ev_json V) ckpts x")
    case None
    with Cons.prems show ?thesis by (simp add: replay_step_def)
  next
    case (Some r)
    with Cons.prems(2) have "allowed (r_workspace_id (fill_defaults r))"
      by (simp add: event_record_ckpts fill_defaults_ws)
    with Cons.prems(1) Some show ?thesis
      by (simp add: replay_step_def apply_incoming_def I_upsert)
  qed
  with Cons show ?case by simp
qed simp

lemma I_Warmup:
  assumes "I e" "call_ok allowed V CallWarmup e"
  shows "\<exists>out e'. engine_Warmup V e = Some (out, e') \<and> I e'"
proof (cases "scan_namespace V kDocNs e")
  case (Inl err)
  with assms show ?thesis by (simp add: engine_Warmup_def)
next
  case (Inr entries)
  let ?e1 = "fold (warm_step V) entries e"
  have I1: "I ?e1" using assms Inr by (intro I_warm) (simp_all add: call_ok_def)
  have scan: "scan_namespace V ns ?e1 = scan_namespace V ns e" for ns
    by (simp add: scan_namespace_def warm_fold_store)
  show ?thesis
  proof (cases "ReplayProjectionEvents V ?e1")
    case err: (Inl err)
    with Inr I1 show ?thesis by (simp add: engine_Warmup_def)
  next
    case ok: (Inr e2)
    then obtain events ckpts where "scan_namespace V kEventsNs e = Inr events"
      "e2 = fold (replay_step V ckpts) events ?e1"
      by (auto simp: ReplayProjectionEvents_def scan Let_def split: sum.splits)
    with assms(2) have "I e2" by (auto simp: call_ok_def Inr intro!: I_replay I1)
    from I_Enforce [OF this, of None] Inr ok show ?thesis
      by (auto simp: engine_Warmup_def)
  qed
qed

lemma I_compact_apply:
  assumes "I e" "list_all (\<lambda>r. allowed (r_workspace_id r)) ups" "list_all (\<lambda>r. allowed (r_workspace_id r)) dels"
  shows "I (snd (compact_apply V ws ups dels n e))"
proof -
  obtain s res where b: "so_BatchWrite (ev_store V) ws (e_store e) = (s, res)" by fastforce
  have Is: "I (e\<lparr> e_store := s \<rparr>)"
    by (rule I_frame [OF assms(1)]) (simp add: same_memory_def)
  let ?e2 = "fold (RemoveRecordInMemory V) dels (fold (UpsertRecordInMemory V) ups (e\<lparr> e_store := s \<rparr>))"
  have I2: "I ?e2" by (rule I_removes [OF I_upserts [OF Is assms(2)] assms(3)])
  have "I (?e2\<lparr> e_gc_evicted_count := k \<rparr>)" for k
    by (rule I_frame [OF I2]) (simp add: same_memory_def)
  with assms(1) Is I2 show ?thesis by (simp add: compact_apply_def b Let_def)
qed

lemma I_CompactInternal:
  assumes "I e"
  shows "I (snd (CompactInternal V ws force e))"
proof -
  obtain now e1 where n: "NowMs V e = (now, e1)" by fastforce
  have I1: "I e1" using I_clock [OF assms clock_step_NowMs [of e V]] by (simp add: n)
  obtain e2 upserted deleted where pl: "compact_plan V ws now e1 = (e2, upserted, deleted)"
    by (metis prod_cases3)
  have I2: "I e2" using I_clock [OF I1 clock_step_compact_plan [of e1 V ws now]] by (simp add: pl)
  note recs = compact_plan_records [OF pl]
  have ups: "list_all (\<lambda>r. allowed (r_workspace_id r)) (ca_records upserted)"
    using recs(1) I_allowed [OF I1] by (fastforce simp: list_all_iff make_tombstone_def Let_def)
  have del: "list_all (\<lambda>r. allowed (r_workspace_id r)) (ca_records deleted)"
    using recs(2) I_allowed [OF I1] by (fastforce simp: list_all_iff)
  obtain b e3 where ap: "compact_apply V (ca_writes deleted) (ca_records upserted) (ca_records deleted)
      (ca_count deleted) e2 = (b, e3)" by fastforce
  have I3: "I e3" using I_compact_apply [OF I2 ups del, of "ca_writes deleted" "ca_count deleted"]
    by (simp add: ap)
  have "I (e3\<lparr> e_gc_last_run_ms := k, e_capacity_blocked := c \<rparr>)" for k c
    by (rule I_frame [OF I3]) (simp add: same_memory_def)
  with assms show ?thesis
    by (simp add: CompactInternal_def n pl ap Let_def)
qed

text \<open>Every call returns, and leaves a state that satisfies the invariant.\<close>

lemma I_run_call:
  assumes "I e" "call_ok allowed V c e"
  shows "\<exists>e'. run_call V c e = Some e' \<and> I e'"
proof -
  have gc: "I (e\<lparr> e_gc_requested := False \<rparr>)"
    by (rule I_frame [OF assms(1)]) (simp add: same_memory_def)
  have stop: "I (Shutdown e)"
    by (rule I_frame [OF assms(1)]) (simp add: same_memory_def Shutdown_def)
  have sc: "I (snd (StoreCompact V e))"
    by (rule I_frame [OF assms(1)]) (simp add: same_memory_def StoreCompact_def case_prod_beta)
  show ?thesis
  proof (cases c)
    case (CallWrite input)
    with I_Write [OF assms(1), of input] assms(2) show ?thesis by (force simp: call_ok_def)
  next
    case (CallPin ws i pin)
    with I_Pin [OF assms(1), of ws i pin] assms(2) show ?thesis by (force simp: call_ok_def)
  next
    case CallWarmup
    with I_Warmup [OF assms(1)] assms(2) show ?thesis by force
  qed (use assms(1) gc stop sc I_Query I_CompactInternal in
       \<open>simp_all add: engine_Compact_def gc_round_def\<close>)
qed

lemma I_run_calls:
  "I e \<Longrightarrow> calls_ok allowed V cs e \<Longrightarrow> \<exists>e'. run_calls V cs e = Some e' \<and> I e'"
proof (induction cs arbitrary: e)
  case (Cons c cs)
  then obtain e1 where "run_call V c e = Some e1" "I e1" using I_run_call [of e c] by auto
  with Cons show ?case by simp
qed simp

end

context resident_engine begin

lemma resident_ok_new: "resident_ok V (new_MemoryEngine s r n opts)"
  by (simp add: resident_ok_def new_MemoryEngine_def filed_ok_def charge_map_def fun_eq_iff)

lemma resident_ok_same: "resident_ok V e \<Longrightarrow> same_memory e e' \<Longrightarrow> resident_ok V e'"
  by (simp add: same_memory_def resident_ok_def)

lemma resident_ok_filed: "resident_ok V e \<Longrightarrow> filed_ok (e_records e)"
  by (simp add: resident_ok_def)

end

section \<open>The retriever follows the records\<close>

text \<open>
  A query touches the access fields of the engine's copy of a record only, so the two
  sides agree up to these fields.  A record with a colon in its workspace name can share
  its map key with a record of another workspace, so agreement is stated for colon-free
  names.
\<close>

definition plain_access :: "MemoryRecord \<Rightarrow> MemoryRecord" where
  "plain_access r = r\<lparr> r_last_access_ms := 0, r_hit_count := 0 \<rparr>"

definition colon_free :: "string \<Rightarrow> bool" where
  "colon_free ws \<longleftrightarrow> CHR '':'' \<notin> set ws"

definition live_view :: "(string, MemoryRecord) umap \<Rightarrow> string \<Rightarrow> string \<Rightarrow> MemoryRecord option" where
  "live_view records ws i =
     (case map_of records (RecordMapKey ws i) of
        None \<Rightarrow> None | Some r \<Rightarrow> if r_tombstone r then None else Some (plain_access r))"

definition synced :: "('s, 'r, 'j) engine_env \<Rightarrow> ('r \<Rightarrow> bool) \<Rightarrow>
    ('r \<Rightarrow> string \<Rightarrow> string \<Rightarrow> MemoryRecord option) \<Rightarrow> ('s, 'r) MemoryEngine \<Rightarrow> bool" where
  "synced V rinv rdocs e \<longleftrightarrow> resident_ok V e \<and> rinv (e_retriever e) \<and>
     (\<forall>r \<in> snd ` set (e_records e). colon_free (r_workspace_id r)) \<and>
     (\<forall>ws i. colon_free ws \<longrightarrow>
        map_option plain_access (rdocs (e_retriever e) ws i) = live_view (e_records e) ws i)"

lemma key_eq_iff:
  "colon_free ws \<Longrightarrow> colon_free ws' \<Longrightarrow> RecordMapKey ws i = RecordMapKey ws' i' \<longleftrightarrow> ws = ws' \<and> i = i'"
  by (simp add: colon_free_def RecordMapKey_iff)

lemma live_view_put:
  "colon_free (r_workspace_id r) \<Longrightarrow> colon_free ws \<Longrightarrow>
   live_view (umap_put (RecordMapKey (r_workspace_id r) (r_id r)) r m) ws i =
     (if ws = r_workspace_id r \<and> i = r_id r then if r_tombstone r then None else Some (plain_access r)
      else live_view m ws i)"
  by (auto simp: live_view_def umap_simps key_eq_iff)

lemma live_view_erase:
  "colon_free ws' \<Longrightarrow> colon_free ws \<Longrightarrow>
   live_view (umap_erase (RecordMapKey ws' i') m) ws i =
     (if ws = ws' \<and> i = i' then None else live_view m ws i)"
  by (auto simp: live_view_def umap_simps key_eq_iff)

lemma live_view_touch:
  "live_view (touch_record ws' now hit m) ws i = live_view m ws i"
proof (cases "map_of m (RecordMapKey ws' (h_memory_id hit))")
  case None
  then show ?thesis by (simp add: touch_record_def)
next
  case (Some r)
  then show ?thesis
    by (cases "RecordMapKey ws i = RecordMapKey ws' (h_memory_id hit)")
      (simp_all add: live_view_def touch_record_def umap_simps plain_access_def)
qed

lemma spec_Index_app: "spec_Index r d ws i =
    (if ws = r_workspace_id r \<and> i = r_id r then if r_tombstone r then None else Some r else d ws i)"
  by (simp add: spec_Index_def)

lemma spec_Remove_app: "spec_Remove ws' i' d ws i = (if ws = ws' \<and> i = i' then None else d ws i)"
  by (simp add: spec_Remove_def)

lemma in_umap_put: "umap_ok m \<Longrightarrow> x \<in> snd ` set (umap_put k v m) \<Longrightarrow> x = v \<or> x \<in> snd ` set m"
  by (auto simp: set_umap_put)

lemma in_umap_erase: "x \<in> snd ` set (umap_erase k m) \<Longrightarrow> x \<in> snd ` set m"
  by (auto simp: set_umap_erase)

lemma touch_in:
  assumes "filed_ok m" "x \<in> snd ` set (touch_record ws now hit m)"
  shows "\<exists>y \<in> snd ` set m. plain_access x = plain_access y"
proof (cases "map_of m (RecordMapKey ws (h_memory_id hit))")
  case None
  with assms(2) show ?thesis by (auto simp: touch_record_def)
next
  case (Some r)
  then have r: "r \<in> snd ` set m" by (force dest: map_of_SomeD)
  have "x = r\<lparr> r_last_access_ms := now, r_hit_count := r_hit_count r + 1 \<rparr> \<or> x \<in> snd ` set m"
    using assms Some in_umap_put [OF filed_okD(2) [OF assms(1)]]
    by (auto simp: touch_record_def split: if_splits)
  then show ?thesis
  proof
    assume "x = r\<lparr> r_last_access_ms := now, r_hit_count := r_hit_count r + 1 \<rparr>"
    then show ?thesis by (intro bexI [OF _ r]) (simp add: plain_access_def)
  qed blast
qed

lemma plain_access_ws: "plain_access x = plain_access y \<Longrightarrow> r_workspace_id x = r_workspace_id y"
  by (auto simp: plain_access_def dest: arg_cong [where f = r_workspace_id])

context resident_engine begin

lemma syncedD:
  assumes "synced V rinv rdocs e"
  shows "resident_ok V e" "r \<in> snd ` set (e_records e) \<Longrightarrow> colon_free (r_workspace_id r)"
    "rinv (e_retriever e)"
    "colon_free ws \<Longrightarrow> map_option plain_access (rdocs (e_retriever e) ws i) = live_view (e_records e) ws i"
  using assms unfolding synced_def by blast+

lemma synced_upsert:
  assumes "synced V rinv rdocs e" "colon_free (r_workspace_id r)"
  shows "synced V rinv rdocs (UpsertRecordInMemory V r e)"
proof -
  note D = syncedD [OF assms(1)]
  have ok: "umap_ok (e_records e)" using D(1) by (simp add: resident_ok_def filed_ok_def)
  have "colon_free (r_workspace_id x)" if "x \<in> snd ` set (e_records (UpsertRecordInMemory V r e))" for x
    using assms(2) D(2) in_umap_put [OF ok] that unfolding UpsertRecordInMemory_sel by blast
  moreover have "rinv (e_retriever (UpsertRecordInMemory V r e))"
    by (simp add: UpsertRecordInMemory_sel inv_Index inv_Remove D(3))
  moreover have "map_option plain_access (rdocs (e_retriever (UpsertRecordInMemory V r e)) ws i) =
      live_view (e_records (UpsertRecordInMemory V r e)) ws i" if "colon_free ws" for ws i
    unfolding UpsertRecordInMemory_sel live_view_put [OF assms(2) that]
    by (simp add: docs_Index [OF D(3)] docs_Remove [OF D(3)] D(4) [OF that] spec_Index_app spec_Remove_app)
  ultimately show ?thesis
    using resident_ok_Upsert [OF D(1)] unfolding synced_def by blast
qed

lemma synced_erase:
  assumes "synced V rinv rdocs e" "colon_free (r_workspace_id r)" "resident_ok V e'"
    "e_records e' = umap_erase (RecordMapKey (r_workspace_id r) (r_id r)) (e_records e)"
    "e_retriever e' = rt_Remove (ev_retriever V) (r_workspace_id r) (r_id r) (e_retriever e)"
  shows "synced V rinv rdocs e'"
proof -
  note D = syncedD [OF assms(1)]
  have "colon_free (r_workspace_id x)" if "x \<in> snd ` set (e_records e')" for x
    by (rule D(2) [OF in_umap_erase [OF that [unfolded assms(4)]]])
  moreover have "map_option plain_access (rdocs (e_retriever e') ws i) = live_view (e_records e') ws i"
    if "colon_free ws" for ws i
    unfolding assms(4,5) live_view_erase [OF assms(2) that]
    by (simp add: docs_Remove [OF D(3)] D(4) [OF that] spec_Remove_app)
  ultimately show ?thesis
    using assms(3) inv_Remove [OF D(3)] unfolding synced_def by (simp add: assms(5))
qed

lemma synced_remove:
  assumes "synced V rinv rdocs e" "colon_free (r_workspace_id r)"
  shows "synced V rinv rdocs (RemoveRecordInMemory V r e)"
proof -
  have ok: "resident_ok V (RemoveRecordInMemory V r e)"
    by (rule resident_ok_Remove [OF syncedD(1) [OF assms(1)]])
  show ?thesis
  proof (cases "map_of (e_records e) (RecordMapKey (r_workspace_id r) (r_id r))")
    case None
    with assms(1) ok show ?thesis
      unfolding synced_def RemoveRecordInMemory_sel umap_erase_absent [OF None] None option.case
      by blast
  next
    case (Some x)
    show ?thesis by (rule synced_erase [OF assms ok]) (simp_all add: RemoveRecordInMemory_sel Some)
  qed
qed

lemma synced_evict:
  assumes "synced V rinv rdocs e" "r \<in> snd ` set (e_records e)"
  shows "synced V rinv rdocs (evict V r e)"
  using syncedD(1,2) [OF assms(1)] assms(2) resident_ok_evict
  by (intro synced_erase [OF assms(1)]) auto

lemma synced_touch:
  assumes "synced V rinv rdocs e"
  shows "synced V rinv rdocs (e\<lparr> e_records := touch_record ws now hit (e_records e) \<rparr>)"
proof -
  have f: "filed_ok (e_records e)" using syncedD(1) [OF assms] by (simp add: resident_ok_def)
  have "colon_free (r_workspace_id x)" if "x \<in> snd ` set (touch_record ws now hit (e_records e))" for x
    using touch_in [OF f that] syncedD(2) [OF assms] plain_access_ws [of x] by metis
  moreover have "resident_ok V (e\<lparr> e_records := touch_record ws now hit (e_records e) \<rparr>)"
    by (rule resident_ok_touch [OF syncedD(1) [OF assms]])
  ultimately show ?thesis
    using syncedD(3,4) [OF assms] unfolding synced_def by (simp add: live_view_touch)
qed

lemma synced_same: "synced V rinv rdocs e \<Longrightarrow> same_memory e e' \<Longrightarrow> synced V rinv rdocs e'"
  using resident_ok_same [of e e'] by (simp add: synced_def same_memory_def)

lemma synced_new:
  assumes "rinv r" "rdocs r = (\<lambda>_ _. None)"
  shows "synced V rinv rdocs (new_MemoryEngine s r n opts)"
  using assms resident_ok_new [of s r n opts]
  by (simp add: synced_def live_view_def) (simp add: new_MemoryEngine_def)

end

sublocale resident_engine \<subseteq> acct: engine_invariant V "resident_ok V" "\<lambda>_. True"
  by unfold_locales
    (simp_all add: resident_ok_Upsert resident_ok_Remove resident_ok_evict resident_ok_touch
      resident_ok_same resident_ok_filed)

sublocale resident_engine \<subseteq> agree: engine_invariant V "synced V rinv rdocs" colon_free
proof unfold_locales
  fix e :: "('s, 'r) MemoryEngine" and e' r
  show "synced V rinv rdocs e \<Longrightarrow> same_memory e e' \<Longrightarrow> synced V rinv rdocs e'"
    by (rule synced_same)
  show "synced V rinv rdocs e \<Longrightarrow> filed_ok (e_records e)"
    by (simp add: synced_def resident_ok_def)
  show "synced V rinv rdocs e \<Longrightarrow> r \<in> snd ` set (e_records e) \<Longrightarrow> colon_free (r_workspace_id r)"
    by (auto simp: synced_def)
qed (simp_all add: synced_upsert synced_remove synced_evict synced_touch)

section \<open>The hybrid retriever under the engine\<close>

abbreviation over_hybrid :: "('s, 'r, 'j) engine_env \<Rightarrow> ('s, LshVectorIndex HybridRetriever, 'j) engine_env" where
  "over_hybrid V \<equiv> \<lparr> ev_store = ev_store V, ev_retriever = ret_ops, ev_json = ev_json V, ev_hash = ev_hash V,
     ev_float_format = ev_float_format V, ev_now = ev_now V, ev_elapsed_ms = ev_elapsed_ms V,
     ev_stage = ev_stage V \<rparr>"

interpretation hyb: resident_engine "over_hybrid V" hybrid_inv ret_records for V
proof -
  show "resident_engine (over_hybrid V) hybrid_inv ret_records"
    unfolding resident_engine_def by (simp add: hybrid.retriever_axioms)
qed

end
