(* ===== verification/Mcp_Dispatcher.thy ===== *)
theory Mcp_Dispatcher
  imports Mcp_Schema Engine_Inv
begin

text \<open>
  The dispatcher of \<open>src/mcp/mcp_dispatcher.cpp\<close>: a request object names a method and its
  parameters; the handler decodes them, calls the memory engine and encodes the answer.  A
  handler takes the engine and gives the answer with the engine after the call; \<open>None\<close> stands
  for a call that does not return.
\<close>

section \<open>Decoding\<close>

definition McpGetDoubleOr :: "'j json_api \<Rightarrow> 'j \<Rightarrow> string \<Rightarrow> real \<Rightarrow> real" where
  "McpGetDoubleOr J json path fallback = (case j_get_double J json path of None \<Rightarrow> fallback | Some x \<Rightarrow> x)"

definition read_record_metadata :: "'j json_api \<Rightarrow> 'j \<Rightarrow> StringMap" where
  "read_record_metadata J rec_json =
     (case j_get_child J rec_json ''metadata'' of
        None \<Rightarrow> []
      | Some md \<Rightarrow> fold (\<lambda>kv m. omap_put (fst kv) (j_value J (snd kv)) m) (j_children J md) [])"

definition read_record :: "'j json_api \<Rightarrow> 'j \<Rightarrow> WriteRecordInput" where
  "read_record J rec_json =
     \<lparr> wr_record_id = GetStringOr J rec_json ''record_id'' '''', wr_source = GetStringOr J rec_json ''source'' ''turn'',
       wr_content = GetStringOr J rec_json ''content'' '''', wr_tags = ReadStringArray J rec_json ''tags'',
       wr_importance = McpGetDoubleOr J rec_json ''importance'' 1, wr_ttl_s = GetUint64Or J rec_json ''ttl_s'' 0,
       wr_pin = GetBoolOr J rec_json ''pin'' False, wr_dedup_key = GetStringOr J rec_json ''dedup_key'' '''',
       wr_metadata = read_record_metadata J rec_json \<rparr>"

definition read_write_input :: "'j json_api \<Rightarrow> 'j \<Rightarrow> WriteInput" where
  "read_write_input J params =
     \<lparr> wi_workspace_id = GetStringOr J params ''workspace_id'' '''',
       wi_session_id = GetStringOr J params ''session_id'' ''default'',
       wi_records = (case j_get_child J params ''records'' of
          None \<Rightarrow> [] | Some records \<Rightarrow> map (\<lambda>node. read_record J (snd node)) (j_children J records)),
       wi_write_mode = GetStringOr J params ''write_mode'' ''upsert'' \<rparr>"

definition read_filters :: "'j json_api \<Rightarrow> 'j option \<Rightarrow> QueryFilter" where
  "read_filters J filter_opt =
     (case filter_opt of
        None \<Rightarrow> \<lparr> f_session_id = '''', f_sources = [], f_tags_any = [], f_updated_after_ms = 0,
                  f_updated_before_ms = 0, f_pinned_only = False \<rparr>
      | Some flt \<Rightarrow> \<lparr> f_session_id = GetStringOr J flt ''session_id'' '''',
          f_sources = ReadStringArray J flt ''sources'', f_tags_any = ReadStringArray J flt ''tags_any'',
          f_updated_after_ms = GetUint64Or J flt ''updated_after_ms'' 0,
          f_updated_before_ms = GetUint64Or J flt ''updated_before_ms'' 0,
          f_pinned_only = GetBoolOr J flt ''pinned_only'' False \<rparr>)"

text \<open>\<open>static_cast<size_t>\<close> of an \<open>int\<close>: a negative number becomes a huge count.\<close>

definition size_of_int :: "int \<Rightarrow> u64" where
  "size_of_int n = word_of_int n"

definition read_recall :: "'j json_api \<Rightarrow> 'j option \<Rightarrow> RecallOptions" where
  "read_recall J recall_opt =
     (case recall_opt of
        None \<Rightarrow> \<lparr> ro_sparse_k = 200, ro_dense_k = 200, ro_oversample = 4 \<rparr>
      | Some recall \<Rightarrow> \<lparr> ro_sparse_k = size_of_int (GetIntOr J recall ''sparse_k'' 200),
          ro_dense_k = size_of_int (GetIntOr J recall ''dense_k'' 200),
          ro_oversample = size_of_int (GetIntOr J recall ''oversample'' 4) \<rparr>)"

definition read_rerank :: "'j json_api \<Rightarrow> 'j option \<Rightarrow> RerankWeights" where
  "read_rerank J rerank_opt =
     (case rerank_opt of
        None \<Rightarrow> \<lparr> w_sparse = 0.55, w_dense = 0.30, w_freshness = 0.10, w_pin = 0.05 \<rparr>
      | Some rerank \<Rightarrow> \<lparr> w_sparse = McpGetDoubleOr J rerank ''w_sparse'' 0.55,
          w_dense = McpGetDoubleOr J rerank ''w_dense'' 0.30,
          w_freshness = McpGetDoubleOr J rerank ''w_freshness'' 0.10,
          w_pin = McpGetDoubleOr J rerank ''w_pin'' 0.05 \<rparr>)"

definition read_query_input :: "'j json_api \<Rightarrow> 'j \<Rightarrow> QueryInput" where
  "read_query_input J params =
     \<lparr> q_workspace_id = GetStringOr J params ''workspace_id'' '''', q_query = GetStringOr J params ''query'' '''',
       q_top_k = size_of_int (GetIntOr J params ''top_k'' 8), q_token_budget = GetIntOr J params ''token_budget'' 2048,
       q_filters = read_filters J (j_get_child J params ''filters''),
       q_recall = read_recall J (j_get_child J params ''recall''),
       q_rerank = read_rerank J (j_get_child J params ''rerank''),
       q_debug = GetBoolOr J params ''debug'' False \<rparr>"

section \<open>Encoding\<close>

definition write_result :: "'j json_api \<Rightarrow> WriteOutput \<Rightarrow> 'j" where
  "write_result J res =
     j_add_child J ''warnings'' (MakeArray J (wo_warnings res))
       (j_put J ''index_generation'' (JU64 (wo_index_generation res))
         (j_add_child J ''deduped_ids'' (MakeArray J (wo_deduped_ids res))
           (j_add_child J ''stored_ids'' (MakeArray J (wo_stored_ids res))
             (j_put J ''ok'' (JBool (wo_ok res)) (j_empty J)))))"

definition hit_node :: "'j json_api \<Rightarrow> QueryHit \<Rightarrow> 'j" where
  "hit_node J hit =
     (let node = object_of J [(''memory_id'', JStr (h_memory_id hit)), (''source'', JStr (h_source hit)),
            (''content'', JStr (h_content hit))];
          node = j_add_child J ''tags'' (MakeArray J (h_tags hit)) node;
          node = j_add_child J ''metadata'' (object_of J (map (\<lambda>(k, v). (k, JStr v)) (h_metadata hit))) node;
          s = h_scores hit;
          node = j_add_child J ''scores''
            (object_of J [(''sparse'', JReal (sc_sparse s)), (''dense'', JReal (sc_dense s)),
               (''freshness'', JReal (sc_freshness s)), (''pin'', JReal (sc_pin s)), (''final'', JReal (sc_final s))]) node
      in put_fields J [(''updated_at_ms'', JU64 (h_updated_at_ms hit)), (''pinned'', JBool (h_pinned hit))] node)"

definition query_result :: "'j json_api \<Rightarrow> QueryOutput \<Rightarrow> 'j" where
  "query_result J res =
     (let d = qo_debug_stats res;
          debug_stats = object_of J [(''sparse_candidates'', JU64 (of_nat (qd_sparse_candidates d))),
            (''dense_candidates'', JU64 (of_nat (qd_dense_candidates d))),
            (''merged_candidates'', JU64 (of_nat (qd_merged_candidates d)))];
          latency = object_of J [(''sparse'', JReal (qd_sparse_ms d)), (''dense'', JReal (qd_dense_ms d)),
            (''rerank'', JReal (qd_rerank_ms d)), (''total'', JReal (qd_total_ms d))]
      in add_children J
           [(''hits'', array_of J (map (hit_node J) (qo_hits res))),
            (''debug_stats'', j_add_child J ''latency_ms'' latency debug_stats)] (j_empty J))"

definition pin_result :: "'j json_api \<Rightarrow> string option \<Rightarrow> 'j" where
  "pin_result J error =
     (let result = j_put J ''ok'' (JBool (error = None)) (j_empty J) in
      case error of None \<Rightarrow> result | Some err \<Rightarrow> j_put J ''error'' (JStr err) result)"

definition stats_result :: "'j json_api \<Rightarrow> StatsSnapshot \<Rightarrow> 'j" where
  "stats_result J stats =
     (let result = object_of J [(''p95_read_ms'', JReal (ss_p95_read_ms stats)),
            (''p95_write_ms'', JReal (ss_p95_write_ms stats)),
            (''token_reduction_ratio'', JReal (ss_token_reduction_ratio stats)),
            (''fallback_rate'', JReal (ss_fallback_rate stats)), (''mem_used_bytes'', JU64 (ss_mem_used_bytes stats)),
            (''disk_used_bytes'', JU64 (ss_disk_used_bytes stats)),
            (''resident_used_bytes'', JU64 (ss_resident_used_bytes stats)),
            (''resident_limit_bytes'', JU64 (ss_resident_limit_bytes stats)),
            (''resident_evicted_count'', JU64 (ss_resident_evicted_count stats)),
            (''disk_fallback_search_count'', JU64 (ss_disk_fallback_search_count stats)),
            (''item_count'', JU64 (ss_item_count stats)), (''tombstone_count'', JU64 (ss_tombstone_count stats)),
            (''gc_last_run_ms'', JU64 (ss_gc_last_run_ms stats)), (''gc_evicted_count'', JU64 (ss_gc_evicted_count stats)),
            (''capacity_blocked'', JBool (ss_capacity_blocked stats)),
            (''write_ack_mode'', JStr (ss_write_ack_mode stats)),
            (''effective_backend'', JStr (ss_effective_backend stats))];
          i = ss_index_stats stats;
          index_stats = object_of J [(''segment_count'', JU64 (is_segment_count i)),
            (''posting_terms'', JU64 (is_posting_terms i)), (''vector_count'', JU64 (is_vector_count i)),
            (''query_cache_hit_rate'', JReal (is_query_cache_hit_rate i)),
            (''dense_probe_count_p95'', JReal (is_dense_probe_count_p95 i)),
            (''cold_rehydrate_count'', JU64 (is_cold_rehydrate_count i))]
      in j_add_child J ''index_stats'' index_stats result)"

definition compact_result :: "'j json_api \<Rightarrow> CompactOutput \<Rightarrow> 'j" where
  "compact_result J res = object_of J
     [(''triggered'', JBool (co_triggered res)), (''capacity_blocked'', JBool (co_capacity_blocked res)),
      (''mem_before_bytes'', JU64 (co_mem_before_bytes res)), (''disk_before_bytes'', JU64 (co_disk_before_bytes res)),
      (''mem_after_bytes'', JU64 (co_mem_after_bytes res)), (''disk_after_bytes'', JU64 (co_disk_after_bytes res)),
      (''summarized_count'', JU64 (co_summarized_count res)), (''tombstoned_count'', JU64 (co_tombstoned_count res)),
      (''deleted_count'', JU64 (co_deleted_count res)), (''segments_before'', JU64 (co_segments_before res)),
      (''segments_after'', JU64 (co_segments_after res)), (''postings_reclaimed'', JU64 (co_postings_reclaimed res)),
      (''vectors_reclaimed'', JU64 (co_vectors_reclaimed res))]"

definition store_compact_result :: "'j json_api \<Rightarrow> StoreCompactTriggerResult \<Rightarrow> 'j" where
  "store_compact_result J res = object_of J
     [(''triggered'', JBool (ct_triggered res)), (''noop'', JBool (ct_noop res)), (''busy'', JBool (ct_busy res)),
      (''async'', JBool (ct_async res)), (''partition_count'', JU64 (ucast (ct_partition_count res))),
      (''message'', JStr (ct_message res))]"

section \<open>Handlers\<close>

type_synonym ('s, 'r, 'j) handler = "('s, 'r) MemoryEngine \<Rightarrow> ('j \<times> ('s, 'r) MemoryEngine) option"

definition HandleWrite :: "('s, 'r, 'j) engine_env \<Rightarrow> 'j \<Rightarrow> ('s, 'r, 'j) handler" where
  "HandleWrite V params e =
     map_option (\<lambda>(res, e). (write_result (ev_json V) res, e)) (engine_Write V (read_write_input (ev_json V) params) e)"

definition HandleQuery :: "('s, 'r, 'j) engine_env \<Rightarrow> 'j \<Rightarrow> ('s, 'r, 'j) handler" where
  "HandleQuery V params e =
     (let (res, e) = engine_Query V (read_query_input (ev_json V) params) e in Some (query_result (ev_json V) res, e))"

definition HandlePin :: "('s, 'r, 'j) engine_env \<Rightarrow> 'j \<Rightarrow> ('s, 'r, 'j) handler" where
  "HandlePin V params e =
     (let J = ev_json V in
      map_option (\<lambda>(err, e). (pin_result J err, e))
        (engine_Pin V (GetStringOr J params ''workspace_id'' '''') (GetStringOr J params ''memory_id'' '''')
           (GetBoolOr J params ''pin'' True) e))"

definition HandleStats :: "('s, 'r, 'j) engine_env \<Rightarrow> 'j \<Rightarrow> ('s, 'r, 'j) handler" where
  "HandleStats V params e =
     (let J = ev_json V in
      Some (stats_result J (engine_Stats V (GetStringOr J params ''workspace_id'' '''')
              (GetStringOr J params ''window'' ''5m'') e), e))"

definition HandleCompact :: "('s, 'r, 'j) engine_env \<Rightarrow> 'j \<Rightarrow> ('s, 'r, 'j) handler" where
  "HandleCompact V params e =
     (let (res, e) = engine_Compact V (GetStringOr (ev_json V) params ''workspace_id'' '''') e
      in Some (compact_result (ev_json V) res, e))"

definition HandleStoreCompact :: "('s, 'r, 'j) engine_env \<Rightarrow> 'j \<Rightarrow> ('s, 'r, 'j) handler" where
  "HandleStoreCompact V params e =
     (let (res, e) = StoreCompact V e in Some (store_compact_result (ev_json V) res, e))"

definition HandleDescribe :: "('s, 'r, 'j) engine_env \<Rightarrow> 'j \<Rightarrow> ('s, 'r, 'j) handler" where
  "HandleDescribe V params e =
     (let (now_ms, e) = NowMs V e
      in Some (Describe (ev_json V) now_ms (GetBoolOr (ev_json V) params ''include_examples'' False), e))"

definition Error :: "'j json_api \<Rightarrow> int \<Rightarrow> string \<Rightarrow> 'j \<Rightarrow> 'j" where
  "Error J error_code message req_id =
     j_add_child J ''error'' (object_of J [(''code'', JInt error_code), (''message'', JStr message)])
       (j_add_child J ''id'' req_id (j_empty J))"

text \<open>\<open>get_child\<close> throws when there is no such child; an exception leaves \<open>Handle\<close> without an answer.\<close>

definition error_response :: "'j json_api \<Rightarrow> int \<Rightarrow> string \<Rightarrow> 'j \<Rightarrow> 'j \<Rightarrow> 'j option" where
  "error_response J error_code message req_id response =
     map_option (\<lambda>err. j_add_child J ''error'' err response) (j_get_child J (Error J error_code message req_id) ''error'')"

definition Handle :: "('s, 'r, 'j) engine_env \<Rightarrow> 'j \<Rightarrow> ('s, 'r, 'j) handler" where
  "Handle V request e =
     (let J = ev_json V;
          req_id = value_or (j_get_child J request ''id'') (j_empty J);
          method = GetStringOr J request ''method'' '''';
          params = value_or (j_get_child J request ''params'') (j_empty J);
          response = j_add_child J ''id'' req_id (j_empty J);
          answer = map_option (\<lambda>(result, e). (j_add_child J ''result'' result response, e))
      in if method = ''memory.write'' then answer (HandleWrite V params e)
         else if method = ''memory.query'' then answer (HandleQuery V params e)
         else if method = ''memory.pin'' then answer (HandlePin V params e)
         else if method = ''memory.stats'' then answer (HandleStats V params e)
         else if method = ''memory.compact'' then answer (HandleCompact V params e)
         else if method = ''store.compact'' then
           (case HandleStoreCompact V params e of
              None \<Rightarrow> None
            | Some (result, e) \<Rightarrow>
                if GetBoolOr J result ''busy'' False
                then map_option (\<lambda>r. (r, e)) (error_response J (- 32001) ''store compact is busy'' req_id response)
                else Some (j_add_child J ''result'' result response, e))
         else if method = ''memory.describe'' then answer (HandleDescribe V params e)
         else map_option (\<lambda>r. (r, e)) (error_response J (- 32601) ''method not found'' req_id response))"

text \<open>A server that handles one request after the other.\<close>

fun serve :: "('s, 'r, 'j) engine_env \<Rightarrow> 'j list \<Rightarrow> ('s, 'r) MemoryEngine \<Rightarrow> ('j list \<times> ('s, 'r) MemoryEngine) option" where
  "serve V [] e = Some ([], e)"
| "serve V (request # requests) e =
     (case Handle V request e of
        None \<Rightarrow> None
      | Some (response, e) \<Rightarrow> map_option (\<lambda>(responses, e). (response # responses, e)) (serve V requests e))"

end
