(* ===== verification/Daemon_Json.thy ===== *)
theory Daemon_Json
  imports Mcp_Dispatcher
begin

text \<open>
  The JSON side of the daemon in \<open>src/apps/pgmemd_main.cpp\<close>: escaping and the literals of
  JSON-RPC, and the normalisation that gives the strings of the property tree their types
  back.  The values are those of RapidJSON, a library: members of objects are kept in order
  and may repeat, \<open>HasMember\<close> and \<open>[]\<close> find the first one; its parser and writer, the
  conversion \<open>std::strtod\<close> and the stream format of doubles are parameters.
\<close>

section \<open>Values\<close>

datatype rj =
    RNull
  | RBool bool
  | RInt int
  | RDouble real
  | RString string
  | RArray "rj list"
  | RObject "(string \<times> rj) list"

record rapid_api =
  rj_parse :: "string \<Rightarrow> rj option"
  rj_write :: "rj \<Rightarrow> string"
  rj_strtod :: "string \<Rightarrow> (real \<times> string) option"
  rj_format :: "real \<Rightarrow> string"

text \<open>A \<open>const char*\<close> ends at its first zero byte.\<close>

definition c_str :: "string \<Rightarrow> string" where
  "c_str s = takeWhile (\<lambda>c. c \<noteq> CHR 0x00) s"

definition rj_member :: "string \<Rightarrow> rj \<Rightarrow> rj option" where
  "rj_member key v = (case v of RObject ms \<Rightarrow> map_of ms key | _ \<Rightarrow> None)"

definition is_object :: "rj \<Rightarrow> bool" where
  "is_object v \<longleftrightarrow> (case v of RObject _ \<Rightarrow> True | _ \<Rightarrow> False)"

section \<open>Escaping\<close>

definition hex_digit :: "nat \<Rightarrow> char" where
  "hex_digit n = ''0123456789abcdef'' ! n"

definition escape_char :: "char \<Rightarrow> string" where
  "escape_char c =
     (if c = CHR 0x22 then [CHR 0x5C, CHR 0x22]
      else if c = CHR 0x5C then [CHR 0x5C, CHR 0x5C]
      else if c = CHR 0x08 then CHR 0x5C # ''b''
      else if c = CHR 0x0C then CHR 0x5C # ''f''
      else if c = CHR 0x0A then CHR 0x5C # ''n''
      else if c = CHR 0x0D then CHR 0x5C # ''r''
      else if c = CHR 0x09 then CHR 0x5C # ''t''
      else if byte c < 32 then CHR 0x5C # ''u00'' @ [hex_digit (byte c div 16), hex_digit (byte c mod 16)]
      else [c])"

definition JsonEscape :: "string \<Rightarrow> string" where
  "JsonEscape input = concat (map escape_char input)"

definition JsonQuote :: "string \<Rightarrow> string" where
  "JsonQuote input = CHR 0x22 # JsonEscape input @ [CHR 0x22]"

section \<open>JSON-RPC literals\<close>

definition JsonRpcIdLiteral :: "rapid_api \<Rightarrow> rj \<Rightarrow> string" where
  "JsonRpcIdLiteral P doc =
     (case rj_member ''id'' doc of
        None \<Rightarrow> ''null''
      | Some i \<Rightarrow>
          (case i of
             RNull \<Rightarrow> ''null''
           | RBool b \<Rightarrow> if b then ''true'' else ''false''
           | RInt n \<Rightarrow> if - (2 ^ 63) \<le> n \<and> n < 2 ^ 64 then int_string n else ''null''
           | RDouble x \<Rightarrow> rj_format P x
           | RString s \<Rightarrow> JsonQuote (c_str s)
           | _ \<Rightarrow> ''null''))"

definition JsonRpcError :: "string \<Rightarrow> int \<Rightarrow> string \<Rightarrow> string" where
  "JsonRpcError id_literal error_code message =
     ''{\"jsonrpc\":\"2.0\",\"id\":'' @ id_literal @ '',\"error\":{\"code\":'' @ int_string error_code @
     '',\"message\":'' @ JsonQuote message @ ''}}''"

definition JsonRpcResult :: "string \<Rightarrow> string \<Rightarrow> string" where
  "JsonRpcResult id_literal result_json =
     ''{\"jsonrpc\":\"2.0\",\"id\":'' @ id_literal @ '',\"result\":'' @ result_json @ ''}''"

definition InitializeResultJson :: string where
  "InitializeResultJson =
     ''{\"protocolVersion\":\"2024-11-05\",\"capabilities\":{\"tools\":{\"listChanged\":false}},\"serverInfo\":{\"name\":\"poorguy-mem\",\"version\":\"2.0.0\"},\"instructions\":\"Use tools memory.write/query/pin/stats/compact. Call memory.describe for full schema.\"}''"

definition ToolCallResultJson :: "string \<Rightarrow> bool \<Rightarrow> string" where
  "ToolCallResultJson text_json is_error =
     ''{\"content\":[{\"type\":\"text\",\"text\":'' @ JsonQuote text_json @ ''}],\"isError\":'' @
     (if is_error then ''true'' else ''false'') @ ''}''"

section \<open>Literals in strings\<close>

definition ParseBoolLiteral :: "string \<Rightarrow> bool option" where
  "ParseBoolLiteral s =
     (let lowered = map to_lower_char s in
      if lowered = ''true'' \<or> lowered = ''1'' then Some True
      else if lowered = ''false'' \<or> lowered = ''0'' then Some False else None)"

text \<open>
  \<open>std::strtoll\<close> in base ten: white space, a sign, digits; out of range it sets \<open>errno\<close>.  The
  whole text has to be consumed.
\<close>

definition ParseInt64Literal :: "string \<Rightarrow> int option" where
  "ParseInt64Literal s =
     (let (negative, t) = sign_split (dropWhile is_space s); ds = takeWhile is_digit t;
          n = (if negative then - int (dec_val ds) else int (dec_val ds)) in
      if ds = [] \<or> drop (length ds) t \<noteq> [] \<or> n < - (2 ^ 63) \<or> 2 ^ 63 \<le> n then None else Some n)"

text \<open>\<open>rj_strtod\<close> gives the value and the rest, or nothing when it converts nothing or sets \<open>errno\<close>.\<close>

definition ParseDoubleLiteral :: "rapid_api \<Rightarrow> string \<Rightarrow> real option" where
  "ParseDoubleLiteral P s = (case rj_strtod P s of Some (x, []) \<Rightarrow> Some x | _ \<Rightarrow> None)"

definition ConvertValueToBoolIfString :: "rj \<Rightarrow> rj" where
  "ConvertValueToBoolIfString v =
     (case v of
        RString s \<Rightarrow> (case ParseBoolLiteral (c_str s) of Some b \<Rightarrow> RBool b | None \<Rightarrow> v)
      | _ \<Rightarrow> v)"

definition ConvertValueToIntIfString :: "rj \<Rightarrow> rj" where
  "ConvertValueToIntIfString v =
     (case v of
        RString s \<Rightarrow> (case ParseInt64Literal (c_str s) of Some n \<Rightarrow> RInt n | None \<Rightarrow> v)
      | _ \<Rightarrow> v)"

definition ConvertValueToDoubleIfString :: "rapid_api \<Rightarrow> rj \<Rightarrow> rj" where
  "ConvertValueToDoubleIfString P v =
     (case v of
        RString s \<Rightarrow> (case ParseDoubleLiteral P (c_str s) of Some x \<Rightarrow> RDouble x | None \<Rightarrow> v)
      | _ \<Rightarrow> v)"

text \<open>
  \<open>f(FindMemberObject(v, key))\<close> for an \<open>f\<close> that changes what it points to: the first member
  with this key, if \<open>v\<close> is an object that has one.
\<close>

fun update_first :: "string \<Rightarrow> (rj \<Rightarrow> rj) \<Rightarrow> (string \<times> rj) list \<Rightarrow> (string \<times> rj) list" where
  "update_first key f [] = []"
| "update_first key f ((k, v) # ms) = (if k = key then (k, f v) # ms else (k, v) # update_first key f ms)"

definition on_member :: "string \<Rightarrow> (rj \<Rightarrow> rj) \<Rightarrow> rj \<Rightarrow> rj" where
  "on_member key f v = (case v of RObject ms \<Rightarrow> RObject (update_first key f ms) | _ \<Rightarrow> v)"

definition on_members :: "(string \<times> (rj \<Rightarrow> rj)) list \<Rightarrow> rj \<Rightarrow> rj" where
  "on_members kfs v = fold (\<lambda>(k, f). on_member k f) kfs v"

text \<open>\<open>EnsureArrayMember\<close> and \<open>EnsureObjectMember\<close>, on the member itself.\<close>

definition as_array :: "rj \<Rightarrow> rj" where
  "as_array field =
     (case field of RString s \<Rightarrow> if s = [] then RArray [] else RArray [RString (c_str s)] | _ \<Rightarrow> field)"

definition as_object :: "rj \<Rightarrow> rj" where
  "as_object field = (case field of RString s \<Rightarrow> if s = [] then RObject [] else field | _ \<Rightarrow> field)"

section \<open>Normalising a description\<close>

definition NormalizeSchemaDefaultByType :: "rapid_api \<Rightarrow> rj \<Rightarrow> rj" where
  "NormalizeSchemaDefaultByType P v =
     (case (rj_member ''type'' v, rj_member ''default'' v) of
        (Some (RString type), Some _) \<Rightarrow>
          (let type_name = c_str type in
           if type_name = ''boolean'' then on_member ''default'' ConvertValueToBoolIfString v
           else if type_name = ''integer'' then on_member ''default'' ConvertValueToIntIfString v
           else if type_name = ''number'' then on_member ''default'' (ConvertValueToDoubleIfString P) v
           else v)
      | _ \<Rightarrow> v)"

definition convert_by_key :: "string \<Rightarrow> rj \<Rightarrow> rj" where
  "convert_by_key name v =
     (let key = c_str name in
      if key = ''generated_at_ms'' \<or> key = ''code'' \<or> key = ''status'' then ConvertValueToIntIfString v
      else if key = ''sync_routes_available'' then ConvertValueToBoolIfString v else v)"

definition schema_members :: "rapid_api \<Rightarrow> (string \<times> rj) list \<Rightarrow> (string \<times> rj) list" where
  "schema_members P ms =
     (case NormalizeSchemaDefaultByType P (on_member ''additionalProperties'' ConvertValueToBoolIfString (RObject ms)) of
        RObject ms' \<Rightarrow> ms' | _ \<Rightarrow> ms)"

text \<open>The conversions keep the height of a value, hence the recursion ends.\<close>

fun rj_height :: "rj \<Rightarrow> nat" where
  "rj_height (RArray vs) = Suc (sum_list (map rj_height vs))"
| "rj_height (RObject ms) = Suc (sum_list (map (\<lambda>kv. rj_height (snd kv)) ms))"
| "rj_height _ = 0"

lemma height_convert [simp]:
  "rj_height (ConvertValueToBoolIfString v) = rj_height v" "rj_height (ConvertValueToIntIfString v) = rj_height v"
  "rj_height (ConvertValueToDoubleIfString P v) = rj_height v" "rj_height (convert_by_key k v) = rj_height v"
  by (simp_all add: ConvertValueToBoolIfString_def ConvertValueToIntIfString_def ConvertValueToDoubleIfString_def
      convert_by_key_def Let_def split: rj.split option.split)

lemma height_update_first:
  "(\<And>v. rj_height (f v) = rj_height v) \<Longrightarrow>
   sum_list (map (\<lambda>kv. rj_height (snd kv)) (update_first k f ms)) = sum_list (map (\<lambda>kv. rj_height (snd kv)) ms)"
  by (induction ms) auto

lemma height_schema_members:
  "sum_list (map (\<lambda>kv. rj_height (snd kv)) (schema_members P ms)) = sum_list (map (\<lambda>kv. rj_height (snd kv)) ms)"
  by (auto simp: schema_members_def NormalizeSchemaDefaultByType_def on_member_def Let_def height_update_first
      split: option.split rj.split)

lemma height_member: "kv \<in> set ms \<Longrightarrow> rj_height (snd kv) \<le> sum_list (map (\<lambda>kv. rj_height (snd kv)) ms)"
  by (induction ms) auto

lemma height_element: "v \<in> set vs \<Longrightarrow> rj_height v \<le> sum_list (map rj_height vs)"
  by (induction vs) auto

function NormalizeDescribeNode :: "rapid_api \<Rightarrow> rj \<Rightarrow> rj" where
  "NormalizeDescribeNode P (RObject ms) =
     RObject (map (\<lambda>kv. (fst kv, NormalizeDescribeNode P (convert_by_key (fst kv) (snd kv)))) (schema_members P ms))"
| "NormalizeDescribeNode P (RArray vs) = RArray (map (NormalizeDescribeNode P) vs)"
| "NormalizeDescribeNode P RNull = RNull"
| "NormalizeDescribeNode P (RBool b) = RBool b"
| "NormalizeDescribeNode P (RInt n) = RInt n"
| "NormalizeDescribeNode P (RDouble x) = RDouble x"
| "NormalizeDescribeNode P (RString s) = RString s"
  by pat_completeness auto
termination
proof (relation "measure (\<lambda>(P, v). rj_height v)")
  fix P ms kv
  assume "kv \<in> set (schema_members P ms)"
  then have "rj_height (snd kv) \<le> sum_list (map (\<lambda>kv. rj_height (snd kv)) ms)"
    using height_member [of kv "schema_members P ms"] by (simp add: height_schema_members)
  then show "((P, convert_by_key (fst kv) (snd kv)), P, RObject ms) \<in> measure (\<lambda>(P, v). rj_height v)" by simp
next
  fix P :: rapid_api and vs :: "rj list" and v
  assume "v \<in> set vs"
  then have "rj_height v \<le> sum_list (map rj_height vs)" by (rule height_element)
  then show "((P, v), P, RArray vs) \<in> measure (\<lambda>(P, v). rj_height v)" by simp
qed simp

section \<open>Normalising results\<close>

abbreviation to_bool :: "rj \<Rightarrow> rj" where "to_bool \<equiv> ConvertValueToBoolIfString"
abbreviation to_int :: "rj \<Rightarrow> rj" where "to_int \<equiv> ConvertValueToIntIfString"
abbreviation to_double :: "rapid_api \<Rightarrow> rj \<Rightarrow> rj" where "to_double \<equiv> ConvertValueToDoubleIfString"

definition normalize_hit :: "rapid_api \<Rightarrow> rj \<Rightarrow> rj" where
  "normalize_hit P hit = on_members
     [(''tags'', as_array), (''metadata'', as_object), (''updated_at_ms'', to_int), (''pinned'', to_bool),
      (''scores'', on_members [(''sparse'', to_double P), (''dense'', to_double P), (''freshness'', to_double P),
         (''pin'', to_double P), (''final'', to_double P)])] hit"

definition NormalizeQueryResult :: "rapid_api \<Rightarrow> rj \<Rightarrow> rj" where
  "NormalizeQueryResult P result = on_members
     [(''hits'', as_array),
      (''hits'', \<lambda>hits. (case hits of RArray hs \<Rightarrow> RArray (map (normalize_hit P) hs) | _ \<Rightarrow> hits)),
      (''debug_stats'', on_members [(''sparse_candidates'', to_int), (''dense_candidates'', to_int),
         (''merged_candidates'', to_int),
         (''latency_ms'', on_members [(''sparse'', to_double P), (''dense'', to_double P), (''rerank'', to_double P),
            (''total'', to_double P)])])] result"

definition NormalizeResultByMethod :: "rapid_api \<Rightarrow> string \<Rightarrow> rj \<Rightarrow> rj" where
  "NormalizeResultByMethod P method result =
     (if \<not> is_object result then result
      else if method = ''memory.write'' then on_members
        [(''ok'', to_bool), (''index_generation'', to_int), (''stored_ids'', as_array), (''deduped_ids'', as_array),
         (''warnings'', as_array)] result
      else if method = ''memory.query'' then NormalizeQueryResult P result
      else if method = ''memory.pin'' then on_members [(''ok'', to_bool)] result
      else if method = ''memory.stats'' then on_members
        [(''p95_read_ms'', to_double P), (''p95_write_ms'', to_double P), (''token_reduction_ratio'', to_double P),
         (''fallback_rate'', to_double P), (''mem_used_bytes'', to_int), (''disk_used_bytes'', to_int),
         (''resident_used_bytes'', to_int), (''resident_limit_bytes'', to_int), (''resident_evicted_count'', to_int),
         (''disk_fallback_search_count'', to_int), (''item_count'', to_int), (''tombstone_count'', to_int),
         (''gc_last_run_ms'', to_int), (''gc_evicted_count'', to_int), (''capacity_blocked'', to_bool),
         (''index_stats'', on_members [(''segment_count'', to_int), (''posting_terms'', to_int),
            (''vector_count'', to_int), (''query_cache_hit_rate'', to_double P), (''dense_probe_count_p95'', to_double P),
            (''cold_rehydrate_count'', to_int)])] result
      else if method = ''memory.compact'' then on_members
        [(''triggered'', to_bool), (''capacity_blocked'', to_bool), (''mem_before_bytes'', to_int),
         (''disk_before_bytes'', to_int), (''mem_after_bytes'', to_int), (''disk_after_bytes'', to_int),
         (''summarized_count'', to_int), (''tombstoned_count'', to_int), (''deleted_count'', to_int),
         (''segments_before'', to_int), (''segments_after'', to_int), (''postings_reclaimed'', to_int),
         (''vectors_reclaimed'', to_int)] result
      else if method = ''store.compact'' then on_members
        [(''triggered'', to_bool), (''noop'', to_bool), (''busy'', to_bool), (''async'', to_bool),
         (''partition_count'', to_int)] result
      else if method = ''memory.describe'' \<or> method = ''tools.list'' then NormalizeDescribeNode P result
      else result)"

definition NormalizeMcpResponseJson :: "rapid_api \<Rightarrow> string \<Rightarrow> string \<Rightarrow> string" where
  "NormalizeMcpResponseJson P raw_json method =
     (case rj_parse P (c_str raw_json) of
        None \<Rightarrow> raw_json
      | Some doc \<Rightarrow>
          if \<not> is_object doc then raw_json
          else c_str (rj_write P (on_members
            [(''id'', to_int), (''result'', NormalizeResultByMethod P method), (''error'', on_member ''code'' to_int)] doc)))"

definition NormalizeMcpResultJson :: "rapid_api \<Rightarrow> string \<Rightarrow> string \<Rightarrow> string" where
  "NormalizeMcpResultJson P raw_json method =
     (case rj_parse P (c_str raw_json) of
        None \<Rightarrow> raw_json
      | Some doc \<Rightarrow> if \<not> is_object doc then raw_json else c_str (rj_write P (NormalizeResultByMethod P method doc)))"

end
