(* ===== verification/Http.thy ===== *)
theory Http
  imports Model_Types
begin

text \<open>
  The HTTP layer: parsing of requests and printing of responses (\<open>src/net/http_common.cpp\<close>),
  the route table and dispatch of the server (\<open>src/net/http_server.cpp\<close>), the addresses and the
  channel cache of the client (\<open>src/net/http_client.cpp\<close>), and the checks of the runtime
  options (\<open>src/net/brpc_runtime.cpp\<close>).  What brpc does (sockets, channels, calls, its flags) is
  a parameter.
\<close>

section \<open>Messages\<close>

record HttpRequest =
  rq_method :: string
  rq_path :: string
  rq_version :: string
  rq_headers :: StringMap
  rq_body :: string

record HttpResponse =
  rs_status_code :: int
  rs_content_type :: string
  rs_headers :: StringMap
  rs_body :: string

definition default_HttpResponse :: HttpResponse where
  "default_HttpResponse =
     \<lparr> rs_status_code = 200, rs_content_type = ''application/json'', rs_headers = [], rs_body = '''' \<rparr>"

definition http_Trim :: "string \<Rightarrow> string" where
  "http_Trim s = rev (dropWhile is_space (rev (dropWhile is_space s)))"

definition http_ToLower :: "string \<Rightarrow> string" where
  "http_ToLower s = map to_lower_char s"

definition StatusText :: "int \<Rightarrow> string" where
  "StatusText status =
     (if status = 200 then ''OK'' else if status = 201 then ''Created'' else if status = 204 then ''No Content''
      else if status = 400 then ''Bad Request'' else if status = 404 then ''Not Found''
      else if status = 409 then ''Conflict'' else if status = 422 then ''Unprocessable Entity''
      else if status = 429 then ''Too Many Requests'' else if status = 500 then ''Internal Server Error''
      else if status = 503 then ''Service Unavailable'' else ''Unknown'')"

section \<open>Parsing\<close>

abbreviation (input) crlf :: string where
  "crlf \<equiv> [CHR 0x0D, CHR 0x0A]"

definition pop_cr :: "string \<Rightarrow> string" where
  "pop_cr line = (if line \<noteq> [] \<and> last line = CHR 0x0D then butlast line else line)"

text \<open>\<open>stream >> word\<close>: skip white space, take the longest run without it; the extraction fails on an empty run.\<close>

definition read_word :: "string \<Rightarrow> (string \<times> string) option" where
  "read_word s =
     (let t = dropWhile is_space s; w = takeWhile (\<lambda>c. \<not> is_space c) t in
      if w = [] then None else Some (w, drop (length w) t))"

definition read_request_line :: "string \<Rightarrow> (string \<times> string \<times> string) option" where
  "read_request_line line =
     Option.bind (read_word line) (\<lambda>(m, s). Option.bind (read_word s) (\<lambda>(p, s).
       Option.bind (read_word s) (\<lambda>(v, _). Some (m, p, v))))"

definition header_of :: "string \<Rightarrow> (string \<times> string) option" where
  "header_of line =
     (let line = pop_cr line in
      if line = [] then None
      else (case str_find line '':'' of
              None \<Rightarrow> None
            | Some sep \<Rightarrow> Some (http_ToLower (http_Trim (take sep line)), http_Trim (drop (sep + 1) line))))"

fun parse_headers :: "string list \<Rightarrow> StringMap \<Rightarrow> u64 \<Rightarrow> string + (StringMap \<times> u64)" where
  "parse_headers [] headers content_length = Inr (headers, content_length)"
| "parse_headers (line # ls) headers content_length =
     (case header_of line of
        None \<Rightarrow> parse_headers ls headers content_length
      | Some (key, val) \<Rightarrow>
          (let headers = omap_put key val headers in
           if key = ''content-length''
           then (case std_stoul val of
                   None \<Rightarrow> Inl ''invalid content-length''
                 | Some n \<Rightarrow> parse_headers ls headers n)
           else parse_headers ls headers content_length))"

text \<open>Sizes are \<open>size_t\<close>: the sum of the offset of the body and its announced length wraps.\<close>

definition ParseHttpRequest :: "string \<Rightarrow> string + (HttpRequest \<times> u64)" where
  "ParseHttpRequest raw =
     (case str_find raw (crlf @ crlf) of
        None \<Rightarrow> Inl ''incomplete header''
      | Some header_end \<Rightarrow>
          (case getlines (take header_end raw) of
             [] \<Rightarrow> Inl ''missing request line''
           | first_line # ls \<Rightarrow>
               (case read_request_line (pop_cr first_line) of
                  None \<Rightarrow> Inl ''invalid request line''
                | Some (method, path, version) \<Rightarrow>
                    (case parse_headers ls [] 0 of
                       Inl err \<Rightarrow> Inl err
                     | Inr (headers, content_length) \<Rightarrow>
                         (let body_offset = of_nat header_end + 4 :: u64 in
                          if of_nat (length raw) < body_offset + content_length then Inl ''incomplete body''
                          else Inr (\<lparr> rq_method = method, rq_path = path, rq_version = version, rq_headers = headers,
                                      rq_body = substr raw (unat body_offset) (unat content_length) \<rparr>,
                                    body_offset + content_length))))))"

section \<open>Printing\<close>

definition header_line :: "string \<times> string \<Rightarrow> string" where
  "header_line kv = fst kv @ '': '' @ snd kv @ crlf"

definition BuildHttpResponse :: "HttpResponse \<Rightarrow> string" where
  "BuildHttpResponse response =
     ''HTTP/1.1 '' @ int_string (rs_status_code response) @ '' '' @ StatusText (rs_status_code response) @ crlf @
     header_line (''Content-Type'', rs_content_type response) @
     header_line (''Content-Length'', dec_string (length (rs_body response))) @
     ''Connection: close'' @ crlf @
     concat (map header_line (rs_headers response)) @ crlf @ rs_body response"

section \<open>The server\<close>

definition to_upper_char :: "char \<Rightarrow> char" where
  "to_upper_char c = (if 97 \<le> byte c \<and> byte c \<le> 122 then char_of (byte c - 32) else c)"

definition ToUpper :: "string \<Rightarrow> string" where
  "ToUpper s = map to_upper_char s"

definition RouteKey :: "string \<Rightarrow> string \<Rightarrow> string" where
  "RouteKey method path = ToUpper method @ '' '' @ path"

text \<open>
  A handler works on the state of the program behind it and answers a response or throws;
  \<open>Inl\<close> is the text of the exception, and \<open>None\<close> stands for a handler that does not return.
\<close>

type_synonym 'e http_handler = "HttpRequest \<Rightarrow> 'e \<Rightarrow> ((string + HttpResponse) \<times> 'e) option"

record 'e HttpServer =
  hs_host :: string
  hs_port :: int
  hs_num_threads :: int
  hs_running :: bool
  hs_routes :: "(string, 'e http_handler) omap"

definition new_HttpServer :: "string \<Rightarrow> int \<Rightarrow> int \<Rightarrow> 'e HttpServer" where
  "new_HttpServer host port num_threads =
     \<lparr> hs_host = host, hs_port = port, hs_num_threads = num_threads, hs_running = False, hs_routes = [] \<rparr>"

definition RegisterRoute :: "string \<Rightarrow> string \<Rightarrow> 'e http_handler \<Rightarrow> 'e HttpServer \<Rightarrow> 'e HttpServer" where
  "RegisterRoute method path handler server =
     server\<lparr> hs_routes := omap_put (RouteKey method path) handler (hs_routes server) \<rparr>"

text \<open>
  \<open>brpc_start\<close> takes the endpoint and the number of threads (0 for the default of the library)
  and answers an error text or nothing.
\<close>

definition server_Start :: "(string \<Rightarrow> int \<Rightarrow> string option) \<Rightarrow> 'e HttpServer \<Rightarrow> 'e HttpServer \<times> string option" where
  "server_Start brpc_start server =
     (if hs_running server then (server, None)
      else (case brpc_start (hs_host server @ '':'' @ int_string (hs_port server))
                   (if 0 < hs_num_threads server then hs_num_threads server else 0) of
              Some err \<Rightarrow> (server, Some (''brpc start failed: '' @ err))
            | None \<Rightarrow> (server\<lparr> hs_running := True \<rparr>, None)))"

definition server_Stop :: "'e HttpServer \<Rightarrow> 'e HttpServer" where
  "server_Stop server = (if hs_running server then server\<lparr> hs_running := False \<rparr> else server)"

definition Dispatch :: "'e HttpServer \<Rightarrow> HttpRequest \<Rightarrow> 'e \<Rightarrow> (HttpResponse \<times> 'e) option" where
  "Dispatch server request e =
     (case map_of (hs_routes server) (RouteKey (rq_method request) (rq_path request)) of
        None \<Rightarrow> Some (default_HttpResponse\<lparr> rs_status_code := 404, rs_body := ''{\"error\":\"route not found\"}'' \<rparr>, e)
      | Some handler \<Rightarrow>
          map_option (\<lambda>(res, e).
            (case res of
               Inr response \<Rightarrow> response
             | Inl what \<Rightarrow>
                 default_HttpResponse\<lparr> rs_status_code := 500, rs_body := ''{\"error\":\"'' @ what @ ''\"}'' \<rparr>, e))
            (handler request e))"

text \<open>What the service reads from the controller of a call: the method text (if the library knows one), path and query of the address, the headers and the attachment.\<close>

record brpc_call =
  bc_method :: "string option"
  bc_path :: string
  bc_query :: string
  bc_headers :: "(string \<times> string) list"
  bc_attachment :: string

definition request_of_call :: "brpc_call \<Rightarrow> HttpRequest" where
  "request_of_call c =
     \<lparr> rq_method = (case bc_method c of None \<Rightarrow> ''GET'' | Some m \<Rightarrow> m),
       rq_path = (if bc_path c = '''' then ''/'' else bc_path c) @ (if bc_query c \<noteq> '''' then ''?'' @ bc_query c else ''''),
       rq_version = ''HTTP/1.1'',
       rq_headers = fold (\<lambda>kv. omap_put (fst kv) (snd kv)) (bc_headers c) [], rq_body = bc_attachment c \<rparr>"

definition default_method :: "'e HttpServer \<Rightarrow> brpc_call \<Rightarrow> 'e \<Rightarrow> (HttpResponse \<times> 'e) option" where
  "default_method server c e = Dispatch server (request_of_call c) e"

section \<open>The client\<close>

definition EndpointKey :: "string \<Rightarrow> int \<Rightarrow> string" where
  "EndpointKey host port = host @ '':'' @ int_string port"

definition BuildHttpUri :: "string \<Rightarrow> int \<Rightarrow> string \<Rightarrow> string" where
  "BuildHttpUri host port path =
     (if path = '''' then ''http://'' @ host @ '':'' @ int_string port @ ''/''
      else if hd path = CHR ''/'' then ''http://'' @ host @ '':'' @ int_string port @ path
      else ''http://'' @ host @ '':'' @ int_string port @ ''/'' @ path)"

text \<open>
  The channels of brpc: whether some call still holds a channel (the cache has weak
  pointers), initialisation, and a call with its address, POST or GET, body, content type and
  timeout (if one is set), which answers the status, the attachment and an error text when it
  failed.
\<close>

record 'c brpc_client =
  ch_alive :: "'c \<Rightarrow> bool"
  ch_init :: "string \<Rightarrow> int \<Rightarrow> string + 'c"
  ch_call :: "'c \<Rightarrow> string \<Rightarrow> bool \<Rightarrow> string \<Rightarrow> string option \<Rightarrow> int option \<Rightarrow> int \<times> string \<times> string option"

definition AcquireChannel :: "'c brpc_client \<Rightarrow> string \<Rightarrow> int \<Rightarrow> (string, 'c) umap \<Rightarrow> (string + 'c) \<times> (string, 'c) umap" where
  "AcquireChannel B host port cache =
     (case map_of cache (EndpointKey host port) of
        Some c \<Rightarrow>
          if ch_alive B c then (Inr c, cache)
          else (case ch_init B host port of
                  Inl err \<Rightarrow> (Inl (''brpc channel init failed: '' @ err), cache)
                | Inr c \<Rightarrow> (Inr c, umap_put (EndpointKey host port) c cache))
      | None \<Rightarrow>
          (case ch_init B host port of
             Inl err \<Rightarrow> (Inl (''brpc channel init failed: '' @ err), cache)
           | Inr c \<Rightarrow> (Inr c, umap_put (EndpointKey host port) c cache)))"

record HttpClientResponse =
  hc_ok :: bool
  hc_status_code :: int
  hc_body :: string
  hc_error :: string

definition ExecRequest :: "'c brpc_client \<Rightarrow> string \<Rightarrow> int \<Rightarrow> string \<Rightarrow> bool \<Rightarrow> string \<Rightarrow> string \<Rightarrow> int \<Rightarrow>
    (string, 'c) umap \<Rightarrow> HttpClientResponse \<times> (string, 'c) umap" where
  "ExecRequest B host port path is_post body content_type timeout_ms cache =
     (case AcquireChannel B host port cache of
        (Inl err, cache) \<Rightarrow> (\<lparr> hc_ok = False, hc_status_code = 0, hc_body = '''', hc_error = err \<rparr>, cache)
      | (Inr c, cache) \<Rightarrow>
          (case ch_call B c (BuildHttpUri host port path) is_post body
                  (if content_type \<noteq> '''' then Some content_type else None) (if 0 < timeout_ms then Some timeout_ms else None) of
             (status, attachment, Some err) \<Rightarrow>
               (\<lparr> hc_ok = False, hc_status_code = status, hc_body = attachment, hc_error = err \<rparr>, cache)
           | (status, attachment, None) \<Rightarrow>
               (let is_ok = 200 \<le> status \<and> status < 300 in
                (\<lparr> hc_ok = is_ok, hc_status_code = status, hc_body = attachment,
                   hc_error = (if is_ok then '''' else ''non-2xx status'') \<rparr>, cache))))"

definition PostJson :: "'c brpc_client \<Rightarrow> string \<Rightarrow> int \<Rightarrow> string \<Rightarrow> string \<Rightarrow> int \<Rightarrow> (string, 'c) umap \<Rightarrow>
    HttpClientResponse \<times> (string, 'c) umap" where
  "PostJson B host port path body timeout_ms = ExecRequest B host port path True body ''application/json'' timeout_ms"

definition client_Get :: "'c brpc_client \<Rightarrow> string \<Rightarrow> int \<Rightarrow> string \<Rightarrow> int \<Rightarrow> (string, 'c) umap \<Rightarrow>
    HttpClientResponse \<times> (string, 'c) umap" where
  "client_Get B host port path timeout_ms = ExecRequest B host port path False '''' '''' timeout_ms"

section \<open>The runtime options\<close>

record BrpcRuntimeOptions =
  bo_core_number :: int
  bo_event_dispatcher_num :: int

record BrpcRuntimeState =
  br_resolved_core_number :: int
  br_resolved_event_dispatcher_num :: int
  br_network_io_uring_enabled :: bool

text \<open>The flags of brpc that the options set.\<close>

record brpc_flags =
  fl_bthread_concurrency :: int
  fl_event_dispatcher_num :: int
  fl_use_io_uring :: bool

definition ResolveCoreCount :: "int \<Rightarrow> int" where
  "ResolveCoreCount configured = configured"

definition ValidatePositiveInt32 :: "int \<Rightarrow> string \<Rightarrow> string option" where
  "ValidatePositiveInt32 val name =
     (if val \<le> 0 then Some (name @ '' must be positive'')
      else if 2 ^ 31 - 1 < val then Some (name @ '' exceeds int32 range'') else None)"

definition ApplyBrpcRuntimeOptions :: "BrpcRuntimeOptions \<Rightarrow> brpc_flags \<Rightarrow> (string + BrpcRuntimeState) \<times> brpc_flags" where
  "ApplyBrpcRuntimeOptions options flags =
     (if bo_core_number options \<le> 0 then (Inl ''core_number must be positive'', flags)
      else if bo_event_dispatcher_num options < 0 then (Inl ''event_dispatcher_num must be >= 0'', flags)
      else
        (let cores = ResolveCoreCount (bo_core_number options);
             dispatchers = (if 0 < bo_event_dispatcher_num options then bo_event_dispatcher_num options else cores)
         in case ValidatePositiveInt32 cores ''core_number'' of
              Some err \<Rightarrow> (Inl err, flags)
            | None \<Rightarrow>
                (case ValidatePositiveInt32 dispatchers ''event_dispatcher_num'' of
                   Some err \<Rightarrow> (Inl err, flags)
                 | None \<Rightarrow>
                     (Inr \<lparr> br_resolved_core_number = cores, br_resolved_event_dispatcher_num = dispatchers,
                        br_network_io_uring_enabled = True \<rparr>,
                      flags\<lparr> fl_bthread_concurrency := cores, fl_event_dispatcher_num := dispatchers,
                        fl_use_io_uring := True \<rparr>))))"

section \<open>Finding the end of the header\<close>

lemma str_find_skip:
  assumes "c \<notin> set l"
  shows "str_find (l @ s) (c # p) = map_option ((+) (length l)) (str_find s (c # p))"
  using assms
proof (induction l)
  case Nil
  show ?case by (cases "str_find s (c # p)") simp_all
next
  case (Cons a l)
  then show ?case by (cases "str_find s (c # p)") auto
qed

fun crlf_join :: "string list \<Rightarrow> string" where
  "crlf_join [] = []"
| "crlf_join [l] = l"
| "crlf_join (l # ls) = l @ crlf @ crlf_join ls"

definition plain_line :: "string \<Rightarrow> bool" where
  "plain_line l \<longleftrightarrow> l \<noteq> [] \<and> CHR 0x0D \<notin> set l \<and> CHR 0x0A \<notin> set l"

lemma crlf_join_concat: "ls \<noteq> [] \<Longrightarrow> concat (map (\<lambda>l. l @ crlf) ls) = crlf_join ls @ crlf"
  by (induction ls rule: crlf_join.induct) simp_all

lemma crlf_join_find:
  assumes "ls \<noteq> []" "list_all plain_line ls"
  shows "str_find (crlf_join ls @ crlf @ crlf @ body) (crlf @ crlf) = Some (length (crlf_join ls))"
  using assms
proof (induction ls rule: crlf_join.induct)
  case (2 l)
  then show ?case by (simp add: str_find_skip plain_line_def)
next
  case (3 l l' ls)
  obtain c t where "crlf_join (l' # ls) = c # t" "c \<noteq> CHR 0x0D"
    using 3 by (cases ls; cases l') (auto simp: plain_line_def)
  with 3 show ?case by (simp add: str_find_skip plain_line_def)
qed simp

lemma getlines_single: "l \<noteq> [] \<Longrightarrow> CHR 0x0A \<notin> set l \<Longrightarrow> getlines l = [l]"
proof -
  assume l: "l \<noteq> []" "CHR 0x0A \<notin> set l"
  then have all: "takeWhile (\<lambda>c. c \<noteq> CHR 0x0A) l = l" by (auto simp: takeWhile_eq_all_conv)
  from l(1) show ?thesis by (subst getlines.simps) (simp add: Let_def all)
qed

lemma getlines_crlf:
  assumes "ls \<noteq> []" "list_all plain_line ls"
  shows "map pop_cr (getlines (crlf_join ls)) = ls"
  using assms
proof (induction ls rule: crlf_join.induct)
  case (2 l)
  then show ?case by (auto simp: getlines_single plain_line_def pop_cr_def dest: last_in_set)
next
  case (3 l l' ls)
  have "getlines ((l @ [CHR 0x0D]) @ CHR 0x0A # crlf_join (l' # ls)) = (l @ [CHR 0x0D]) # getlines (crlf_join (l' # ls))"
    using 3 by (intro getlines_line) (simp add: plain_line_def)
  with 3 show ?case by (simp add: pop_cr_def)
qed simp

section \<open>Words and headers\<close>

definition word_ok :: "string \<Rightarrow> bool" where
  "word_ok w \<longleftrightarrow> w \<noteq> [] \<and> list_all (\<lambda>c. \<not> is_space c) w"

lemma takeWhile_word: "list_all (\<lambda>c. \<not> is_space c) w \<Longrightarrow> s = [] \<or> is_space (hd s) \<Longrightarrow>
    takeWhile (\<lambda>c. \<not> is_space c) (w @ s) = w"
  by (induction w) (auto simp: takeWhile_eq_Nil_iff)

lemma dropWhile_word: "word_ok w \<Longrightarrow> dropWhile is_space (w @ s) = w @ s"
  by (cases w) (simp_all add: word_ok_def)

lemma read_word_word: "word_ok w \<Longrightarrow> s = [] \<or> is_space (hd s) \<Longrightarrow> read_word (w @ s) = Some (w, s)"
  using takeWhile_word [of w s] by (simp add: read_word_def dropWhile_word Let_def) (simp add: word_ok_def)

lemma space_char [simp]: "is_space (CHR '' '')"
  by (simp add: is_space_def)

lemma read_word_space: "is_space c \<Longrightarrow> read_word (c # s) = read_word s"
  by (simp add: read_word_def)

lemma read_request_line_words:
  assumes "word_ok m" "word_ok p" "word_ok v"
  shows "read_request_line (m @ '' '' @ p @ '' '' @ v) = Some (m, p, v)"
  using read_word_word [OF assms(1), of "'' '' @ p @ '' '' @ v"] read_word_word [OF assms(2), of "'' '' @ v"]
    read_word_word [OF assms(3), of "[]"]
  by (simp add: read_request_line_def read_word_space)

definition header_ok :: "string \<times> string \<Rightarrow> bool" where
  "header_ok kv \<longleftrightarrow> list_all (\<lambda>c. \<not> is_space c) (fst kv) \<and> CHR '':'' \<notin> set (fst kv) \<and> http_ToLower (fst kv) = fst kv \<and>
     http_Trim (snd kv) = snd kv \<and> CHR 0x0D \<notin> set (snd kv) \<and> CHR 0x0A \<notin> set (snd kv)"

lemma dropWhile_none: "list_all (\<lambda>c. \<not> P c) w \<Longrightarrow> dropWhile P w = w"
  by (cases w) simp_all

lemma Trim_word: "list_all (\<lambda>c. \<not> is_space c) w \<Longrightarrow> http_Trim w = w"
  by (simp add: http_Trim_def dropWhile_none)

lemma no_line_end: "list_all (\<lambda>c. \<not> is_space c) w \<Longrightarrow> CHR 0x0D \<notin> set w \<and> CHR 0x0A \<notin> set w"
  by (auto simp: list_all_iff is_space_def)

lemma Trim_space: "http_Trim (CHR '' '' # s) = http_Trim s"
  by (simp add: http_Trim_def)

lemma header_of_line:
  assumes "header_ok kv" and "pop_cr line = fst kv @ '': '' @ snd kv"
  shows "header_of line = Some kv"
proof -
  have "str_find (fst kv @ CHR '':'' # [] @ '' '' @ snd kv) '':'' = Some (length (fst kv))"
    using assms(1) by (intro str_find_marker) (simp add: header_ok_def)
  with assms show ?thesis
    by (simp add: header_of_def header_ok_def Trim_word Trim_space)
qed

lemma parse_headers_pairs:
  assumes "map header_of ls = map Some kvs" "distinct (map fst kvs)"
    and "\<And>v. map_of kvs ''content-length'' = Some v \<Longrightarrow> std_stoul v = Some n"
  shows "parse_headers ls headers cl = Inr (fold (\<lambda>kv. omap_put (fst kv) (snd kv)) kvs headers,
    if map_of kvs ''content-length'' = None then cl else n)"
  using assms
proof (induction ls arbitrary: kvs headers cl)
  case (Cons l ls)
  then obtain k v kvs' where kvs: "kvs = (k, v) # kvs'" by (cases kvs) auto
  have h: "header_of l = Some (k, v)" "map header_of ls = map Some kvs'" using Cons.prems(1) by (simp_all add: kvs)
  show ?case
  proof (cases "k = ''content-length''")
    case True
    then have "map_of kvs' ''content-length'' = None"
      using Cons.prems(2) by (auto simp: kvs map_of_eq_None_iff)
    with Cons.IH [OF h(2)] Cons.prems(2,3) h(1) True show ?thesis by (simp add: kvs del: map_of_eq_None_iff)
  next
    case False
    with Cons.IH [OF h(2)] Cons.prems(2,3) h(1) show ?thesis by (simp add: kvs del: map_of_eq_None_iff)
  qed
qed simp

section \<open>Requests as text\<close>

lemma unat_u64: "n < 2 ^ 64 \<Longrightarrow> unat (of_nat n :: u64) = n"
  by (simp add: unat_of_nat take_bit_nat_eq_self)


definition request_lines :: "HttpRequest \<Rightarrow> string list" where
  "request_lines r = (rq_method r @ '' '' @ rq_path r @ '' '' @ rq_version r) #
     map (\<lambda>kv. fst kv @ '': '' @ snd kv) (rq_headers r)"

definition print_request :: "HttpRequest \<Rightarrow> string" where
  "print_request r = concat (map (\<lambda>l. l @ crlf) (request_lines r)) @ crlf @ rq_body r"

text \<open>The announced length is that of the body; without an announcement there is no body.\<close>

definition request_ok :: "HttpRequest \<Rightarrow> bool" where
  "request_ok r \<longleftrightarrow> word_ok (rq_method r) \<and> word_ok (rq_path r) \<and> word_ok (rq_version r) \<and>
     list_all header_ok (rq_headers r) \<and> omap_ok (rq_headers r) \<and> length (print_request r) < 2 ^ 64 \<and>
     (case map_of (rq_headers r) ''content-length'' of
        None \<Rightarrow> rq_body r = [] | Some v \<Rightarrow> std_stoul v = Some (of_nat (length (rq_body r))))"

lemma request_lines_plain: "request_ok r \<Longrightarrow> list_all plain_line (request_lines r)"
  using no_line_end by (fastforce simp: request_ok_def request_lines_def word_ok_def header_ok_def plain_line_def
      list_all_iff [of _ "rq_headers r"] list_all_iff [of plain_line])

lemma ParseHttpRequest_print:
  assumes "request_ok r" and "length (print_request r @ rest) < 2 ^ 64"
  shows "ParseHttpRequest (print_request r @ rest) = Inr (r, of_nat (length (print_request r)))"
proof -
  let ?raw = "print_request r @ rest" and ?h = "crlf_join (request_lines r)"
  have ne: "request_lines r \<noteq> []" by (simp add: request_lines_def)
  have raw: "?raw = ?h @ crlf @ crlf @ rq_body r @ rest"
    by (simp add: print_request_def crlf_join_concat [OF ne])
  note pl = request_lines_plain [OF assms(1)]
  have find: "str_find ?raw (crlf @ crlf) = Some (length ?h)"
    unfolding raw by (rule crlf_join_find [OF ne pl])
  obtain first ls where gl: "getlines ?h = first # ls"
    and pops: "pop_cr first = rq_method r @ '' '' @ rq_path r @ '' '' @ rq_version r"
      "map pop_cr ls = map (\<lambda>kv. fst kv @ '': '' @ snd kv) (rq_headers r)"
    using getlines_crlf [OF ne pl] by (auto simp: request_lines_def)
  have line: "read_request_line (pop_cr first) = Some (rq_method r, rq_path r, rq_version r)"
    unfolding pops(1) using assms(1) by (intro read_request_line_words) (simp_all add: request_ok_def)
  have hs: "map header_of ls = map Some (rq_headers r)"
  proof (rule nth_equalityI)
    show "length (map header_of ls) = length (map Some (rq_headers r))" using arg_cong [OF pops(2), of length] by simp
    fix i assume i: "i < length (map header_of ls)"
    then have i': "i < length (rq_headers r)" using arg_cong [OF pops(2), of length] by simp
    have "pop_cr (ls ! i) = fst (rq_headers r ! i) @ '': '' @ snd (rq_headers r ! i)"
      using arg_cong [OF pops(2), of "\<lambda>xs. xs ! i"] i i' by simp
    moreover have "header_ok (rq_headers r ! i)"
      using assms(1) i' by (auto simp: request_ok_def list_all_iff)
    ultimately show "map header_of ls ! i = map Some (rq_headers r) ! i"
      using i i' header_of_line by simp
  qed
  have ok: "omap_ok (rq_headers r)" using assms(1) by (simp add: request_ok_def)
  have cl: "std_stoul v = Some (of_nat (length (rq_body r)))" if "map_of (rq_headers r) ''content-length'' = Some v" for v
    using assms(1) that by (simp add: request_ok_def)
  have body: "map_of (rq_headers r) ''content-length'' = None \<Longrightarrow> rq_body r = []"
    using assms(1) by (simp add: request_ok_def)
  have headers: "parse_headers ls [] 0 = Inr (rq_headers r, of_nat (length (rq_body r)))"
    using parse_headers_pairs [OF hs omap_ok_distinct [OF ok] cl, of "[]" 0] fold_omap_put_sorted [of "[]" "rq_headers r"] ok body
    by (auto simp del: map_of_eq_None_iff)
  have len: "length ?h + 4 + length (rq_body r) + length rest < 2 ^ 64" using assms(2) by (simp add: raw)
  have sizes: "unat (of_nat (length ?h) + 4 :: u64) = length ?h + 4" "unat (of_nat (length (rq_body r)) :: u64) = length (rq_body r)"
    using len unat_u64 [of "length ?h + 4"] by (simp_all add: unat_u64 add.commute)
  have total: "of_nat (length ?h) + 4 + of_nat (length (rq_body r)) = (of_nat (length (print_request r)) :: u64)"
    by (simp add: print_request_def crlf_join_concat [OF ne])
  have "unat (of_nat (length ?raw) :: u64) = length ?raw" by (rule unat_u64 [OF assms(2)])
  moreover have "unat (of_nat (length (print_request r)) :: u64) = length (print_request r)"
    using assms(1) by (intro unat_u64) (simp add: request_ok_def)
  moreover have "length (print_request r) \<le> length ?raw" by simp
  ultimately have fits: "\<not> (of_nat (length ?raw) :: u64) < of_nat (length (print_request r))"
    unfolding word_less_nat_alt by linarith
  have "substr ?raw (length ?h + 4) (length (rq_body r)) = rq_body r" unfolding raw by (simp add: substr_def)
  moreover have head: "take (length ?h) ?raw = ?h" unfolding raw by simp
  ultimately show ?thesis
    unfolding ParseHttpRequest_def find option.case head gl list.case line prod.case headers sum.case Let_def total if_not_P [OF fits] sizes
    by simp
qed

end
