(* ===== verification/Eloq_Store.thy ===== *)
theory Eloq_Store
  imports Store
begin

text \<open>
  \<open>src/store/eloqstore_adapter.cpp\<close>: the durable backend.  Keys of all name spaces live in
  one table of the third-party EloqStore, cut into partitions; a key goes to the partition
  that the hash of its routing seed names.  The adapter composes the full keys, merges the
  scans of the partitions, splits a batch by partition, keeps approximate usage counters,
  and at start moves every entry to the partition it belongs to when the number of
  partitions or the routing scheme has changed.

  EloqStore is not part of the sources: its requests are the fields of \<open>kv_api\<close>, over a type
  of states of the store and its directory on disk.  Of its error codes the adapter tests
  \<open>NoError\<close> and \<open>NotFound\<close>.  \<open>el_env\<close> also holds \<open>std::hash\<close> and what the adapter asks of the
  file system: the size of the directory, its sub-directories, the layout file.
\<close>

section \<open>The third-party store and the file system\<close>

datatype KvError = KvNoError | KvNotFound | KvOther nat

record WriteDataEntry =
  wd_key :: string
  wd_val :: string
  wd_ts :: u64
  wd_op :: WriteOp

record KvEntry =
  ke_key :: string
  ke_value :: string
  ke_timestamp :: u64

record 'k kv_api =
  kv_Start :: "'k \<Rightarrow> 'k \<times> KvError"
  kv_Stop :: "'k \<Rightarrow> 'k"
  kv_Read :: "'k \<Rightarrow> u32 \<Rightarrow> string \<Rightarrow> KvError \<times> string"
  kv_BatchWrite :: "u32 \<Rightarrow> WriteDataEntry list \<Rightarrow> 'k \<Rightarrow> 'k \<times> KvError"
  kv_Scan :: "'k \<Rightarrow> u32 \<Rightarrow> string \<Rightarrow> string \<Rightarrow> (u64 \<times> u64) option \<Rightarrow> KvError \<times> KvEntry list"
  kv_Compact :: "u32 \<Rightarrow> 'k \<Rightarrow> 'k \<times> KvError"
  kv_ErrorString :: "KvError \<Rightarrow> string"

text \<open>
  \<open>fs_write_meta\<close> replaces the layout file and says whether it could be opened and flushed;
  \<open>fs_dirs\<close> lists the names of the directories under the root.
\<close>

record 'k el_env =
  le_kv :: "'k kv_api"
  le_hash :: "string \<Rightarrow> u64"
  le_hardware_concurrency :: nat
  fs_size :: "'k \<Rightarrow> u64"
  fs_read_meta :: "'k \<Rightarrow> string option"
  fs_write_meta :: "string \<Rightarrow> 'k \<Rightarrow> 'k \<times> bool \<times> bool"
  fs_dirs :: "'k \<Rightarrow> string list"
  fs_remove_all :: "string \<Rightarrow> 'k \<Rightarrow> 'k"
  fs_is_empty :: "'k \<Rightarrow> string \<Rightarrow> bool"
  fs_remove_legacy_marker :: "'k \<Rightarrow> 'k"

section \<open>Keys and routing\<close>

definition ComposeKey :: "string \<Rightarrow> string \<Rightarrow> string" where
  "ComposeKey name_space key = name_space @ '':'' @ key"

text \<open>The part of a string before and after its first or last \<open>c\<close>.\<close>

definition before_first :: "char \<Rightarrow> string \<Rightarrow> string" where
  "before_first c s = takeWhile (\<lambda>x. x \<noteq> c) s"

definition after_last :: "char \<Rightarrow> string \<Rightarrow> string" where
  "after_last c s = rev (takeWhile (\<lambda>x. x \<noteq> c) (rev s))"

definition WorkspacePrefix :: "string \<Rightarrow> string" where
  "WorkspacePrefix key =
     (if prefix ''ws/'' key then before_first (CHR ''/'') (drop 3 key)
      else if CHR '':'' \<notin> set key \<or> prefix '':'' key then key
      else before_first (CHR '':'') key)"

definition SuffixAfterLastColon :: "string \<Rightarrow> string" where
  "SuffixAfterLastColon key =
     (if CHR ''/'' \<in> set key \<and> after_last (CHR ''/'') key \<noteq> '''' then after_last (CHR ''/'') key
      else if CHR '':'' \<notin> set key then '''' else after_last (CHR '':'') key)"

definition RoutingShardKey :: "string \<Rightarrow> string \<Rightarrow> string" where
  "RoutingShardKey name_space key =
     (if name_space \<in> {''mem_route_meta'', ''ds_projection_ckpt''} then WorkspacePrefix key
      else if name_space \<in> {''mem_docs'', ''mem_term_dict'', ''mem_posting_blk'', ''mem_vec_code'',
        ''mem_vec_fp'', ''ds_events''} then
        (let workspace = WorkspacePrefix key; record_id = SuffixAfterLastColon key in
         if workspace \<noteq> '''' \<and> record_id \<noteq> '''' then workspace @ '':'' @ record_id else key)
      else key)"

definition PartitionRoutingSeed :: "string \<Rightarrow> string \<Rightarrow> string" where
  "PartitionRoutingSeed name_space key = name_space @ ''|'' @ RoutingShardKey name_space key"

section \<open>State\<close>

type_synonym u16 = "16 word"

record StoreAdapterConfig =
  sc_backend :: string
  sc_root_path :: string
  sc_num_threads :: u16
  sc_num_partitions :: u32
  sc_append_mode :: bool
  sc_enable_compression :: bool
  sc_zstd_compression_level :: int
  sc_mem_budget_mb :: u64
  sc_disk_budget_gb :: u64
  sc_gc_high_watermark :: real
  sc_gc_low_watermark :: real
  sc_gc_batch_size :: u32
  sc_max_record_bytes :: u64
  sc_enable_tombstone_gc :: bool

definition default_StoreAdapterConfig :: StoreAdapterConfig where
  "default_StoreAdapterConfig =
     \<lparr> sc_backend = [], sc_root_path = [], sc_num_threads = 0, sc_num_partitions = 64,
       sc_append_mode = True, sc_enable_compression = False, sc_zstd_compression_level = 0,
       sc_mem_budget_mb = 512, sc_disk_budget_gb = 20, sc_gc_high_watermark = 0.9,
       sc_gc_low_watermark = 0.75, sc_gc_batch_size = 256, sc_max_record_bytes = 131072,
       sc_enable_tombstone_gc = True \<rparr>"

definition ResolveThreadCount :: "nat \<Rightarrow> u16 \<Rightarrow> u16" where
  "ResolveThreadCount hardware_concurrency configured =
     (if 0 < configured then configured
      else if hardware_concurrency = 0 then 1
      else of_nat (min hardware_concurrency 65535))"

record 'k EloqStoreAdapter =
  el_started :: bool
  el_num_threads :: u16
  el_append_mode :: bool
  el_file_amplify_factor :: nat
  el_num_partitions :: u32
  el_store :: 'k
  el_root_path :: string
  el_key_size_bytes :: "(string, u64) umap"
  el_approx_mem_used_bytes :: u64
  el_approx_item_count :: u64
  el_compact_running :: bool
  el_compact_job_id :: u64

definition new_EloqStoreAdapter :: "'k el_env \<Rightarrow> StoreAdapterConfig \<Rightarrow> nat \<Rightarrow> 'k \<Rightarrow> 'k EloqStoreAdapter" where
  "new_EloqStoreAdapter E config file_amplify_factor store =
     \<lparr> el_started = False,
       el_num_threads = ResolveThreadCount (le_hardware_concurrency E) (sc_num_threads config),
       el_append_mode = sc_append_mode config, el_file_amplify_factor = file_amplify_factor,
       el_num_partitions = max 1 (sc_num_partitions config), el_store = store,
       el_root_path = sc_root_path config, el_key_size_bytes = [], el_approx_mem_used_bytes = 0,
       el_approx_item_count = 0, el_compact_running = False, el_compact_job_id = 0 \<rparr>"

definition ResolvePartitionId :: "'k el_env \<Rightarrow> u32 \<Rightarrow> string \<Rightarrow> string \<Rightarrow> u32" where
  "ResolvePartitionId E num_partitions name_space key =
     ucast (le_hash E (PartitionRoutingSeed name_space key) mod ucast num_partitions)"

text \<open>\<open>TableForPartition\<close> is the table name \<open>pgmem\<close> with the partition; the requests take the partition.\<close>

section \<open>Usage counters\<close>

definition OnUpsertCommitted :: "string \<Rightarrow> nat \<Rightarrow> 'k EloqStoreAdapter \<Rightarrow> 'k EloqStoreAdapter" where
  "OnUpsertCommitted full_key value_size s =
     (let next_size = of_nat value_size in
      case map_of (el_key_size_bytes s) full_key of
        None \<Rightarrow>
          s\<lparr> el_key_size_bytes := umap_put full_key next_size (el_key_size_bytes s),
             el_approx_item_count := el_approx_item_count s + 1,
             el_approx_mem_used_bytes := el_approx_mem_used_bytes s + next_size \<rparr>
      | Some prev_size \<Rightarrow>
          s\<lparr> el_key_size_bytes := umap_put full_key next_size (el_key_size_bytes s),
             el_approx_mem_used_bytes :=
               (if prev_size \<le> next_size then el_approx_mem_used_bytes s + (next_size - prev_size)
                else el_approx_mem_used_bytes s - (prev_size - next_size)) \<rparr>)"

definition OnDeleteCommitted :: "string \<Rightarrow> 'k EloqStoreAdapter \<Rightarrow> 'k EloqStoreAdapter" where
  "OnDeleteCommitted full_key s =
     (case map_of (el_key_size_bytes s) full_key of
        None \<Rightarrow> s
      | Some prev_size \<Rightarrow>
          s\<lparr> el_key_size_bytes := umap_erase full_key (el_key_size_bytes s),
             el_approx_item_count := el_approx_item_count s - 1,
             el_approx_mem_used_bytes := el_approx_mem_used_bytes s - prev_size \<rparr>)"

section \<open>Operations\<close>

abbreviation kv_error :: "'k el_env \<Rightarrow> KvError \<Rightarrow> StoreResult" where
  "kv_error E err \<equiv> \<lparr> sr_ok = False, sr_error = kv_ErrorString (le_kv E) err \<rparr>"

definition not_started :: string where
  "not_started = ''eloqstore is not started''"

definition el_Put :: "'k el_env \<Rightarrow> string \<Rightarrow> string \<Rightarrow> string \<Rightarrow> u64 \<Rightarrow> 'k EloqStoreAdapter \<Rightarrow>
    'k EloqStoreAdapter \<times> StoreResult" where
  "el_Put E name_space key val ts s =
     (if \<not> el_started s then (s, \<lparr> sr_ok = False, sr_error = not_started \<rparr>)
      else
        (let full_key = ComposeKey name_space key;
             pid = ResolvePartitionId E (el_num_partitions s) name_space key;
             (k, err) = kv_BatchWrite (le_kv E) pid
               [\<lparr> wd_key = full_key, wd_val = val, wd_ts = ts, wd_op = WUpsert \<rparr>] (el_store s);
             s = s\<lparr> el_store := k \<rparr>
         in if err \<noteq> KvNoError then (s, kv_error E err)
            else (OnUpsertCommitted full_key (length val) s, \<lparr> sr_ok = True, sr_error = [] \<rparr>)))"

definition el_Get :: "'k el_env \<Rightarrow> 'k EloqStoreAdapter \<Rightarrow> string \<Rightarrow> string \<Rightarrow> GetResult" where
  "el_Get E s name_space key =
     (if \<not> el_started s then \<lparr> gr_found = False, gr_value = [], gr_error = not_started \<rparr>
      else
        (let pid = ResolvePartitionId E (el_num_partitions s) name_space key;
             (err, val) = kv_Read (le_kv E) (el_store s) pid (ComposeKey name_space key)
         in if err = KvNotFound then \<lparr> gr_found = False, gr_value = [], gr_error = [] \<rparr>
            else if err \<noteq> KvNoError
            then \<lparr> gr_found = False, gr_value = [], gr_error = kv_ErrorString (le_kv E) err \<rparr>
            else \<lparr> gr_found = True, gr_value = val, gr_error = [] \<rparr>))"

definition el_Delete :: "'k el_env \<Rightarrow> string \<Rightarrow> string \<Rightarrow> u64 \<Rightarrow> 'k EloqStoreAdapter \<Rightarrow>
    'k EloqStoreAdapter \<times> StoreResult" where
  "el_Delete E name_space key ts s =
     (if \<not> el_started s then (s, \<lparr> sr_ok = False, sr_error = not_started \<rparr>)
      else
        (let full_key = ComposeKey name_space key;
             pid = ResolvePartitionId E (el_num_partitions s) name_space key;
             (k, err) = kv_BatchWrite (le_kv E) pid
               [\<lparr> wd_key = full_key, wd_val = [], wd_ts = ts, wd_op = WDelete \<rparr>] (el_store s);
             s = s\<lparr> el_store := k \<rparr>
         in if err \<noteq> KvNoError then (s, kv_error E err)
            else (OnDeleteCommitted full_key s, \<lparr> sr_ok = True, sr_error = [] \<rparr>)))"

text \<open>
  The partitions are scanned in turn.  An error ends the scan with what was collected so
  far, unsorted.  A limit makes every request a page of at most 1 MB.
\<close>

definition scan_entries :: "string \<Rightarrow> KvEntry list \<Rightarrow> KeyValueEntry list" where
  "scan_entries name_space entries =
     map (\<lambda>entry. \<lparr> kv_name_space = name_space, kv_key = drop (length (name_space @ '':'')) (ke_key entry),
            kv_value = ke_value entry, kv_ts = ke_timestamp entry \<rparr>)
       (filter (\<lambda>entry. prefix (name_space @ '':'') (ke_key entry)) entries)"

fun scan_partitions :: "'k el_env \<Rightarrow> 'k \<Rightarrow> string \<Rightarrow> string \<Rightarrow> string \<Rightarrow> u64 \<Rightarrow> nat list \<Rightarrow>
    KeyValueEntry list \<Rightarrow> KeyValueEntry list \<times> string option" where
  "scan_partitions E k name_space begin_key end_key limit [] out = (out, None)"
| "scan_partitions E k name_space begin_key end_key limit (pid # pids) out =
     (let (err, entries) = kv_Scan (le_kv E) k (of_nat pid) begin_key end_key
            (if 0 < limit then Some (limit, 1048576) else None) in
      if err \<noteq> KvNoError
      then (out, Some (''scan partition '' @ dec_string pid @ '' failed: '' @ kv_ErrorString (le_kv E) err))
      else scan_partitions E k name_space begin_key end_key limit pids (out @ scan_entries name_space entries))"

definition key_ts_less :: "KeyValueEntry \<Rightarrow> KeyValueEntry \<Rightarrow> bool" where
  "key_ts_less lhs rhs \<longleftrightarrow> (if kv_key lhs = kv_key rhs then kv_ts rhs < kv_ts lhs else kv_key lhs < kv_key rhs)"

definition dedup_keys :: "KeyValueEntry list \<Rightarrow> KeyValueEntry list" where
  "dedup_keys out =
     fold (\<lambda>entry deduped. if deduped = [] \<or> kv_key (last deduped) \<noteq> kv_key entry
                           then deduped @ [entry] else deduped) out []"

definition el_Scan :: "'k el_env \<Rightarrow> 'k EloqStoreAdapter \<Rightarrow> string \<Rightarrow> string \<Rightarrow> string \<Rightarrow> u64 \<Rightarrow>
    KeyValueEntry list \<times> string" where
  "el_Scan E s name_space begin_at end_at limit =
     (if \<not> el_started s then ([], not_started)
      else
        (let begin_key = ComposeKey name_space begin_at;
             end_key = (if end_at \<noteq> [] then ComposeKey name_space end_at else name_space @ '';'') in
         case scan_partitions E (el_store s) name_space begin_key end_key limit
                [0..<unat (el_num_partitions s)] [] of
           (out, Some err) \<Rightarrow> (out, err)
         | (out, None) \<Rightarrow>
             (let out = dedup_keys (sort_by key_ts_less out) in
              (if 0 < limit \<and> unat limit < length out then take (unat limit) out else out, []))))"

text \<open>
  \<open>batches[pid].insert_or_assign(full_key, entry)\<close>: within a partition the last write of a key
  stays, and the keys come in order.
\<close>

type_synonym kv_batches = "(u32, (string, WriteDataEntry) omap) omap"

definition write_data :: "WriteEntry \<Rightarrow> WriteDataEntry" where
  "write_data entry =
     \<lparr> wd_key = ComposeKey (kv_name_space (we_entry entry)) (kv_key (we_entry entry)),
       wd_val = (if we_op entry = WDelete then [] else kv_value (we_entry entry)),
       wd_ts = kv_ts (we_entry entry), wd_op = we_op entry \<rparr>"

definition add_to_batch :: "'k el_env \<Rightarrow> u32 \<Rightarrow> WriteEntry \<Rightarrow> kv_batches \<Rightarrow> kv_batches" where
  "add_to_batch E num_partitions entry batches =
     (let d = write_data entry;
          pid = ResolvePartitionId E num_partitions (kv_name_space (we_entry entry)) (kv_key (we_entry entry));
          batch = (case map_of batches pid of None \<Rightarrow> [] | Some b \<Rightarrow> b)
      in omap_put pid (omap_put (wd_key d) d batch) batches)"

definition committed_entry :: "WriteDataEntry \<Rightarrow> 'k EloqStoreAdapter \<Rightarrow> 'k EloqStoreAdapter" where
  "committed_entry d s =
     (if wd_op d = WDelete then OnDeleteCommitted (wd_key d) s
      else OnUpsertCommitted (wd_key d) (length (wd_val d)) s)"

fun write_batches :: "'k el_env \<Rightarrow> kv_batches \<Rightarrow> 'k \<Rightarrow> 'k \<times> string option" where
  "write_batches E [] k = (k, None)"
| "write_batches E ((pid, batch) # batches) k =
     (let (k, err) = kv_BatchWrite (le_kv E) pid (map snd batch) k in
      if err \<noteq> KvNoError
      then (k, Some (''batch write partition '' @ dec_string (unat pid) @ '' failed: '' @
                     kv_ErrorString (le_kv E) err))
      else write_batches E batches k)"

text \<open>The counters change only when every partition has taken its batch.\<close>

definition el_BatchWrite :: "'k el_env \<Rightarrow> WriteEntry list \<Rightarrow> 'k EloqStoreAdapter \<Rightarrow>
    'k EloqStoreAdapter \<times> StoreResult" where
  "el_BatchWrite E entries s =
     (if \<not> el_started s then (s, \<lparr> sr_ok = False, sr_error = not_started \<rparr>)
      else
        (let batches = fold (add_to_batch E (el_num_partitions s)) entries [];
             committed = concat (map (\<lambda>b. map snd (snd b)) batches)
         in case write_batches E batches (el_store s) of
              (k, Some err) \<Rightarrow> (s\<lparr> el_store := k \<rparr>, \<lparr> sr_ok = False, sr_error = err \<rparr>)
            | (k, None) \<Rightarrow>
                (fold committed_entry committed (s\<lparr> el_store := k \<rparr>), \<lparr> sr_ok = True, sr_error = [] \<rparr>)))"

definition el_ApproximateUsage :: "'k el_env \<Rightarrow> 'k EloqStoreAdapter \<Rightarrow> StoreUsage \<times> string" where
  "el_ApproximateUsage E s =
     (\<lparr> su_mem_used_bytes = el_approx_mem_used_bytes s, su_disk_used_bytes = fs_size E (el_store s),
        su_item_count = el_approx_item_count s \<rparr>, [])"

text \<open>
  \<open>TriggerStoreCompactAsync\<close> starts the worker thread; \<open>RunCompactWorker\<close> is the worker, a
  step of its own that may come at any later time.
\<close>

definition el_TriggerStoreCompactAsync :: "'k EloqStoreAdapter \<Rightarrow> 'k EloqStoreAdapter \<times> StoreCompactTriggerResult" where
  "el_TriggerStoreCompactAsync s =
     (let out = \<lparr> ct_triggered = False, ct_noop = False, ct_busy = False, ct_async = True,
                  ct_partition_count = 0, ct_message = [] \<rparr>
      in if \<not> el_started s then (s, out\<lparr> ct_noop := True, ct_message := not_started \<rparr>)
         else if \<not> el_append_mode s \<or> el_file_amplify_factor s = 0
         then (s, out\<lparr> ct_noop := True,
                 ct_message := ''eloqstore compact noop: append mode disabled or file amplify factor is zero'' \<rparr>)
         else if el_compact_running s
         then (s, out\<lparr> ct_busy := True, ct_message := ''eloqstore compact already running'' \<rparr>)
         else (s\<lparr> el_compact_running := True, el_compact_job_id := el_compact_job_id s + 1 \<rparr>,
               out\<lparr> ct_triggered := True, ct_partition_count := el_num_partitions s,
                    ct_message := ''eloqstore compact scheduled'' \<rparr>))"

fun compact_partitions :: "'k el_env \<Rightarrow> nat list \<Rightarrow> 'k \<times> nat \<times> nat \<Rightarrow> 'k \<times> nat \<times> nat" where
  "compact_partitions E [] r = r"
| "compact_partitions E (pid # pids) (k, succeeded, failed) =
     (let (k, err) = kv_Compact (le_kv E) (of_nat pid) k in
      compact_partitions E pids
        (if err \<noteq> KvNoError then (k, succeeded, failed + 1) else (k, succeeded + 1, failed)))"

definition RunCompactWorker :: "'k el_env \<Rightarrow> u32 \<Rightarrow> 'k EloqStoreAdapter \<Rightarrow> 'k EloqStoreAdapter" where
  "RunCompactWorker E partition_count s =
     s\<lparr> el_store := fst (compact_partitions E [0..<unat partition_count] (el_store s, 0, 0)),
        el_compact_running := False \<rparr>"

definition eloq_ops :: "'k el_env \<Rightarrow> 'k EloqStoreAdapter store_ops" where
  "eloq_ops E =
     \<lparr> so_Put = el_Put E, so_Get = el_Get E, so_Delete = el_Delete E, so_Scan = el_Scan E,
       so_BatchWrite = el_BatchWrite E, so_ApproximateUsage = el_ApproximateUsage E,
       so_TriggerStoreCompactAsync = el_TriggerStoreCompactAsync \<rparr>"

section \<open>The layout on disk\<close>

record LayoutMeta =
  lm_partition_count :: u32
  lm_routing_schema :: string

definition kRoutingSchema :: string where
  "kRoutingSchema = ''balanced_workspace_record''"

definition parse_layout_line :: "string \<Rightarrow> LayoutMeta \<Rightarrow> LayoutMeta" where
  "parse_layout_line line parsed =
     (if CHR ''='' \<notin> set line then parsed
      else
        (let key = before_first (CHR ''='') line; val = drop (Suc (length key)) line in
         if key = ''partition_count'' then
           (case std_stoul val of
              None \<Rightarrow> parsed
            | Some raw \<Rightarrow> if 4294967295 < raw then parsed else parsed\<lparr> lm_partition_count := ucast raw \<rparr>)
         else if key = ''routing_schema'' then parsed\<lparr> lm_routing_schema := val \<rparr>
         else parsed))"

definition LoadLayoutMeta :: "'k el_env \<Rightarrow> 'k \<Rightarrow> LayoutMeta option" where
  "LoadLayoutMeta E k =
     (case fs_read_meta E k of
        None \<Rightarrow> None
      | Some content \<Rightarrow>
          (let parsed = fold parse_layout_line (getlines content)
                 \<lparr> lm_partition_count = 0, lm_routing_schema = [] \<rparr>
           in if lm_partition_count parsed = 0 \<or> lm_routing_schema parsed = [] then None else Some parsed))"

definition layout_text :: "u32 \<Rightarrow> string" where
  "layout_text partition_count =
     ''partition_count='' @ dec_string (unat partition_count) @ [CHR 0x0A] @
     ''routing_schema='' @ kRoutingSchema @ [CHR 0x0A]"

definition PersistLayoutMeta :: "'k el_env \<Rightarrow> u32 \<Rightarrow> 'k \<Rightarrow> 'k \<times> string option" where
  "PersistLayoutMeta E partition_count k =
     (let (k, opened, flushed) = fs_write_meta E (layout_text partition_count) k in
      (k, if \<not> opened then Some ''failed to persist store layout metadata''
          else if \<not> flushed then Some ''failed to flush store layout metadata'' else None))"

definition partition_dir :: "u32 \<Rightarrow> string" where
  "partition_dir pid = ''pgmem.'' @ dec_string (unat pid)"

definition partition_of_dir :: "string \<Rightarrow> u32 option" where
  "partition_of_dir name =
     (if \<not> prefix ''pgmem.'' name \<or> length name \<le> 6 then None
      else
        (case std_stoul (drop 6 name) of
           None \<Rightarrow> None | Some raw \<Rightarrow> if 4294967295 < raw then None else Some (ucast raw)))"

definition DetectExistingPartitions :: "'k el_env \<Rightarrow> 'k EloqStoreAdapter \<Rightarrow> u32 list" where
  "DetectExistingPartitions E s =
     (if el_root_path s = [] then []
      else sort (remdups (List.map_filter partition_of_dir (fs_dirs E (el_store s)))))"

section \<open>Moving entries to their partitions\<close>

definition kNamespaces :: "string list" where
  "kNamespaces = [''mem_docs'', ''mem_term_dict'', ''mem_posting_blk'', ''mem_vec_code'', ''mem_vec_fp'',
     ''mem_route_meta'', ''ds_events'', ''ds_projection_ckpt'']"

definition target_of :: "'k el_env \<Rightarrow> u32 \<Rightarrow> string \<Rightarrow> KvEntry \<Rightarrow> u32" where
  "target_of E num_partitions name_space entry =
     ResolvePartitionId E num_partitions name_space (drop (length (name_space @ '':'')) (ke_key entry))"

definition move_of :: "WriteOp \<Rightarrow> KvEntry \<Rightarrow> WriteDataEntry" where
  "move_of op entry =
     \<lparr> wd_key = ke_key entry, wd_val = (if op = WDelete then [] else ke_value entry),
       wd_ts = ke_timestamp entry, wd_op = op \<rparr>"

definition add_move :: "'k el_env \<Rightarrow> u32 \<Rightarrow> string \<Rightarrow> KvEntry \<Rightarrow> (u32, WriteDataEntry list) omap \<Rightarrow>
    (u32, WriteDataEntry list) omap" where
  "add_move E num_partitions name_space entry upserts =
     (let target_pid = target_of E num_partitions name_space entry;
          batch = (case map_of upserts target_pid of None \<Rightarrow> [] | Some b \<Rightarrow> b)
      in omap_put target_pid (batch @ [move_of WUpsert entry]) upserts)"

definition refresh_error :: "'k el_env \<Rightarrow> string \<Rightarrow> u32 \<Rightarrow> string \<Rightarrow> KvError \<Rightarrow> string" where
  "refresh_error E what pid name_space err =
     ''layout refresh '' @ what @ '' failed on partition '' @ dec_string (unat pid) @ '' namespace '' @
     name_space @ '': '' @ kv_ErrorString (le_kv E) err"

fun write_moves :: "'k el_env \<Rightarrow> string \<Rightarrow> (u32, WriteDataEntry list) omap \<Rightarrow> 'k \<Rightarrow> 'k \<times> string option" where
  "write_moves E name_space [] k = (k, None)"
| "write_moves E name_space ((target_pid, batch) # upserts) k =
     (let (k, err) = kv_BatchWrite (le_kv E) target_pid batch k in
      if err \<noteq> KvNoError then (k, Some (refresh_error E ''write'' target_pid name_space err))
      else write_moves E name_space upserts k)"

definition rehash_namespace :: "'k el_env \<Rightarrow> u32 \<Rightarrow> u32 \<Rightarrow> string \<Rightarrow> 'k \<Rightarrow> 'k \<times> string option" where
  "rehash_namespace E num_partitions source_pid name_space k =
     (let (err, entries) = kv_Scan (le_kv E) k source_pid (name_space @ '':'') (name_space @ '';'') None in
      if err = KvNotFound then (k, None)
      else if err \<noteq> KvNoError then (k, Some (refresh_error E ''scan'' source_pid name_space err))
      else
        (let moved = filter (\<lambda>entry. prefix (name_space @ '':'') (ke_key entry) \<and>
                       target_of E num_partitions name_space entry \<noteq> source_pid) entries;
             upserts = fold (add_move E num_partitions name_space) moved [];
             deletes = map (move_of WDelete) moved
         in case write_moves E name_space upserts k of
              (k, Some e) \<Rightarrow> (k, Some e)
            | (k, None) \<Rightarrow>
                if deletes = [] then (k, None)
                else
                  (let (k, err) = kv_BatchWrite (le_kv E) source_pid deletes k in
                   (k, if err \<noteq> KvNoError then Some (refresh_error E ''delete'' source_pid name_space err)
                       else None))))"

fun rehash_loop :: "'k el_env \<Rightarrow> u32 \<Rightarrow> (u32 \<times> string) list \<Rightarrow> 'k \<Rightarrow> 'k \<times> string option" where
  "rehash_loop E num_partitions [] k = (k, None)"
| "rehash_loop E num_partitions ((source_pid, name_space) # work) k =
     (case rehash_namespace E num_partitions source_pid name_space k of
        (k, Some e) \<Rightarrow> (k, Some e)
      | (k, None) \<Rightarrow> rehash_loop E num_partitions work k)"

text \<open>Both clean-ups look only at directories that exist; removing an empty one is a special case.\<close>

definition CleanupOutdatedPartitionDirs :: "'k el_env \<Rightarrow> u32 \<Rightarrow> u32 list \<Rightarrow> 'k \<Rightarrow> 'k" where
  "CleanupOutdatedPartitionDirs E num_partitions partitions k =
     fold (\<lambda>pid k. if pid < num_partitions \<or> partition_dir pid \<notin> set (fs_dirs E k) then k
                   else fs_remove_all E (partition_dir pid) k) partitions k"

definition CleanupEmptyPartitionDirs :: "'k el_env \<Rightarrow> u32 list \<Rightarrow> 'k \<Rightarrow> 'k" where
  "CleanupEmptyPartitionDirs E partitions k =
     fold (\<lambda>pid k. if partition_dir pid \<notin> set (fs_dirs E k) \<or> \<not> fs_is_empty E k (partition_dir pid) then k
                   else fs_remove_all E (partition_dir pid) k) partitions k"

definition RehashStoredEntries :: "'k el_env \<Rightarrow> u32 \<Rightarrow> u32 list \<Rightarrow> 'k \<Rightarrow> 'k \<times> string option" where
  "RehashStoredEntries E num_partitions existing_partitions k =
     (if existing_partitions = [] then (k, None)
      else
        (case rehash_loop E num_partitions (List.product existing_partitions kNamespaces) k of
           (k, Some e) \<Rightarrow> (k, Some e)
         | (k, None) \<Rightarrow>
             (CleanupEmptyPartitionDirs E existing_partitions
                (CleanupOutdatedPartitionDirs E num_partitions existing_partitions k), None)))"

definition needs_rehash :: "u32 \<Rightarrow> LayoutMeta option \<Rightarrow> u32 list \<Rightarrow> bool" where
  "needs_rehash num_partitions meta existing_partitions \<longleftrightarrow>
     (case meta of
        Some m \<Rightarrow> lm_partition_count m \<noteq> num_partitions \<or> lm_routing_schema m \<noteq> kRoutingSchema
      | None \<Rightarrow> existing_partitions \<noteq> []) \<or>
     existing_partitions \<noteq> [] \<and> num_partitions \<le> last existing_partitions"

definition RefreshLayoutOnStartup :: "'k el_env \<Rightarrow> 'k EloqStoreAdapter \<Rightarrow> 'k EloqStoreAdapter \<times> string option" where
  "RefreshLayoutOnStartup E s =
     (let existing_partitions = DetectExistingPartitions E s;
          meta = LoadLayoutMeta E (el_store s);
          (k, err) = (if needs_rehash (el_num_partitions s) meta existing_partitions
                      then RehashStoredEntries E (el_num_partitions s) existing_partitions (el_store s)
                      else (el_store s, None))
      in case err of
           Some e \<Rightarrow> (s\<lparr> el_store := k \<rparr>, Some e)
         | None \<Rightarrow>
             (let (k, e) = PersistLayoutMeta E (el_num_partitions s) k in (s\<lparr> el_store := k \<rparr>, e)))"

section \<open>Starting\<close>

definition el_Start :: "'k el_env \<Rightarrow> 'k EloqStoreAdapter \<Rightarrow> 'k EloqStoreAdapter \<times> string option" where
  "el_Start E s =
     (let (k, err) = kv_Start (le_kv E) (fs_remove_legacy_marker E (el_store s)); s = s\<lparr> el_store := k \<rparr> in
      if err \<noteq> KvNoError then (s, Some (kv_ErrorString (le_kv E) err))
      else
        (case RefreshLayoutOnStartup E (s\<lparr> el_started := True \<rparr>) of
           (s, Some e) \<Rightarrow> (s\<lparr> el_started := False, el_store := kv_Stop (le_kv E) (el_store s) \<rparr>, Some e)
         | (s, None) \<Rightarrow> (s, None)))"

definition CreateEloqStoreAdapter :: "'k el_env \<Rightarrow> StoreAdapterConfig \<Rightarrow> nat \<Rightarrow> 'k \<Rightarrow>
    string + 'k EloqStoreAdapter" where
  "CreateEloqStoreAdapter E config file_amplify_factor store =
     (case el_Start E (new_EloqStoreAdapter E config file_amplify_factor store) of
        (s, Some e) \<Rightarrow> Inl e | (s, None) \<Rightarrow> Inr s)"

end
