(* ===== verification/Eloq_Laws.thy ===== *)
theory Eloq_Laws
  imports Eloq_Store Records
begin

text \<open>
  What the EloqStore adapter promises.  \<open>kv_laws\<close> is the documented behaviour of the store
  that the adapter relies on, over an abstract table for each partition: what a write, a
  read and a scan that report success have done, that a failed write concerns at most its
  own keys, that compaction, starting and the layout file leave the tables alone, and that
  the directory of a partition holds its table.  Inside it the adapter is
  shown to keep the contract of \<open>IStoreAdapter\<close> for name spaces without a colon, with the
  entries of one key always in one partition; the layout refresh is shown to put them there.
\<close>

section \<open>Strings and routing\<close>

definition plain_ns :: "string \<Rightarrow> bool" where
  "plain_ns ns \<longleftrightarrow> CHR '':'' \<notin> set ns"

lemma ComposeKey_iff:
  assumes "plain_ns ns" "plain_ns ns'"
  shows "ComposeKey ns key = ComposeKey ns' key' \<longleftrightarrow> ns = ns' \<and> key = key'"
  using RecordMapKey_iff [of ns ns' key key'] assms
  by (simp add: ComposeKey_def RecordMapKey_def plain_ns_def)

lemma ComposeKey_same [simp]: "ComposeKey ns key = ComposeKey ns key' \<longleftrightarrow> key = key'"
  by (simp add: ComposeKey_def)

lemma ComposeKey_less [simp]: "ComposeKey ns a < ComposeKey ns b \<longleftrightarrow> a < b"
  by (simp add: ComposeKey_def append_less_same [of "ns @ '':''", simplified])

lemma ComposeKey_le [simp]: "ComposeKey ns a \<le> ComposeKey ns b \<longleftrightarrow> a \<le> b"
  by (simp add: linorder_not_less [symmetric])

lemma ComposeKey_sentinel [simp]: "ComposeKey ns a < ns @ '';''"
proof -
  have "ns @ ('':'' @ a) < ns @ '';''" unfolding append_less_same by (simp add: less_char_def)
  then show ?thesis by (simp add: ComposeKey_def)
qed

lemma ComposeKey_start [simp]: "ns @ '':'' \<le> ComposeKey ns a"
  using ComposeKey_le [of ns "[]" a] by (simp add: ComposeKey_def)

lemma prefix_ComposeKey: "prefix (ns @ '':'') x \<longleftrightarrow> (\<exists>a. x = ComposeKey ns a)"
  by (simp add: prefix_def ComposeKey_def)

lemma drop_ComposeKey [simp]: "drop (length (ns @ '':'')) (ComposeKey ns a) = a"
  by (simp add: ComposeKey_def)

lemma unat_ResolvePartitionId:
  assumes "0 < np"
  shows "unat (ResolvePartitionId E np ns key) = unat (le_hash E (PartitionRoutingSeed ns key)) mod unat np"
proof -
  have "unat np < 2 ^ LENGTH(32)" by (rule unsigned_less)
  then have "unat np < 2 ^ 32" "unat np < 2 ^ 64" by simp_all
  then have up: "unat (ucast np :: u64) = unat np" by (simp add: unsigned_ucast_eq take_bit_nat_eq_self)
  have "unat (le_hash E (PartitionRoutingSeed ns key)) mod unat np < unat np"
    using assms by (simp add: word_gt_0 unat_gt_0)
  with \<open>unat np < 2 ^ 32\<close> show ?thesis
    by (simp add: ResolvePartitionId_def unsigned_ucast_eq unat_mod_distrib up take_bit_nat_eq_self)
qed

lemma ResolvePartitionId_less: "0 < np \<Longrightarrow> unat (ResolvePartitionId E np ns key) < unat np"
  by (simp add: unat_ResolvePartitionId word_gt_0 unat_gt_0)

section \<open>The contract of the store underneath\<close>

type_synonym kv_row = "string \<Rightarrow> (string \<times> u64) option"

definition data_result :: "WriteDataEntry \<Rightarrow> (string \<times> u64) option" where
  "data_result d = (if wd_op d = WDelete then None else Some (wd_val d, wd_ts d))"

definition data_apply :: "WriteDataEntry \<Rightarrow> kv_row \<Rightarrow> kv_row" where
  "data_apply d t = t(wd_key d := data_result d)"

definition kv_entry_of :: "string \<Rightarrow> string \<times> u64 \<Rightarrow> KvEntry" where
  "kv_entry_of key x = \<lparr> ke_key = key, ke_value = fst x, ke_timestamp = snd x \<rparr>"

definition scan_of :: "kv_row \<Rightarrow> string \<Rightarrow> string \<Rightarrow> KvEntry list \<Rightarrow> bool" where
  "scan_of t b e es \<longleftrightarrow>
     sorted_wrt (<) (map ke_key es) \<and>
     set es = {kv_entry_of key x |key x. t key = Some x \<and> b \<le> key \<and> key < e}"

locale kv_laws =
  fixes E :: "'k el_env"
    and kinv :: "'k \<Rightarrow> bool"
    and table :: "'k \<Rightarrow> u32 \<Rightarrow> kv_row"
  assumes write_inv: "kinv k \<Longrightarrow> kinv (fst (kv_BatchWrite (le_kv E) pid ws k))"
    and write_table: "kinv k \<Longrightarrow> sorted_wrt (<) (map wd_key ws) \<Longrightarrow>
      kv_BatchWrite (le_kv E) pid ws k = (k', KvNoError) \<Longrightarrow>
      table k' = (table k)(pid := fold data_apply ws (table k pid))"
    and write_frame: "kinv k \<Longrightarrow> pid' \<noteq> pid \<or> key \<notin> wd_key ` set ws \<Longrightarrow>
      table (fst (kv_BatchWrite (le_kv E) pid ws k)) pid' key = table k pid' key"
    and read_found: "kinv k \<Longrightarrow> kv_Read (le_kv E) k pid key = (KvNoError, v) \<Longrightarrow>
      \<exists>ts. table k pid key = Some (v, ts)"
    and read_missing: "kinv k \<Longrightarrow> kv_Read (le_kv E) k pid key = (KvNotFound, v) \<Longrightarrow> table k pid key = None"
    and scan_table: "kinv k \<Longrightarrow> kv_Scan (le_kv E) k pid b e None = (KvNoError, es) \<Longrightarrow> scan_of (table k pid) b e es"
    and scan_missing: "kinv k \<Longrightarrow> kv_Scan (le_kv E) k pid b e None = (KvNotFound, es) \<Longrightarrow> scan_of (table k pid) b e []"
    and error_text: "err \<noteq> KvNoError \<Longrightarrow> kv_ErrorString (le_kv E) err \<noteq> []"
    and remove_dir: "kinv k \<Longrightarrow> kinv (fs_remove_all E (partition_dir pid) k) \<and>
      table (fs_remove_all E (partition_dir pid) k) = (table k)(pid := Map.empty)"
    and empty_dir: "kinv k \<Longrightarrow> fs_is_empty E k (partition_dir pid) \<Longrightarrow> table k pid = Map.empty"
    and dirs: "kinv k \<Longrightarrow> table k pid \<noteq> Map.empty \<Longrightarrow> partition_dir pid \<in> set (fs_dirs E k)"
    and meta: "kinv k \<Longrightarrow> kinv (fst (fs_write_meta E x k)) \<and> table (fst (fs_write_meta E x k)) = table k"
    and legacy: "kinv k \<Longrightarrow> kinv (fs_remove_legacy_marker E k) \<and> table (fs_remove_legacy_marker E k) = table k"
    and start: "kinv k \<Longrightarrow> kinv (fst (kv_Start (le_kv E) k)) \<and> table (fst (kv_Start (le_kv E) k)) = table k"
    and compact: "kinv k \<Longrightarrow> kinv (fst (kv_Compact (le_kv E) pid k)) \<and> table (fst (kv_Compact (le_kv E) pid k)) = table k"

section \<open>Batches\<close>

lemma fold_data_apply:
  "umap_ok m \<Longrightarrow> \<forall>p \<in> set m. wd_key (snd p) = fst p \<Longrightarrow>
   fold data_apply (map snd m) t key = (case map_of m key of None \<Rightarrow> t key | Some d \<Rightarrow> data_result d)"
proof (induction m arbitrary: t)
  case (Cons p m)
  then have "map_of m (fst p) = None" by (simp add: map_of_eq_None_iff)
  with Cons show ?case by (cases p) (auto simp: data_apply_def split: option.split)
qed simp

definition batches_ok :: "kv_batches \<Rightarrow> bool" where
  "batches_ok bs \<longleftrightarrow> omap_ok bs \<and>
     (\<forall>b \<in> snd ` set bs. omap_ok b \<and> (\<forall>p \<in> set b. wd_key (snd p) = fst p))"

definition pending :: "kv_batches \<Rightarrow> u32 \<Rightarrow> string \<Rightarrow> WriteDataEntry option" where
  "pending bs pid key = Option.bind (map_of bs pid) (\<lambda>b. map_of b key)"

lemma pending_Nil [simp]: "pending [] pid key = None"
  by (simp add: pending_def)

lemma set_omap_put_sub: "p \<in> set (omap_put k v m) \<Longrightarrow> p = (k, v) \<or> p \<in> set m"
  by (induction m) (auto split: if_splits)

abbreviation entry_pid :: "'k el_env \<Rightarrow> u32 \<Rightarrow> WriteEntry \<Rightarrow> u32" where
  "entry_pid E np w \<equiv> ResolvePartitionId E np (kv_name_space (we_entry w)) (kv_key (we_entry w))"

abbreviation entry_key :: "WriteEntry \<Rightarrow> string" where
  "entry_key w \<equiv> ComposeKey (kv_name_space (we_entry w)) (kv_key (we_entry w))"

lemma write_data_key [simp]: "wd_key (write_data w) = entry_key w"
  by (simp add: write_data_def)

lemma add_to_batch_ok:
  assumes "batches_ok bs" shows "batches_ok (add_to_batch E np w bs)"
proof -
  define b where "b = (case map_of bs (entry_pid E np w) of None \<Rightarrow> [] | Some b \<Rightarrow> b)"
  have "b = [] \<or> b \<in> snd ` set bs"
    unfolding b_def by (auto split: option.split dest!: map_of_SomeD) (metis image_eqI snd_conv)
  with assms have b: "omap_ok b" "\<forall>p \<in> set b. wd_key (snd p) = fst p" by (auto simp: batches_ok_def)
  let ?b' = "omap_put (entry_key w) (write_data w) b"
  have "\<forall>p \<in> set ?b'. wd_key (snd p) = fst p" using b(2) by (auto dest!: set_omap_put_sub)
  moreover have "omap_ok ?b'" using b(1) by simp
  ultimately have "\<forall>c \<in> snd ` set (omap_put (entry_pid E np w) ?b' bs). omap_ok c \<and> (\<forall>p \<in> set c. wd_key (snd p) = fst p)"
    using assms by (auto simp: batches_ok_def dest!: set_omap_put_sub)
  with assms show ?thesis
    by (simp add: batches_ok_def add_to_batch_def b_def [symmetric])
qed

lemma pending_add:
  "pending (add_to_batch E np w bs) pid key =
     (if pid = entry_pid E np w \<and> key = entry_key w then Some (write_data w) else pending bs pid key)"
  by (auto simp: pending_def add_to_batch_def umap_simps Let_def split: option.split)

lemma batches_ok_fold: "batches_ok bs \<Longrightarrow> batches_ok (fold (add_to_batch E np) ws bs)"
  by (induction ws arbitrary: bs) (simp_all add: add_to_batch_ok)

lemma pending_fold_keys:
  "pending (fold (add_to_batch E np) ws bs) pid key \<noteq> None \<Longrightarrow>
   pending bs pid key \<noteq> None \<or> (\<exists>w \<in> set ws. pid = entry_pid E np w \<and> key = entry_key w)"
proof (induction ws arbitrary: bs)
  case (Cons w ws)
  from Cons.IH [of "add_to_batch E np w bs"] Cons.prems
  have "pending (add_to_batch E np w bs) pid key \<noteq> None \<or> (\<exists>w \<in> set ws. pid = entry_pid E np w \<and> key = entry_key w)"
    by simp
  then show ?case unfolding pending_add by (auto split: if_splits)
qed simp

section \<open>The view of the adapter\<close>

definition view_of :: "'k el_env \<Rightarrow> u32 \<Rightarrow> (u32 \<Rightarrow> kv_row) \<Rightarrow> store_view" where
  "view_of E np t ns key =
     (if plain_ns ns then t (ResolvePartitionId E np ns key) (ComposeKey ns key) else None)"

definition after_batches :: "kv_batches \<Rightarrow> (u32 \<Rightarrow> kv_row) \<Rightarrow> u32 \<Rightarrow> kv_row" where
  "after_batches bs t pid key = (case pending bs pid key of None \<Rightarrow> t pid key | Some d \<Rightarrow> data_result d)"

lemma view_after_add:
  assumes "plain_ns (kv_name_space (we_entry w))"
  shows "view_of E np (after_batches (add_to_batch E np w bs) t) = view_apply w (view_of E np (after_batches bs t))"
proof (intro ext)
  fix ns key
  show "view_of E np (after_batches (add_to_batch E np w bs) t) ns key =
      view_apply w (view_of E np (after_batches bs t)) ns key"
    using assms ComposeKey_iff [of ns "kv_name_space (we_entry w)" key "kv_key (we_entry w)"]
    by (cases "we_op w")
      (auto simp: view_of_def after_batches_def pending_add view_apply_def view_put_def view_delete_def
        write_data_def data_result_def)
qed

lemma view_after_fold:
  "list_all (\<lambda>w. plain_ns (kv_name_space (we_entry w))) ws \<Longrightarrow>
   view_of E np (after_batches (fold (add_to_batch E np) ws bs) t) =
   fold view_apply ws (view_of E np (after_batches bs t))"
  by (induction ws arbitrary: bs) (simp_all add: view_after_add)

lemma after_no_batches [simp]: "after_batches [] t = t"
  by (simp add: fun_eq_iff after_batches_def)

text \<open>Every entry of a plain name space is in the partition where a read looks for it.\<close>

definition placed :: "'k el_env \<Rightarrow> u32 \<Rightarrow> (u32 \<Rightarrow> kv_row) \<Rightarrow> bool" where
  "placed E np t \<longleftrightarrow>
     (\<forall>pid ns key. plain_ns ns \<and> t pid (ComposeKey ns key) \<noteq> None \<longrightarrow> pid = ResolvePartitionId E np ns key)"

lemma placedD:
  "placed E np t \<Longrightarrow> plain_ns ns \<Longrightarrow> t pid (ComposeKey ns key) = Some x \<Longrightarrow> pid = ResolvePartitionId E np ns key"
  by (auto simp: placed_def)

text \<open>A change that concerns the keys of plain writes at their partitions keeps the placement.\<close>

lemma placed_change:
  assumes "placed E np t" and "list_all (\<lambda>w. plain_ns (kv_name_space (we_entry w))) ws"
    and "\<And>pid key. \<not> (\<exists>w \<in> set ws. pid = entry_pid E np w \<and> key = entry_key w) \<Longrightarrow> t' pid key = t pid key"
  shows "placed E np t'"
  unfolding placed_def
proof (intro allI impI, elim conjE)
  fix pid ns key
  assume ns: "plain_ns ns" and t': "t' pid (ComposeKey ns key) \<noteq> None"
  show "pid = ResolvePartitionId E np ns key"
  proof (cases "\<exists>w \<in> set ws. pid = entry_pid E np w \<and> ComposeKey ns key = entry_key w")
    case True
    then obtain w where w: "w \<in> set ws" "pid = entry_pid E np w" "ComposeKey ns key = entry_key w" by blast
    with assms(2) have "plain_ns (kv_name_space (we_entry w))" by (simp add: list_all_iff)
    with w(2,3) show ?thesis using ComposeKey_iff [OF ns] by simp
  next
    case False
    with assms(3) t' have "t pid (ComposeKey ns key) \<noteq> None" by metis
    with assms(1) ns show ?thesis by (auto simp: placed_def)
  qed
qed

context kv_laws begin

lemma write_batches_frame:
  assumes "batches_ok bs" "kinv k"
  shows "kinv (fst (write_batches E bs k)) \<and>
    (pending bs pid key = None \<longrightarrow> table (fst (write_batches E bs k)) pid key = table k pid key)"
  using assms
proof (induction bs arbitrary: k)
  case (Cons p bs)
  obtain pid0 b where p: "p = (pid0, b)" by (cases p)
  obtain k1 err where w: "kv_BatchWrite (le_kv E) pid0 (map snd b) k = (k1, err)" by fastforce
  have k1: "kinv k1" using write_inv [OF Cons.prems(2), of pid0 "map snd b"] w by simp
  have keys: "wd_key ` set (map snd b) = fst ` set b"
    using Cons.prems(1) by (force simp: batches_ok_def p image_image)
  have bs: "batches_ok bs" using Cons.prems(1) by (simp add: batches_ok_def p)
  have pid0: "map_of bs pid0 = None"
    using Cons.prems(1) by (force simp: batches_ok_def p map_of_eq_None_iff)
  have same: "table k1 pid key = table k pid key" if "pending (p # bs) pid key = None"
  proof -
    have "pid \<noteq> pid0 \<or> key \<notin> wd_key ` set (map snd b)"
    proof (cases "pid = pid0")
      case True
      with that have "map_of b key = None" by (simp add: pending_def p)
      then show ?thesis unfolding keys by (simp add: map_of_eq_None_iff)
    qed simp
    from write_frame [OF Cons.prems(2) this] w show ?thesis by simp
  qed
  have "pending bs pid key = None" if "pending (p # bs) pid key = None"
    using that pid0 by (auto simp: pending_def p split: if_splits)
  with Cons.IH [OF bs k1] k1 same show ?case by (simp add: p w Let_def)
qed simp

lemma write_batches_table:
  assumes "batches_ok bs" "kinv k" "write_batches E bs k = (k', None)"
  shows "table k' = after_batches bs (table k)"
proof (intro ext)
  fix pid key
  show "table k' pid key = after_batches bs (table k) pid key"
    using assms
  proof (induction bs arbitrary: k)
    case (Cons p bs)
    obtain pid0 b where p: "p = (pid0, b)" by (cases p)
    obtain k1 err where w: "kv_BatchWrite (le_kv E) pid0 (map snd b) k = (k1, err)" by fastforce
    with Cons.prems(3) have e: "err = KvNoError" and rest: "write_batches E bs k1 = (k', None)"
      by (auto simp: p split: if_splits)
    have k1: "kinv k1" using write_inv [OF Cons.prems(2), of pid0 "map snd b"] w by simp
    have b: "omap_ok b" "\<forall>p \<in> set b. wd_key (snd p) = fst p" using Cons.prems(1) by (auto simp: batches_ok_def p)
    then have "map wd_key (map snd b) = map fst b" by simp
    then have t: "table k1 = (table k)(pid0 := fold data_apply (map snd b) (table k pid0))"
      using write_table [OF Cons.prems(2)] b(1) w e by metis
    have bs: "batches_ok bs" using Cons.prems(1) by (simp add: batches_ok_def p)
    have pid0: "map_of bs pid0 = None"
      using Cons.prems(1) by (force simp: batches_ok_def p map_of_eq_None_iff)
    from Cons.IH [OF bs k1 rest] pid0 show ?case
      by (auto simp: after_batches_def pending_def p t fold_data_apply [OF omap_ok_distinct [OF b(1)] b(2)]
          split: option.split)
  qed simp
qed

subsection \<open>One write\<close>

lemma one_write_table:
  assumes "kinv k" "kv_BatchWrite (le_kv E) pid [d] k = (k', KvNoError)"
  shows "table k' = (table k)(pid := data_apply d (table k pid))"
  using write_table [OF assms(1) _ assms(2)] by simp

lemma one_write_view:
  assumes "kinv k" "plain_ns (kv_name_space (we_entry w))"
    "kv_BatchWrite (le_kv E) (entry_pid E np w) [write_data w] k = (k', KvNoError)"
  shows "view_of E np (table k') = view_apply w (view_of E np (table k))"
proof -
  have "table k' = after_batches (add_to_batch E np w []) (table k)"
    using one_write_table [OF assms(1,3)]
    by (auto simp: fun_eq_iff after_batches_def pending_add data_apply_def)
  then show ?thesis using view_after_add [OF assms(2), of E np "[]" "table k"] by simp
qed

lemma one_write_placed:
  assumes "kinv k" "plain_ns (kv_name_space (we_entry w))" "placed E np (table k)"
  shows "placed E np (table (fst (kv_BatchWrite (le_kv E) (entry_pid E np w) [write_data w] k)))"
  by (rule placed_change [OF assms(3), of "[w]"])
    (use assms(2) in \<open>auto intro!: write_frame [OF assms(1)]\<close>)

lemma batch_placed:
  assumes "kinv k" "list_all (\<lambda>w. plain_ns (kv_name_space (we_entry w))) ws" "placed E np (table k)"
  shows "placed E np (table (fst (write_batches E (fold (add_to_batch E np) ws []) k)))"
proof (rule placed_change [OF assms(3,2)])
  fix pid key
  assume "\<not> (\<exists>w \<in> set ws. pid = entry_pid E np w \<and> key = entry_key w)"
  then have "pending (fold (add_to_batch E np) ws []) pid key = None"
    using pending_fold_keys [of E np ws "[]" pid key] by (metis pending_Nil)
  moreover have "batches_ok (fold (add_to_batch E np) ws [])"
    by (rule batches_ok_fold) (simp add: batches_ok_def)
  ultimately show "table (fst (write_batches E (fold (add_to_batch E np) ws []) k)) pid key = table k pid key"
    using write_batches_frame [OF _ assms(1)] by blast
qed

end

section \<open>Scans\<close>

lemma set_scan_entries:
  assumes "scan_of t b e es"
  shows "set (scan_entries ns es) =
    {\<lparr> kv_name_space = ns, kv_key = key, kv_value = val, kv_ts = ts \<rparr> |key val ts.
       t (ComposeKey ns key) = Some (val, ts) \<and> b \<le> ComposeKey ns key \<and> ComposeKey ns key < e}"
    (is "?L = ?R")
proof (intro set_eqI iffI)
  fix y
  assume "y \<in> ?L"
  then obtain en where en: "en \<in> set es" "prefix (ns @ '':'') (ke_key en)"
    and y: "y = \<lparr> kv_name_space = ns, kv_key = drop (length (ns @ '':'')) (ke_key en), kv_value = ke_value en,
                 kv_ts = ke_timestamp en \<rparr>"
    by (auto simp: scan_entries_def)
  from en(2) obtain key where "ke_key en = ComposeKey ns key" by (auto simp: prefix_ComposeKey)
  moreover from en(1) assms obtain x where "t (ke_key en) = Some x" "en = kv_entry_of (ke_key en) x"
      "b \<le> ke_key en" "ke_key en < e"
    by (auto simp: scan_of_def kv_entry_of_def)
  ultimately show "y \<in> ?R" unfolding y by (cases x) (auto simp: kv_entry_of_def ComposeKey_def)
next
  fix y
  assume "y \<in> ?R"
  then obtain key val ts where y: "y = \<lparr> kv_name_space = ns, kv_key = key, kv_value = val, kv_ts = ts \<rparr>"
    and t: "t (ComposeKey ns key) = Some (val, ts)" "b \<le> ComposeKey ns key" "ComposeKey ns key < e"
    by auto
  then have "kv_entry_of (ComposeKey ns key) (val, ts) \<in> set es" using assms by (auto simp: scan_of_def)
  then show "y \<in> ?L"
    by (force simp: scan_entries_def y kv_entry_of_def prefix_ComposeKey image_iff ComposeKey_def)
qed

lemma distinct_scan_entries:
  assumes "scan_of t b e es"
  shows "distinct (map kv_key (scan_entries ns es))"
proof -
  let ?es = "filter (\<lambda>en. prefix (ns @ '':'') (ke_key en)) es"
  have "distinct (map ke_key es)" using assms by (simp add: scan_of_def strict_sorted_iff)
  then have "distinct (map ke_key ?es)" by (simp add: distinct_map_filter)
  moreover have "inj_on (drop (length (ns @ '':''))) (set (map ke_key ?es))"
    by (rule inj_onI) (auto simp: prefix_def)
  ultimately have "distinct (map (drop (length (ns @ '':''))) (map ke_key ?es))"
    unfolding distinct_map [of "drop (length (ns @ '':''))"] by blast
  then show ?thesis by (simp add: scan_entries_def o_def)
qed

context kv_laws begin

lemma scan_partitions_ok:
  assumes "kinv k" "placed E np (table k)" "plain_ns ns"
    and "scan_partitions E k ns b e 0 pids out = (out', None)"
    and "distinct (map (of_nat :: nat \<Rightarrow> u32) pids)" "distinct (map kv_key out)"
    and "\<forall>y \<in> set out. ResolvePartitionId E np ns (kv_key y) \<notin> of_nat ` set pids"
  shows "distinct (map kv_key out') \<and>
    set out' = set out \<union> {\<lparr> kv_name_space = ns, kv_key = key, kv_value = val, kv_ts = ts \<rparr> |key val ts pid.
      pid \<in> of_nat ` set pids \<and> table k pid (ComposeKey ns key) = Some (val, ts) \<and>
      b \<le> ComposeKey ns key \<and> ComposeKey ns key < e}"
  using assms(4-7)
proof (induction pids arbitrary: out)
  case (Cons pid pids)
  obtain err es where sc: "kv_Scan (le_kv E) k (of_nat pid) b e None = (err, es)" by fastforce
  with Cons.prems(1) have err: "err = KvNoError"
    and rest: "scan_partitions E k ns b e 0 pids (out @ scan_entries ns es) = (out', None)"
    by (auto split: if_splits)
  have so: "scan_of (table k (of_nat pid)) b e es" using scan_table [OF assms(1)] sc err by simp
  note set_es = set_scan_entries [OF so, of ns]
  have at: "ResolvePartitionId E np ns (kv_key y) = of_nat pid" if "y \<in> set (scan_entries ns es)" for y
    using that placedD [OF assms(2,3)] unfolding set_es by auto
  have "distinct (map (of_nat :: nat \<Rightarrow> u32) pids)" using Cons.prems(2) by simp
  moreover have "distinct (map kv_key (out @ scan_entries ns es))"
    using Cons.prems(3,4) distinct_scan_entries [OF so, of ns] at by (fastforce simp: image_iff)
  moreover have "\<forall>y \<in> set (out @ scan_entries ns es). ResolvePartitionId E np ns (kv_key y) \<notin> of_nat ` set pids"
    using Cons.prems(2,4) at by auto
  ultimately have "distinct (map kv_key out')"
    and "set out' = set (out @ scan_entries ns es) \<union>
      {\<lparr> kv_name_space = ns, kv_key = key, kv_value = val, kv_ts = ts \<rparr> |key val ts pid.
        pid \<in> of_nat ` set pids \<and> table k pid (ComposeKey ns key) = Some (val, ts) \<and>
        b \<le> ComposeKey ns key \<and> ComposeKey ns key < e}"
    using Cons.IH [OF rest] by auto
  then show ?case unfolding set_append set_es list.set image_insert by blast
qed simp

end

lemma scan_partitions_error: "scan_partitions E k ns b e limit pids out = (out', Some err) \<Longrightarrow> err \<noteq> []"
  by (induction pids arbitrary: out) (auto simp: Let_def split: prod.splits if_splits)

interpretation key_ts_order: weak_order key_ts_less
  by unfold_locales (auto simp: key_ts_less_def split: if_splits)

lemma sorted_key_ts:
  assumes "distinct (map kv_key out)"
  shows "sorted_wrt (\<lambda>x y. kv_key x < kv_key y) (sort_by key_ts_less out)"
proof -
  have "sorted_wrt (\<lambda>x y. kv_key x \<le> kv_key y) (sort_by key_ts_less out)"
    by (rule sorted_wrt_mono_rel [OF _ key_ts_order.sorted_sort_by])
      (auto simp: key_ts_less_def split: if_splits)
  then have "sorted (map kv_key (sort_by key_ts_less out))"
    by (simp add: sorted_wrt_map)
  moreover have "distinct (map kv_key (sort_by key_ts_less out))" using assms by simp
  ultimately have "sorted_wrt (<) (map kv_key (sort_by key_ts_less out))"
    by (simp only: strict_sorted_iff)
  then show ?thesis by (simp add: sorted_wrt_map)
qed

lemma dedup_distinct:
  "distinct (map kv_key out) \<Longrightarrow> dedup_keys out = out"
proof (induction out rule: rev_induct)
  case (snoc x out)
  then have "out = [] \<or> kv_key (last out) \<noteq> kv_key x" by (auto simp: image_iff) (metis last_in_set)
  moreover have "dedup_keys out = out" using snoc by simp
  ultimately show ?case by (auto simp: dedup_keys_def)
qed (simp add: dedup_keys_def)

section \<open>The adapter keeps the contract of the store\<close>

definition el_inv :: "'k el_env \<Rightarrow> ('k \<Rightarrow> bool) \<Rightarrow> ('k \<Rightarrow> u32 \<Rightarrow> kv_row) \<Rightarrow> 'k EloqStoreAdapter \<Rightarrow> bool" where
  "el_inv E kinv table s \<longleftrightarrow>
     el_started s \<and> 0 < el_num_partitions s \<and> kinv (el_store s) \<and>
     placed E (el_num_partitions s) (table (el_store s))"

definition el_view :: "'k el_env \<Rightarrow> ('k \<Rightarrow> u32 \<Rightarrow> kv_row) \<Rightarrow> 'k EloqStoreAdapter \<Rightarrow> store_view" where
  "el_view E table s = view_of E (el_num_partitions s) (table (el_store s))"

lemma OnUpsertCommitted_frame [simp]:
  "el_started (OnUpsertCommitted key n s) = el_started s"
  "el_num_partitions (OnUpsertCommitted key n s) = el_num_partitions s"
  "el_store (OnUpsertCommitted key n s) = el_store s"
  by (simp_all add: OnUpsertCommitted_def Let_def split: option.split)

lemma OnDeleteCommitted_frame [simp]:
  "el_started (OnDeleteCommitted key s) = el_started s"
  "el_num_partitions (OnDeleteCommitted key s) = el_num_partitions s"
  "el_store (OnDeleteCommitted key s) = el_store s"
  by (simp_all add: OnDeleteCommitted_def split: option.split)

lemma committed_fold_frame [simp]:
  "el_started (fold committed_entry ds s) = el_started s"
  "el_num_partitions (fold committed_entry ds s) = el_num_partitions s"
  "el_store (fold committed_entry ds s) = el_store s"
  by (induction ds arbitrary: s) (simp_all add: committed_entry_def)

lemma el_inv_cong:
  "el_started s' = el_started s \<Longrightarrow> el_num_partitions s' = el_num_partitions s \<Longrightarrow>
   el_store s' = el_store s \<Longrightarrow> el_inv E kinv table s' = el_inv E kinv table s"
  by (simp add: el_inv_def)

text \<open>A put and a delete are a write of one entry.\<close>

lemma el_Put_alt:
  "el_started s \<Longrightarrow> el_Put E ns key val ts s =
     (let w = \<lparr> we_op = WUpsert, we_entry = \<lparr> kv_name_space = ns, kv_key = key, kv_value = val, kv_ts = ts \<rparr> \<rparr>;
          (k, err) = kv_BatchWrite (le_kv E) (entry_pid E (el_num_partitions s) w) [write_data w] (el_store s);
          s = s\<lparr> el_store := k \<rparr>
      in if err \<noteq> KvNoError then (s, kv_error E err)
         else (OnUpsertCommitted (ComposeKey ns key) (length val) s, \<lparr> sr_ok = True, sr_error = [] \<rparr>))"
  by (simp add: el_Put_def write_data_def Let_def)

lemma el_Delete_alt:
  "el_started s \<Longrightarrow> el_Delete E ns key ts s =
     (let w = \<lparr> we_op = WDelete, we_entry = \<lparr> kv_name_space = ns, kv_key = key, kv_value = [], kv_ts = ts \<rparr> \<rparr>;
          (k, err) = kv_BatchWrite (le_kv E) (entry_pid E (el_num_partitions s) w) [write_data w] (el_store s);
          s = s\<lparr> el_store := k \<rparr>
      in if err \<noteq> KvNoError then (s, kv_error E err)
         else (OnDeleteCommitted (ComposeKey ns key) s, \<lparr> sr_ok = True, sr_error = [] \<rparr>))"
  by (simp add: el_Delete_def write_data_def Let_def)

context kv_laws begin

lemma one_write_inv:
  assumes "el_inv E kinv table s" "plain_ns (kv_name_space (we_entry w))"
  shows "el_inv E kinv table (s\<lparr> el_store :=
    fst (kv_BatchWrite (le_kv E) (entry_pid E (el_num_partitions s) w) [write_data w] (el_store s)) \<rparr>)"
  using assms by (simp add: el_inv_def write_inv one_write_placed)

lemma Put_keeps:
  assumes "el_inv E kinv table s" "plain_ns ns"
  shows "el_inv E kinv table (fst (el_Put E ns key val ts s))"
proof -
  let ?w = "\<lparr> we_op = WUpsert, we_entry = \<lparr> kv_name_space = ns, kv_key = key, kv_value = val, kv_ts = ts \<rparr> \<rparr>"
  have "el_started s" using assms(1) by (simp add: el_inv_def)
  with one_write_inv [OF assms(1), of ?w] assms(2) show ?thesis
    by (auto simp: el_Put_alt Let_def case_prod_beta elim!: el_inv_cong [THEN iffD1, rotated -1])
qed

lemma Delete_keeps:
  assumes "el_inv E kinv table s" "plain_ns ns"
  shows "el_inv E kinv table (fst (el_Delete E ns key ts s))"
proof -
  let ?w = "\<lparr> we_op = WDelete, we_entry = \<lparr> kv_name_space = ns, kv_key = key, kv_value = [], kv_ts = ts \<rparr> \<rparr>"
  have "el_started s" using assms(1) by (simp add: el_inv_def)
  with one_write_inv [OF assms(1), of ?w] assms(2) show ?thesis
    by (auto simp: el_Delete_alt Let_def case_prod_beta elim!: el_inv_cong [THEN iffD1, rotated -1])
qed

lemma Put_does:
  assumes "el_inv E kinv table s" "plain_ns ns" "el_Put E ns key val ts s = (s', res)" "sr_ok res"
  shows "el_view E table s' = view_put ns key val ts (el_view E table s)"
proof -
  let ?w = "\<lparr> we_op = WUpsert, we_entry = \<lparr> kv_name_space = ns, kv_key = key, kv_value = val, kv_ts = ts \<rparr> \<rparr>"
  obtain k err where w: "kv_BatchWrite (le_kv E) (entry_pid E (el_num_partitions s) ?w) [write_data ?w] (el_store s) = (k, err)"
    by fastforce
  have st: "el_started s" and ki: "kinv (el_store s)" using assms(1) by (simp_all add: el_inv_def)
  from assms(3,4) w have e: "err = KvNoError"
    and s': "s' = OnUpsertCommitted (ComposeKey ns key) (length val) (s\<lparr> el_store := k \<rparr>)"
    by (auto simp: el_Put_alt [OF st] Let_def split: if_splits)
  from one_write_view [OF ki, of ?w "el_num_partitions s" k] assms(2) w e s' show ?thesis
    by (simp add: el_view_def view_apply_def)
qed

lemma Delete_does:
  assumes "el_inv E kinv table s" "plain_ns ns" "el_Delete E ns key ts s = (s', res)" "sr_ok res"
  shows "el_view E table s' = view_delete ns key (el_view E table s)"
proof -
  let ?w = "\<lparr> we_op = WDelete, we_entry = \<lparr> kv_name_space = ns, kv_key = key, kv_value = [], kv_ts = ts \<rparr> \<rparr>"
  obtain k err where w: "kv_BatchWrite (le_kv E) (entry_pid E (el_num_partitions s) ?w) [write_data ?w] (el_store s) = (k, err)"
    by fastforce
  have st: "el_started s" and ki: "kinv (el_store s)" using assms(1) by (simp_all add: el_inv_def)
  from assms(3,4) w have e: "err = KvNoError"
    and s': "s' = OnDeleteCommitted (ComposeKey ns key) (s\<lparr> el_store := k \<rparr>)"
    by (auto simp: el_Delete_alt [OF st] Let_def split: if_splits)
  from one_write_view [OF ki, of ?w "el_num_partitions s" k] assms(2) w e s' show ?thesis
    by (simp add: el_view_def view_apply_def)
qed

lemma Get_reads:
  assumes "el_inv E kinv table s" "plain_ns ns" "gr_error (el_Get E s ns key) = []"
  shows "el_view E table s ns key = None \<and> \<not> gr_found (el_Get E s ns key) \<or>
    (\<exists>ts. el_view E table s ns key = Some (gr_value (el_Get E s ns key), ts) \<and> gr_found (el_Get E s ns key))"
proof -
  have st: "el_started s" and ki: "kinv (el_store s)" using assms(1) by (simp_all add: el_inv_def)
  obtain err val where r: "kv_Read (le_kv E) (el_store s)
      (ResolvePartitionId E (el_num_partitions s) ns key) (ComposeKey ns key) = (err, val)" by fastforce
  consider "err = KvNoError" | "err = KvNotFound" | "err \<noteq> KvNoError" "err \<noteq> KvNotFound" by blast
  then show ?thesis
  proof cases
    case 1
    with read_found [OF ki] r st assms(2) show ?thesis by (auto simp: el_Get_def el_view_def view_of_def)
  next
    case 2
    with read_missing [OF ki] r st assms(2) show ?thesis by (auto simp: el_Get_def el_view_def view_of_def)
  next
    case 3
    with error_text [OF 3(1)] r st assms(3) show ?thesis by (simp add: el_Get_def)
  qed
qed

end

lemma distinct_pids: "distinct (map (of_nat :: nat \<Rightarrow> u32) [0..<unat (np :: u32)])"
proof -
  have "unat np < 2 ^ LENGTH(32)" by (rule unsigned_less)
  then show ?thesis
    by (auto simp: distinct_map inj_on_def word_of_nat_eq_iff take_bit_nat_eq_self)
qed

lemma ResolvePartitionId_mem: "0 < np \<Longrightarrow> ResolvePartitionId E np ns key \<in> of_nat ` set [0..<unat np]"
  by (rule image_eqI [of _ _ "unat (ResolvePartitionId E np ns key)"]) (simp_all add: ResolvePartitionId_less)

lemma scan_spec_all:
  assumes "distinct (map kv_key out)"
    and "set out = {\<lparr> kv_name_space = ns, kv_key = key, kv_value = val, kv_ts = ts \<rparr> |key val ts.
      w ns key = Some (val, ts) \<and> in_range b e key}"
  shows "scan_spec w ns b e 0 (dedup_keys (sort_by key_ts_less out))"
  unfolding scan_spec_def
  by (rule exI [of _ "sort_by key_ts_less out"])
    (use assms sorted_key_ts [OF assms(1)] in \<open>simp add: dedup_distinct\<close>)

context kv_laws begin

lemma Scan_lists:
  assumes "el_inv E kinv table s" "plain_ns ns" "el_Scan E s ns b e 0 = (out, [])"
  shows "scan_spec (el_view E table s) ns b e 0 out"
proof -
  let ?np = "el_num_partitions s" and ?e = "if e \<noteq> [] then ComposeKey ns e else ns @ '';''"
  have st: "el_started s" and np: "0 < ?np" and ki: "kinv (el_store s)" and pl: "placed E ?np (table (el_store s))"
    using assms(1) by (simp_all add: el_inv_def)
  obtain raw where raw: "scan_partitions E (el_store s) ns (ComposeKey ns b) ?e 0 [0..<unat ?np] [] = (raw, None)"
    and out: "out = dedup_keys (sort_by key_ts_less raw)"
    using assms(3) st
    by (cases "scan_partitions E (el_store s) ns (ComposeKey ns b) ?e 0 [0..<unat ?np] []")
      (auto simp: el_Scan_def Let_def not_started_def split: option.splits
        dest: scan_partitions_error)
  have *: "distinct (map kv_key raw) \<and> set raw = set [] \<union>
    {\<lparr> kv_name_space = ns, kv_key = key, kv_value = val, kv_ts = ts \<rparr> |key val ts pid.
      pid \<in> of_nat ` set [0..<unat ?np] \<and> table (el_store s) pid (ComposeKey ns key) = Some (val, ts) \<and>
      ComposeKey ns b \<le> ComposeKey ns key \<and> ComposeKey ns key < ?e}"
    by (rule scan_partitions_ok [OF ki pl assms(2) raw distinct_pids]) simp_all
  have at: "(\<exists>pid. pid \<in> of_nat ` set [0..<unat ?np] \<and> table (el_store s) pid (ComposeKey ns key) = Some (val, ts) \<and> P) \<longleftrightarrow>
      el_view E table s ns key = Some (val, ts) \<and> P" for key val ts P
    using placedD [OF pl assms(2)] ResolvePartitionId_mem [OF np, of E ns key] assms(2)
    unfolding el_view_def view_of_def by metis
  have range: "ComposeKey ns b \<le> ComposeKey ns key \<and> ComposeKey ns key < ?e \<longleftrightarrow> in_range b e key" for key
    by (simp add: in_range_def)
  have "y \<in> set raw \<longleftrightarrow> (\<exists>key val ts. y = \<lparr> kv_name_space = ns, kv_key = key, kv_value = val, kv_ts = ts \<rparr> \<and>
      el_view E table s ns key = Some (val, ts) \<and> in_range b e key)" for y
    unfolding conjunct2 [OF *] range at [symmetric] list.set Un_empty_left mem_Collect_eq by blast
  then have "set raw = {\<lparr> kv_name_space = ns, kv_key = key, kv_value = val, kv_ts = ts \<rparr> |key val ts.
      el_view E table s ns key = Some (val, ts) \<and> in_range b e key}"
    by auto
  with * show ?thesis unfolding out by (intro scan_spec_all) simp_all
qed

lemma BatchWrite_result:
  assumes "el_inv E kinv table s"
  obtains k' err where
    "write_batches E (fold (add_to_batch E (el_num_partitions s)) entries []) (el_store s) = (k', err)"
    "el_store (fst (el_BatchWrite E entries s)) = k'"
    "el_started (fst (el_BatchWrite E entries s))"
    "el_num_partitions (fst (el_BatchWrite E entries s)) = el_num_partitions s"
    "sr_ok (snd (el_BatchWrite E entries s)) \<longleftrightarrow> err = None"
proof -
  have st: "el_started s" using assms by (simp add: el_inv_def)
  obtain k' err where w: "write_batches E (fold (add_to_batch E (el_num_partitions s)) entries []) (el_store s) = (k', err)"
    by fastforce
  show ?thesis by (rule that [OF w]) (use st w in \<open>simp_all add: el_BatchWrite_def split: option.split\<close>)
qed

lemma no_batches_ok: "batches_ok (fold (add_to_batch E np) entries [])"
  by (rule batches_ok_fold) (simp add: batches_ok_def)

lemma BatchWrite_keeps:
  assumes "el_inv E kinv table s" "list_all (\<lambda>w. plain_ns (kv_name_space (we_entry w))) entries"
  shows "el_inv E kinv table (fst (el_BatchWrite E entries s))"
proof -
  have s: "0 < el_num_partitions s" "kinv (el_store s)" "placed E (el_num_partitions s) (table (el_store s))"
    using assms(1) by (simp_all add: el_inv_def)
  obtain k' err where "write_batches E (fold (add_to_batch E (el_num_partitions s)) entries []) (el_store s) = (k', err)"
    and "el_store (fst (el_BatchWrite E entries s)) = k'" "el_started (fst (el_BatchWrite E entries s))"
    and "el_num_partitions (fst (el_BatchWrite E entries s)) = el_num_partitions s"
    by (rule BatchWrite_result [OF assms(1), of entries])
  with s batch_placed [OF s(2) assms(2) s(3)] write_batches_frame [OF no_batches_ok [of "el_num_partitions s" entries] s(2)]
  show ?thesis by (simp add: el_inv_def)
qed

lemma BatchWrite_does:
  assumes "el_inv E kinv table s" "list_all (\<lambda>w. plain_ns (kv_name_space (we_entry w))) entries"
    and "el_BatchWrite E entries s = (s', res)" "sr_ok res"
  shows "el_view E table s' = fold view_apply entries (el_view E table s)"
proof -
  have ki: "kinv (el_store s)" using assms(1) by (simp add: el_inv_def)
  obtain k' err where w: "write_batches E (fold (add_to_batch E (el_num_partitions s)) entries []) (el_store s) = (k', err)"
    and s': "el_store s' = k'" "el_num_partitions s' = el_num_partitions s" "err = None"
    by (rule BatchWrite_result [OF assms(1), of entries]) (use assms(3,4) in auto)
  have "table k' = after_batches (fold (add_to_batch E (el_num_partitions s)) entries []) (table (el_store s))"
    by (rule write_batches_table [OF no_batches_ok ki]) (use w s'(3) in simp)
  then show ?thesis using view_after_fold [OF assms(2), of E "el_num_partitions s" "[]" "table (el_store s)"]
    by (simp add: el_view_def s'(1,2))
qed

end

lemma eloq_ops_sel [simp]:
  "so_Put (eloq_ops E) = el_Put E" "so_Get (eloq_ops E) = el_Get E"
  "so_Delete (eloq_ops E) = el_Delete E" "so_Scan (eloq_ops E) = el_Scan E"
  "so_BatchWrite (eloq_ops E) = el_BatchWrite E"
  "so_ApproximateUsage (eloq_ops E) = el_ApproximateUsage E"
  "so_TriggerStoreCompactAsync (eloq_ops E) = el_TriggerStoreCompactAsync"
  by (simp_all add: eloq_ops_def)

sublocale kv_laws \<subseteq> eloq: store_adapter "eloq_ops E" "el_inv E kinv table" "el_view E table" plain_ns
  by unfold_locales
    (simp_all add: Put_keeps Put_does Delete_keeps Delete_does Get_reads [simplified] Scan_lists
      BatchWrite_keeps BatchWrite_does)

text \<open>A healthy store answers every ordered batch and every read; its scans may still fail.\<close>

locale healthy_kv = kv_laws E kinv table
  for E :: "'k el_env" and kinv :: "'k \<Rightarrow> bool" and table :: "'k \<Rightarrow> u32 \<Rightarrow> kv_row" +
  assumes write_succeeds: "kinv k \<Longrightarrow> sorted_wrt (<) (map wd_key ws) \<Longrightarrow>
      snd (kv_BatchWrite (le_kv E) pid ws k) = KvNoError"
    and read_succeeds: "kinv k \<Longrightarrow> fst (kv_Read (le_kv E) k pid key) \<in> {KvNoError, KvNotFound}"
begin

lemma write_batches_succeeds:
  "batches_ok bs \<Longrightarrow> kinv k \<Longrightarrow> snd (write_batches E bs k) = None"
proof (induction bs arbitrary: k)
  case (Cons p bs)
  obtain pid b where p: "p = (pid, b)" by (cases p)
  obtain k1 err where w: "kv_BatchWrite (le_kv E) pid (map snd b) k = (k1, err)" by fastforce
  have b: "omap_ok b" "\<forall>p \<in> set b. wd_key (snd p) = fst p" and bs: "batches_ok bs"
    using Cons.prems(1) by (auto simp: batches_ok_def p)
  then have "map wd_key (map snd b) = map fst b" by simp
  then have "err = KvNoError" using b(1) write_succeeds [OF Cons.prems(2), of "map snd b" pid] w by (metis snd_conv)
  moreover have "kinv k1" using write_inv [OF Cons.prems(2), of pid "map snd b"] w by simp
  ultimately show ?case using Cons.IH [OF bs] by (simp add: p w)
qed simp

end

sublocale healthy_kv \<subseteq> eloq: reliable_writes "eloq_ops E" "el_inv E kinv table" "el_view E table" plain_ns
proof unfold_locales
  fix s ns key val ts entries
  assume inv: "el_inv E kinv table s"
  then have st: "el_started s" and ki: "kinv (el_store s)" by (simp_all add: el_inv_def)
  show "sr_ok (snd (so_Put (eloq_ops E) ns key val ts s))"
    using write_succeeds [OF ki] st by (simp add: el_Put_def Let_def case_prod_beta)
  show "sr_ok (snd (so_Delete (eloq_ops E) ns key ts s))"
    using write_succeeds [OF ki] st by (simp add: el_Delete_def Let_def case_prod_beta)
  show "gr_error (so_Get (eloq_ops E) s ns key) = []"
    using read_succeeds [OF ki] st by (auto simp: el_Get_def Let_def case_prod_beta)
  obtain k' err where "write_batches E (fold (add_to_batch E (el_num_partitions s)) entries []) (el_store s) = (k', err)"
    and "sr_ok (snd (el_BatchWrite E entries s)) \<longleftrightarrow> err = None"
    by (rule BatchWrite_result [OF inv, of entries])
  with write_batches_succeeds [OF no_batches_ok [of "el_num_partitions s" entries] ki]
  show "sr_ok (snd (so_BatchWrite (eloq_ops E) entries s))" by simp
qed

context kv_laws begin

lemma compact_partitions_table:
  "kinv k \<Longrightarrow> kinv (fst (compact_partitions E pids (k, n, m))) \<and>
    table (fst (compact_partitions E pids (k, n, m))) = table k"
proof (induction pids arbitrary: k n m)
  case (Cons pid pids)
  then show ?case using compact [OF Cons.prems, of "of_nat pid"]
    by (auto simp: Let_def case_prod_beta)
qed simp

text \<open>The compaction worker may run between any two operations: it changes nothing they see.\<close>

lemma RunCompactWorker_view:
  assumes "el_inv E kinv table s"
  shows "el_inv E kinv table (RunCompactWorker E n s) \<and> el_view E table (RunCompactWorker E n s) = el_view E table s"
  using assms compact_partitions_table by (simp add: el_inv_def el_view_def RunCompactWorker_def)

end

end
