(* ===== verification/Eloq_Layout.thy ===== *)
theory Eloq_Layout
  imports Eloq_Laws
begin

text \<open>
  The layout refresh of the EloqStore adapter.  When the number of partitions or the routing
  scheme has changed, every entry is copied to the partition where a read now looks for it
  and then deleted from the old one, and the directories that are left over are removed.
  It is shown that no entry of the eight name spaces is ever lost, whatever request fails,
  and that a refresh that succeeds has put every entry where it belongs.
\<close>

section \<open>Moving the entries of one partition and name space\<close>

definition unique_home :: "(u32 \<Rightarrow> kv_row) \<Rightarrow> bool" where
  "unique_home t \<longleftrightarrow> (\<forall>pid pid' key. t pid key \<noteq> None \<and> t pid' key \<noteq> None \<longrightarrow> pid = pid')"

definition held :: "(u32 \<Rightarrow> kv_row) \<Rightarrow> string \<Rightarrow> string \<times> u64 \<Rightarrow> bool" where
  "held t key x \<longleftrightarrow> (\<exists>pid. t pid key = Some x)"

definition misplaced :: "'k el_env \<Rightarrow> u32 \<Rightarrow> u32 \<Rightarrow> string \<Rightarrow> (u32 \<Rightarrow> kv_row) \<Rightarrow> string \<Rightarrow> bool" where
  "misplaced E np pid ns t key \<longleftrightarrow> t pid (ComposeKey ns key) \<noteq> None \<and> ResolvePartitionId E np ns key \<noteq> pid"

text \<open>What the table is once the misplaced entries of one partition have been moved.\<close>

definition relocated :: "'k el_env \<Rightarrow> u32 \<Rightarrow> u32 \<Rightarrow> string \<Rightarrow> (u32 \<Rightarrow> kv_row) \<Rightarrow> (u32 \<Rightarrow> kv_row) \<Rightarrow> bool" where
  "relocated E np src ns t t' \<longleftrightarrow>
     (\<forall>key. misplaced E np src ns t key \<longrightarrow>
        (\<forall>pid. t' pid (ComposeKey ns key) =
          (if pid = ResolvePartitionId E np ns key then t src (ComposeKey ns key) else None))) \<and>
     (\<forall>full. \<not> (\<exists>key. full = ComposeKey ns key \<and> misplaced E np src ns t key) \<longrightarrow>
        (\<forall>pid. t' pid full = t pid full))"

lemma unique_homeD:
  "unique_home t \<Longrightarrow> t pid key = Some x \<Longrightarrow> t pid' key = Some y \<Longrightarrow> pid' = pid \<and> y = x"
  unfolding unique_home_def by (metis option.distinct(1) option.inject)

lemma relocated_cases:
  assumes "relocated E np src ns t t'"
  obtains key where "full = ComposeKey ns key" "misplaced E np src ns t key"
      "\<And>pid. t' pid full = (if pid = ResolvePartitionId E np ns key then t src full else None)"
    | "\<And>pid. t' pid full = t pid full"
  using assms unfolding relocated_def by metis

lemma relocated_unique:
  assumes "relocated E np src ns t t'" "unique_home t" shows "unique_home t'"
  unfolding unique_home_def
proof (intro allI impI, elim conjE)
  fix pid pid' full
  assume some: "t' pid full \<noteq> None" "t' pid' full \<noteq> None"
  show "pid = pid'"
  proof (rule relocated_cases [OF assms(1), of full])
    assume "\<And>pid. t' pid full = t pid full"
    with some assms(2) show ?thesis unfolding unique_home_def by metis
  qed (use some in \<open>auto split: if_splits\<close>)
qed

lemma relocated_held:
  assumes "relocated E np src ns t t'" "unique_home t" shows "held t' full x \<longleftrightarrow> held t full x"
proof (rule relocated_cases [OF assms(1), of full])
  fix key
  assume full: "full = ComposeKey ns key" and m: "misplaced E np src ns t key"
    and t': "\<And>pid. t' pid full = (if pid = ResolvePartitionId E np ns key then t src full else None)"
  from m obtain y where y: "t src full = Some y" by (auto simp: misplaced_def full)
  then have "held t full x \<longleftrightarrow> x = y" using unique_homeD [OF assms(2)] unfolding held_def by metis
  moreover have "held t' full x \<longleftrightarrow> x = y" by (auto simp: held_def t' y)
  ultimately show ?thesis by simp
qed (simp add: held_def)

lemma relocated_clean:
  assumes "relocated E np src ns t t'" "plain_ns ns" "plain_ns ns'" "\<not> misplaced E np pid ns' t key'"
  shows "\<not> misplaced E np pid ns' t' key'"
proof (rule relocated_cases [OF assms(1), of "ComposeKey ns' key'"])
  fix key
  assume eq: "ComposeKey ns' key' = ComposeKey ns key"
    and t': "\<And>pid. t' pid (ComposeKey ns' key') =
      (if pid = ResolvePartitionId E np ns key then t src (ComposeKey ns' key') else None)"
  have "ns' = ns \<and> key' = key" using ComposeKey_iff [OF assms(3,2)] eq by blast
  then show ?thesis using t' by (auto simp: misplaced_def split: if_splits)
qed (use assms(4) in \<open>simp add: misplaced_def\<close>)

lemma relocated_source:
  assumes "relocated E np src ns t t'" "plain_ns ns" shows "\<not> misplaced E np src ns t' key"
proof (cases "misplaced E np src ns t key")
  case True
  with assms(1) show ?thesis by (auto simp: relocated_def misplaced_def)
qed (rule relocated_clean [OF assms(1,2,2)])

lemma relocated_refl:
  "(\<And>key. \<not> misplaced E np src ns t key) \<Longrightarrow> relocated E np src ns t t"
  by (simp add: relocated_def)

section \<open>The batches of a move\<close>

abbreviation moves_to :: "'k el_env \<Rightarrow> u32 \<Rightarrow> string \<Rightarrow> u32 \<Rightarrow> KvEntry list \<Rightarrow> WriteDataEntry list" where
  "moves_to E np ns pid es \<equiv> map (move_of WUpsert) (filter (\<lambda>e. target_of E np ns e = pid) es)"

lemma map_of_add_moves:
  "map_of (fold (add_move E np ns) es u) pid =
     (if moves_to E np ns pid es = [] then map_of u pid
      else Some ((case map_of u pid of None \<Rightarrow> [] | Some b \<Rightarrow> b) @ moves_to E np ns pid es))"
proof (induction es arbitrary: u)
  case (Cons e es)
  show ?case unfolding fold.simps o_apply Cons.IH
    by (cases "target_of E np ns e = pid") (auto simp: add_move_def umap_simps Let_def split: option.split)
qed simp

lemma omap_ok_add_moves: "omap_ok u \<Longrightarrow> omap_ok (fold (add_move E np ns) es u)"
  by (induction es arbitrary: u) (simp_all add: add_move_def Let_def)

lemma move_of_sel [simp]:
  "wd_key (move_of op e) = ke_key e" "wd_op (move_of op e) = op"
  by (simp_all add: move_of_def)

lemma fold_moves:
  assumes "distinct (map ke_key es)"
  shows "fold data_apply (map (move_of op) es) r key =
    (case find (\<lambda>e. ke_key e = key) es of None \<Rightarrow> r key | Some e \<Rightarrow> data_result (move_of op e))"
  using assms
proof (induction es arbitrary: r)
  case (Cons e es)
  show ?case
  proof (cases "ke_key e = key")
    case True
    with Cons.prems have "\<forall>e \<in> set es. ke_key e \<noteq> key" by (auto simp: image_iff)
    then have "find (\<lambda>e. ke_key e = key) es = None" by (simp add: find_None_iff)
    with Cons True show ?thesis by (simp add: data_apply_def)
  next
    case False
    with Cons show ?thesis by (simp add: data_apply_def)
  qed
qed simp

section \<open>One name space of one partition\<close>

definition moved_entries :: "'k el_env \<Rightarrow> u32 \<Rightarrow> u32 \<Rightarrow> string \<Rightarrow> KvEntry list \<Rightarrow> KvEntry list" where
  "moved_entries E np src ns entries =
     filter (\<lambda>entry. prefix (ns @ '':'') (ke_key entry) \<and> target_of E np ns entry \<noteq> src) entries"

lemma target_of_ComposeKey: "ke_key e = ComposeKey ns key \<Longrightarrow> target_of E np ns e = ResolvePartitionId E np ns key"
  by (simp add: target_of_def ComposeKey_def)

lemma moved_entries_ok:
  assumes "scan_of (t src) (ns @ '':'') (ns @ '';'') es"
  shows "distinct (map ke_key (filter P (moved_entries E np src ns es)))"
    "sorted_wrt (<) (map ke_key (filter P (moved_entries E np src ns es)))"
    "e \<in> set (moved_entries E np src ns es) \<longleftrightarrow>
       (\<exists>key x. ke_key e = ComposeKey ns key \<and> misplaced E np src ns t key \<and>
          t src (ComposeKey ns key) = Some x \<and> e = kv_entry_of (ComposeKey ns key) x)"
proof -
  have srt: "sorted_wrt (<) (map ke_key es)" using assms by (simp add: scan_of_def)
  then have "sorted_wrt (\<lambda>x y. ke_key x < ke_key y) es" by (simp add: sorted_wrt_map)
  then have f: "sorted_wrt (<) (map ke_key (filter Q es))" for Q by (simp add: sorted_wrt_map sorted_wrt_filter)
  from f show "sorted_wrt (<) (map ke_key (filter P (moved_entries E np src ns es)))"
    by (simp add: moved_entries_def)
  from f show "distinct (map ke_key (filter P (moved_entries E np src ns es)))"
    unfolding moved_entries_def strict_sorted_iff by simp
  have mem: "e \<in> set es \<longleftrightarrow> (\<exists>full x. e = kv_entry_of full x \<and> t src full = Some x \<and> ns @ '':'' \<le> full \<and> full < ns @ '';'')"
    using assms by (auto simp: scan_of_def)
  show "e \<in> set (moved_entries E np src ns es) \<longleftrightarrow>
       (\<exists>key x. ke_key e = ComposeKey ns key \<and> misplaced E np src ns t key \<and>
          t src (ComposeKey ns key) = Some x \<and> e = kv_entry_of (ComposeKey ns key) x)" (is "?L \<longleftrightarrow> ?R")
  proof
    assume ?L
    then obtain x where "e = kv_entry_of (ke_key e) x" "t src (ke_key e) = Some x"
        "prefix (ns @ '':'') (ke_key e)" "target_of E np ns e \<noteq> src"
      unfolding moved_entries_def using mem by (auto simp: kv_entry_of_def)
    then show ?R by (metis misplaced_def option.distinct(1) prefix_ComposeKey target_of_ComposeKey)
  next
    assume ?R
    then obtain key x where "ke_key e = ComposeKey ns key" "misplaced E np src ns t key"
        "t src (ComposeKey ns key) = Some x" "e = kv_entry_of (ComposeKey ns key) x" by blast
    moreover from this have "e \<in> set es" unfolding mem by (metis ComposeKey_sentinel ComposeKey_start)
    ultimately show ?L unfolding moved_entries_def
      by (auto simp: misplaced_def target_of_ComposeKey prefix_ComposeKey)
  qed
qed

lemma find_moved:
  assumes "scan_of (t src) (ns @ '':'') (ns @ '';'') es"
  shows "find (\<lambda>e. ke_key e = full) (filter P (moved_entries E np src ns es)) =
    (case t src full of None \<Rightarrow> None | Some x \<Rightarrow>
       if (\<exists>key. full = ComposeKey ns key \<and> misplaced E np src ns t key) \<and> P (kv_entry_of full x)
       then Some (kv_entry_of full x) else None)"
    (is "find ?K ?es = ?R")
proof (cases "find ?K ?es")
  case None
  then have none: "\<forall>e \<in> set ?es. ke_key e \<noteq> full" by (auto simp: find_None_iff)
  have "\<not> ((\<exists>key. full = ComposeKey ns key \<and> misplaced E np src ns t key) \<and> P (kv_entry_of full x))"
    if "t src full = Some x" for x
  proof
    assume "(\<exists>key. full = ComposeKey ns key \<and> misplaced E np src ns t key) \<and> P (kv_entry_of full x)"
    with that have "kv_entry_of full x \<in> set ?es"
      using moved_entries_ok(3) [of t src ns es, OF assms, of "kv_entry_of full x" E np] by (auto simp: kv_entry_of_def)
    with none show False by (auto simp: kv_entry_of_def)
  qed
  with None show ?thesis by (auto split: option.split)
next
  case (Some e)
  then obtain i where "i < length ?es" "ke_key (?es ! i) = full" "e = ?es ! i" unfolding find_Some_iff by blast
  then have "e \<in> set ?es" "ke_key e = full" by (metis nth_mem, simp)
  with moved_entries_ok(3) [of t src ns es, OF assms, of e E np] Some show ?thesis by auto
qed

context kv_laws begin

lemma write_moves_frame:
  assumes "omap_ok ups" "kinv k"
  shows "kinv (fst (write_moves E ns ups k)) \<and>
    ((\<forall>b. map_of ups pid = Some b \<longrightarrow> key \<notin> wd_key ` set b) \<longrightarrow>
     table (fst (write_moves E ns ups k)) pid key = table k pid key)"
  using assms
proof (induction ups arbitrary: k)
  case (Cons p ups)
  obtain pid0 b where p: "p = (pid0, b)" by (cases p)
  obtain k1 err where w: "kv_BatchWrite (le_kv E) pid0 b k = (k1, err)" by fastforce
  have k1: "kinv k1" using write_inv [OF Cons.prems(2), of pid0 b] w by simp
  have ok: "omap_ok ups" using Cons.prems(1) by (simp add: p)
  have pid0: "map_of ups pid0 = None" using Cons.prems(1) by (force simp: p map_of_eq_None_iff)
  have same: "table k1 pid key = table k pid key" if "\<forall>b. map_of (p # ups) pid = Some b \<longrightarrow> key \<notin> wd_key ` set b"
    using write_frame [OF Cons.prems(2), of pid pid0 key b] w that by (auto simp: p split: if_splits)
  have rest: "\<forall>b. map_of ups pid = Some b \<longrightarrow> key \<notin> wd_key ` set b"
    if "\<forall>b. map_of (p # ups) pid = Some b \<longrightarrow> key \<notin> wd_key ` set b"
    using that pid0 by (auto simp: p split: if_splits)
  have step: "fst (write_moves E ns (p # ups) k) = (if err \<noteq> KvNoError then k1 else fst (write_moves E ns ups k1))"
    by (simp add: p w Let_def)
  show ?case
  proof (intro conjI impI)
    show "kinv (fst (write_moves E ns (p # ups) k))"
      unfolding step using Cons.IH [OF ok k1] k1 by simp
    assume "\<forall>b. map_of (p # ups) pid = Some b \<longrightarrow> key \<notin> wd_key ` set b"
    from same [OF this] rest [OF this] Cons.IH [OF ok k1]
    show "table (fst (write_moves E ns (p # ups) k)) pid key = table k pid key"
      unfolding step by presburger
  qed
qed simp

lemma write_moves_table:
  assumes "omap_ok ups" "kinv k" "write_moves E ns ups k = (k', None)"
    and "\<forall>b \<in> snd ` set ups. sorted_wrt (<) (map wd_key b)"
  shows "table k' pid = (case map_of ups pid of None \<Rightarrow> table k pid | Some b \<Rightarrow> fold data_apply b (table k pid))"
  using assms
proof (induction ups arbitrary: k)
  case (Cons p ups)
  obtain pid0 b where p: "p = (pid0, b)" by (cases p)
  obtain k1 err where w: "kv_BatchWrite (le_kv E) pid0 b k = (k1, err)" by fastforce
  with Cons.prems(3) have e: "err = KvNoError" and rest: "write_moves E ns ups k1 = (k', None)"
    by (auto simp: p split: if_splits)
  have k1: "kinv k1" using write_inv [OF Cons.prems(2), of pid0 b] w by simp
  have t: "table k1 = (table k)(pid0 := fold data_apply b (table k pid0))"
    by (rule write_table [OF Cons.prems(2)]) (use Cons.prems(4) w e in \<open>simp_all add: p\<close>)
  have pid0: "map_of ups pid0 = None" using Cons.prems(1) by (force simp: p map_of_eq_None_iff)
  have "omap_ok ups" "\<forall>b \<in> snd ` set ups. sorted_wrt (<) (map wd_key b)" using Cons.prems(1,4) by (simp_all add: p)
  from Cons.IH [OF this(1) k1 rest this(2)] pid0 show ?case
    by (auto simp: p t split: option.split)
qed simp

text \<open>The copies of the moved entries, when the scan has succeeded.\<close>

lemma copies_frame:
  fixes np :: u32
  assumes "kinv k" "scan_of (table k src) (ns @ '':'') (ns @ '';'') es" "unique_home (table k)"
  defines "ups \<equiv> fold (add_move E np ns) (moved_entries E np src ns es) []"
  shows "kinv (fst (write_moves E ns ups k)) \<and>
    table (fst (write_moves E ns ups k)) src full = table k src full \<and>
    (\<not> (\<exists>key. full = ComposeKey ns key \<and> misplaced E np src ns (table k) key) \<longrightarrow>
     table (fst (write_moves E ns ups k)) pid full = table k pid full)"
proof -
  have ok: "omap_ok ups" unfolding ups_def by (rule omap_ok_add_moves) simp
  have keys: "full \<in> wd_key ` set b \<Longrightarrow> (\<exists>key. full = ComposeKey ns key \<and> misplaced E np src ns (table k) key \<and>
      pid = ResolvePartitionId E np ns key)" if "map_of ups pid = Some b" for pid b
    using that moved_entries_ok(3) [of "table k" src ns es, OF assms(2)] unfolding ups_def map_of_add_moves
    by (fastforce split: if_splits simp: target_of_ComposeKey)
  then have "\<forall>b. map_of ups src = Some b \<longrightarrow> full \<notin> wd_key ` set b" unfolding misplaced_def by blast
  moreover have "\<not> (\<exists>key. full = ComposeKey ns key \<and> misplaced E np src ns (table k) key) \<Longrightarrow>
      \<forall>b. map_of ups pid = Some b \<longrightarrow> full \<notin> wd_key ` set b" using keys by blast
  ultimately show ?thesis using write_moves_frame [OF ok assms(1)] by blast
qed

lemma copies_other:
  assumes "kinv k" "scan_of (table k src) (ns @ '':'') (ns @ '';'') es" "unique_home (table k)"
    and m: "misplaced E np src ns (table k) key" and "pid \<noteq> src" "pid \<noteq> ResolvePartitionId E np ns key"
  shows "table (fst (write_moves E ns (fold (add_move E np ns) (moved_entries E np src ns es) []) k)) pid
    (ComposeKey ns key) = None"
proof -
  let ?ups = "fold (add_move E np ns) (moved_entries E np src ns es) []"
  have ok: "omap_ok ?ups" by (rule omap_ok_add_moves) simp
  have "ComposeKey ns key \<notin> wd_key ` set b" if "map_of ?ups pid = Some b" for b
    using that assms(6) unfolding map_of_add_moves by (auto simp: target_of_ComposeKey split: if_splits)
  with write_moves_frame [OF ok assms(1)]
  have "table (fst (write_moves E ns ?ups k)) pid (ComposeKey ns key) = table k pid (ComposeKey ns key)" by blast
  moreover have "table k pid (ComposeKey ns key) = None"
    using assms(3,5) m unfolding unique_home_def misplaced_def by metis
  ultimately show ?thesis by simp
qed

lemma copies_table:
  assumes "kinv k" "scan_of (table k src) (ns @ '':'') (ns @ '';'') es"
    and "write_moves E ns (fold (add_move E np ns) (moved_entries E np src ns es) []) k = (k', None)"
    and "misplaced E np src ns (table k) key"
  shows "table k' (ResolvePartitionId E np ns key) (ComposeKey ns key) = table k src (ComposeKey ns key)"
proof -
  let ?es = "moved_entries E np src ns es" and ?pid = "ResolvePartitionId E np ns key"
  let ?ups = "fold (add_move E np ns) ?es []"
  have ok: "omap_ok ?ups" by (rule omap_ok_add_moves) simp
  have batch: "sorted_wrt (<) (map wd_key (moves_to E np ns pid ?es))" for pid
    using moved_entries_ok(2) [of "table k" src ns es, OF assms(2)] by (simp add: o_def)
  have "\<forall>b \<in> snd ` set ?ups. sorted_wrt (<) (map wd_key b)"
  proof
    fix b
    assume "b \<in> snd ` set ?ups"
    then obtain pid where "map_of ?ups pid = Some b" using omap_ok_distinct [OF ok] by (auto intro: map_of_is_SomeI)
    then have "b = moves_to E np ns pid ?es" unfolding map_of_add_moves by (simp split: if_splits)
    then show "sorted_wrt (<) (map wd_key b)" using batch by simp
  qed
  from write_moves_table [OF ok assms(1,3) this, of ?pid]
  have t: "table k' ?pid = fold data_apply (moves_to E np ns ?pid ?es) (table k ?pid)"
    unfolding map_of_add_moves by (auto split: if_splits)
  obtain x where x: "table k src (ComposeKey ns key) = Some x" using assms(4) by (auto simp: misplaced_def)
  have "distinct (map ke_key (filter (\<lambda>e. target_of E np ns e = ?pid) ?es))"
    by (rule moved_entries_ok(1) [of "table k", OF assms(2)])
  from fold_moves [OF this, of WUpsert "table k ?pid" "ComposeKey ns key"]
  show ?thesis unfolding t find_moved [of "table k", OF assms(2)]
    using x assms(4) by (auto simp: target_of_ComposeKey kv_entry_of_def move_of_def data_result_def split: if_splits)
qed

lemma not_misplaced_missing:
  assumes "scan_of (t src) (ns @ '':'') (ns @ '';'') []"
  shows "\<not> misplaced E np src ns t key"
proof
  assume "misplaced E np src ns t key"
  then obtain x where "t src (ComposeKey ns key) = Some x" by (auto simp: misplaced_def)
  then have "kv_entry_of (ComposeKey ns key) x \<in>
      {kv_entry_of key x |key x. t src key = Some x \<and> ns @ '':'' \<le> key \<and> key < ns @ '';''}"
    using ComposeKey_sentinel ComposeKey_start by blast
  also have "\<dots> = set []" using assms by (simp only: scan_of_def)
  finally show False by simp
qed

lemma moved_keys:
  assumes "scan_of (table k src) (ns @ '':'') (ns @ '';'') es"
  shows "full \<in> ke_key ` set (moved_entries E np src ns es) \<longleftrightarrow>
    (\<exists>key. full = ComposeKey ns key \<and> misplaced E np src ns (table k) key)"
proof
  assume "full \<in> ke_key ` set (moved_entries E np src ns es)"
  then show "\<exists>key. full = ComposeKey ns key \<and> misplaced E np src ns (table k) key"
    using moved_entries_ok(3) [of "table k", OF assms] by fastforce
next
  assume "\<exists>key. full = ComposeKey ns key \<and> misplaced E np src ns (table k) key"
  then obtain key x where full: "full = ComposeKey ns key" "misplaced E np src ns (table k) key"
      and x: "table k src (ComposeKey ns key) = Some x" by (auto simp: misplaced_def)
  then have "kv_entry_of full x \<in> set (moved_entries E np src ns es)"
    using moved_entries_ok(3) [of "table k", OF assms, of "kv_entry_of full x"] by (auto simp: kv_entry_of_def)
  then show "full \<in> ke_key ` set (moved_entries E np src ns es)" by (force simp: kv_entry_of_def)
qed

lemma held_by_move:
  assumes "unique_home t" "\<And>full. \<not> (\<exists>key. full = ComposeKey ns key \<and> misplaced E np src ns t key) \<Longrightarrow>
      \<forall>pid. t' pid full = t pid full"
    and "\<And>key. misplaced E np src ns t key \<Longrightarrow> \<exists>pid. t' pid (ComposeKey ns key) = t src (ComposeKey ns key)"
    and "held t full x"
  shows "held t' full x"
proof (cases "\<exists>key. full = ComposeKey ns key \<and> misplaced E np src ns t key")
  case True
  then obtain key where key: "full = ComposeKey ns key" "misplaced E np src ns t key" by blast
  then obtain y where y: "t src full = Some y" by (auto simp: misplaced_def)
  with assms(1,4) have "y = x" unfolding held_def by (metis unique_homeD)
  with assms(3) [OF key(2)] y key(1) show ?thesis by (auto simp: held_def)
next
  case False
  with assms(2) [OF False] assms(4) show ?thesis by (simp add: held_def)
qed

text \<open>After the copies, the deletes at the source.\<close>

lemma deletes_ok:
  assumes ki: "kinv k" and uq: "unique_home (table k)"
    and so: "scan_of (table k src) (ns @ '':'') (ns @ '';'') es"
    and w: "write_moves E ns (fold (add_move E np ns) (moved_entries E np src ns es) []) k = (k1, None)"
    and d: "kv_BatchWrite (le_kv E) src (map (move_of WDelete) (moved_entries E np src ns es)) k1 = (k2, derr)"
  shows "kinv k2" "held (table k) full x \<Longrightarrow> held (table k2) full x"
    "derr = KvNoError \<Longrightarrow> relocated E np src ns (table k) (table k2)"
proof -
  let ?es = "moved_entries E np src ns es"
  let ?dels = "map (move_of WDelete) ?es"
  have k1: "kinv k1" and kept: "\<not> (\<exists>key. f = ComposeKey ns key \<and> misplaced E np src ns (table k) key) \<Longrightarrow>
      table k1 pid f = table k pid f" for f pid
    using copies_frame [OF ki so uq, of np] w by (metis fst_conv)+
  show "kinv k2" using write_inv [OF k1, of src ?dels] d by simp
  have same2: "pid \<noteq> src \<or> \<not> (\<exists>key. f = ComposeKey ns key \<and> misplaced E np src ns (table k) key) \<Longrightarrow>
      table k2 pid f = table k1 pid f" for pid f
    using write_frame [OF k1, of pid src f ?dels] d moved_keys [OF so, of f np] by (auto simp: image_image)
  have copied: "table k2 (ResolvePartitionId E np ns key) (ComposeKey ns key) = table k src (ComposeKey ns key)"
    if "misplaced E np src ns (table k) key" for key
    using copies_table [OF ki so w that] same2 that unfolding misplaced_def by metis
  show "held (table k2) full x" if "held (table k) full x"
    by (rule held_by_move [OF uq _ _ that, of ns np src]) (use kept same2 copied in \<open>simp, blast\<close>)
  assume "derr = KvNoError"
  moreover have "sorted_wrt (<) (map wd_key ?dels)"
    using moved_entries_ok(2) [of "table k", OF so, of "\<lambda>_. True"] by (simp add: o_def)
  ultimately have t2: "table k2 = (table k1)(src := fold data_apply ?dels (table k1 src))"
    using write_table [OF k1] d by metis
  have dist: "distinct (map ke_key ?es)" using moved_entries_ok(1) [of "table k", OF so, of "\<lambda>_. True"] by simp
  have gone: "table k2 src (ComposeKey ns key) = None" if m: "misplaced E np src ns (table k) key" for key
    using moved_keys [OF so, of "ComposeKey ns key" np] m
    unfolding t2 fun_upd_same fold_moves [OF dist] by (auto simp: find_None_iff data_result_def split: option.split)
  have other: "table k2 pid (ComposeKey ns key) = None"
    if "misplaced E np src ns (table k) key" "pid \<noteq> src" "pid \<noteq> ResolvePartitionId E np ns key" for pid key
    using copies_other [OF ki so uq that] same2 that(2) w by simp
  show "relocated E np src ns (table k) (table k2)"
    unfolding relocated_def
  proof (intro conjI allI impI)
    fix key pid
    assume m: "misplaced E np src ns (table k) key"
    show "table k2 pid (ComposeKey ns key) =
        (if pid = ResolvePartitionId E np ns key then table k src (ComposeKey ns key) else None)"
      using copied [OF m] gone [OF m] other [OF m] by metis
  qed (simp add: kept same2)
qed

lemma rehash_namespace_ok:
  assumes ki: "kinv k" and uq: "unique_home (table k)"
    and r: "rehash_namespace E np src ns k = (k', err)"
  shows "kinv k' \<and> (held (table k) full x \<longrightarrow> held (table k') full x) \<and>
    (err = None \<longrightarrow> relocated E np src ns (table k) (table k'))"
proof -
  obtain serr es where sc: "kv_Scan (le_kv E) k src (ns @ '':'') (ns @ '';'') None = (serr, es)" by fastforce
  let ?es = "moved_entries E np src ns es"
  obtain k1 werr where w: "write_moves E ns (fold (add_move E np ns) ?es []) k = (k1, werr)" by fastforce
  obtain k2 derr where d: "kv_BatchWrite (le_kv E) src (map (move_of WDelete) ?es) k1 = (k2, derr)" by fastforce
  have so: "scan_of (table k src) (ns @ '':'') (ns @ '';'') es" if "serr = KvNoError"
    using scan_table [OF ki] sc that by simp
  have frame: "kinv k1" "table k1 src f = table k src f"
    "\<not> (\<exists>key. f = ComposeKey ns key \<and> misplaced E np src ns (table k) key) \<Longrightarrow> table k1 pid f = table k pid f"
    if "serr = KvNoError" for f pid
    using copies_frame [OF ki so [OF that] uq, of np] w by (metis fst_conv)+
  consider "serr \<noteq> KvNoError" | e where "serr = KvNoError" "werr = Some e"
    | "serr = KvNoError" "werr = None" "?es = []" | "serr = KvNoError" "werr = None" "?es \<noteq> []" by fastforce
  then show ?thesis
  proof cases
    case 1
    then have "k' = k" and "err = None \<Longrightarrow> serr = KvNotFound"
      using r sc by (auto simp: rehash_namespace_def split: if_splits)
    then show ?thesis
      using ki scan_missing [OF ki] sc not_misplaced_missing [of "table k"] by (auto intro!: relocated_refl)
  next
    case 2
    with r sc w have "k' = k1 \<and> err = Some e" by (auto simp: rehash_namespace_def moved_entries_def)
    moreover have "held (table k1) full x" if "held (table k) full x"
      by (rule held_by_move [OF uq _ _ that, of ns np src]) (use frame [OF 2(1)] in \<open>simp, blast\<close>)
    ultimately show ?thesis using frame(1) [OF 2(1)] by simp
  next
    case 3
    with r sc w have k': "k' = k1" by (auto simp: rehash_namespace_def moved_entries_def)
    have none: "\<not> misplaced E np src ns (table k) key" for key
      using moved_keys [OF so [OF 3(1)], of "ComposeKey ns key" np] 3(3) by auto
    with frame(3) [OF 3(1)] have "table k1 = table k" by (metis ext)
    with none frame(1) [OF 3(1)] show ?thesis by (simp add: k' relocated_refl)
  next
    case 4
    with r sc w d have k': "k' = k2" and e: "err = None \<longrightarrow> derr = KvNoError"
      by (auto simp: rehash_namespace_def moved_entries_def Let_def split: if_splits)
    from deletes_ok [OF ki uq so [OF 4(1)] w [unfolded 4(2)] d] show ?thesis
      unfolding k' using e by blast
  qed
qed

subsection \<open>All partitions and name spaces\<close>

lemma rehash_loop_ok:
  assumes "kinv k" "unique_home (table k)" "\<forall>p \<in> set work. plain_ns (snd p)"
    and "rehash_loop E np work k = (k', err)"
  shows "kinv k' \<and> (held (table k) full x \<longrightarrow> held (table k') full x) \<and>
    (err = None \<longrightarrow> unique_home (table k') \<and> (held (table k') full x \<longrightarrow> held (table k) full x) \<and>
      (\<forall>(pid, ns) \<in> set work. \<forall>key. \<not> misplaced E np pid ns (table k') key) \<and>
      (\<forall>pid ns key. plain_ns ns \<and> \<not> misplaced E np pid ns (table k) key \<longrightarrow> \<not> misplaced E np pid ns (table k') key))"
  using assms
proof (induction work arbitrary: k)
  case (Cons p work)
  obtain src ns where p: "p = (src, ns)" by (cases p)
  obtain k1 err1 where r: "rehash_namespace E np src ns k = (k1, err1)" by fastforce
  have ns: "plain_ns ns" using Cons.prems(3) by (simp add: p)
  note one = rehash_namespace_ok [OF Cons.prems(1,2) r, of full x]
  show ?case
  proof (cases err1)
    case (Some e)
    with Cons.prems(4) r have "k' = k1" "err = Some e" by (simp_all add: p)
    with one show ?thesis by simp
  next
    case None
    have rel: "relocated E np src ns (table k) (table k1)" using one None by blast
    have rest: "rehash_loop E np work k1 = (k', err)" using Cons.prems(4) r None by (simp add: p)
    have k1: "kinv k1" "unique_home (table k1)" using one relocated_unique [OF rel Cons.prems(2)] by blast+
    have "\<forall>p \<in> set work. plain_ns (snd p)" using Cons.prems(3) by simp
    note ih = Cons.IH [OF k1 this rest]
    have clean: "plain_ns ns' \<and> \<not> misplaced E np pid ns' (table k) key \<longrightarrow> \<not> misplaced E np pid ns' (table k1) key" for pid ns' key
      using relocated_clean [OF rel ns] by blast
    show ?thesis
    proof (intro conjI impI)
      show "kinv k'" "held (table k) full x \<Longrightarrow> held (table k') full x" using ih one by blast+
      assume e: "err = None"
      show "unique_home (table k')" using ih e by blast
      show "held (table k') full x \<Longrightarrow> held (table k) full x"
        using ih e relocated_held [OF rel Cons.prems(2)] by blast
      show "\<forall>pid ns key. plain_ns ns \<and> \<not> misplaced E np pid ns (table k) key \<longrightarrow> \<not> misplaced E np pid ns (table k') key"
        using ih e clean by blast
      have "\<not> misplaced E np src ns (table k') key" for key
        using ih e ns relocated_source [OF rel ns] by blast
      then show "\<forall>(pid, ns) \<in> set (p # work). \<forall>key. \<not> misplaced E np pid ns (table k') key"
        using ih e by (simp add: p)
    qed
  qed
qed simp

lemma CleanupOutdated_table:
  "kinv k \<Longrightarrow> kinv (CleanupOutdatedPartitionDirs E np pids k) \<and>
     (table (CleanupOutdatedPartitionDirs E np pids k) pid = table k pid \<or>
      \<not> pid < np \<and> table (CleanupOutdatedPartitionDirs E np pids k) pid = Map.empty)"
  unfolding CleanupOutdatedPartitionDirs_def
proof (induction pids arbitrary: k)
  case (Cons p pids)
  let ?k1 = "if p < np \<or> partition_dir p \<notin> set (fs_dirs E k) then k else fs_remove_all E (partition_dir p) k"
  have "kinv ?k1" "table ?k1 pid = table k pid \<or> \<not> pid < np \<and> table ?k1 pid = Map.empty"
    using Cons.prems remove_dir [OF Cons.prems, of p] by auto
  with Cons.IH [OF this(1)] show ?case by fastforce
qed simp

lemma CleanupEmpty_table:
  "kinv k \<Longrightarrow> kinv (CleanupEmptyPartitionDirs E pids k) \<and> table (CleanupEmptyPartitionDirs E pids k) = table k"
  unfolding CleanupEmptyPartitionDirs_def
proof (induction pids arbitrary: k)
  case (Cons p pids)
  let ?k1 = "if partition_dir p \<notin> set (fs_dirs E k) \<or> \<not> fs_is_empty E k (partition_dir p) then k
             else fs_remove_all E (partition_dir p) k"
  have "kinv ?k1" "table ?k1 = table k"
    using Cons.prems remove_dir [OF Cons.prems, of p] empty_dir [OF Cons.prems, of p] by auto
  with Cons.IH [OF this(1)] show ?case by fastforce
qed simp

end

lemma plain_kNamespaces: "ns \<in> set kNamespaces \<Longrightarrow> plain_ns ns"
  by (auto simp: kNamespaces_def plain_ns_def)

text \<open>The keys of the eight name spaces, and a store that holds no other key.\<close>

definition known_keys :: "(u32 \<Rightarrow> kv_row) \<Rightarrow> bool" where
  "known_keys t \<longleftrightarrow> (\<forall>pid full. t pid full \<noteq> None \<longrightarrow> (\<exists>ns \<in> set kNamespaces. \<exists>key. full = ComposeKey ns key))"

context kv_laws begin

lemma RehashStoredEntries_kept:
  assumes "kinv k" "unique_home (table k)" "0 < np" "ns \<in> set kNamespaces"
    and there: "\<forall>pid. table k pid \<noteq> Map.empty \<longrightarrow> pid \<in> set pids"
    and r: "RehashStoredEntries E np pids k = (k', err)"
    and h: "held (table k) (ComposeKey ns key) x"
  shows "kinv k' \<and> held (table k') (ComposeKey ns key) x \<and>
    (err = None \<longrightarrow> table k' (ResolvePartitionId E np ns key) (ComposeKey ns key) = Some x)"
proof -
  let ?work = "List.product pids kNamespaces"
  from h there have pids: "pids \<noteq> []" unfolding held_def by fastforce
  obtain k1 err1 where l: "rehash_loop E np ?work k = (k1, err1)" by fastforce
  have "\<forall>p \<in> set ?work. plain_ns (snd p)" using plain_kNamespaces by auto
  note loop = rehash_loop_ok [OF assms(1,2) this l, of "ComposeKey ns key" x]
  show ?thesis
  proof (cases err1)
    case (Some e)
    with r pids l have "k' = k1" "err = Some e" by (simp_all add: RehashStoredEntries_def)
    with loop h show ?thesis by simp
  next
    case None
    with r pids l have k': "k' = CleanupEmptyPartitionDirs E pids (CleanupOutdatedPartitionDirs E np pids k1)"
      by (simp add: RehashStoredEntries_def)
    obtain pid where at: "table k1 pid (ComposeKey ns key) = Some x" using loop h unfolding held_def by blast
    have "\<not> misplaced E np pid ns (table k1) key"
    proof (cases "pid \<in> set pids")
      case True
      then have "(pid, ns) \<in> set ?work" using assms(4) by simp
      then show ?thesis using loop None by blast
    next
      case False
      then have "table k pid = Map.empty" using there by blast
      then have "\<not> misplaced E np pid ns (table k) key" by (simp add: misplaced_def)
      then show ?thesis using loop None plain_kNamespaces [OF assms(4)] by blast
    qed
    with at have pid: "pid = ResolvePartitionId E np ns key" by (simp add: misplaced_def)
    have "pid < np" using ResolvePartitionId_less [OF assms(3)] by (simp add: pid word_less_nat_alt)
    moreover have k1: "kinv k1" using loop by blast
    ultimately have "table k' pid = table k1 pid" "kinv k'"
      using CleanupEmpty_table CleanupOutdated_table [OF k1, of np pids] unfolding k' by metis+
    with at pid show ?thesis unfolding held_def by metis
  qed
qed

lemma Rehash_inv:
  assumes "kinv k" "unique_home (table k)" "RehashStoredEntries E np pids k = (k', err)"
  shows "kinv k'"
proof (cases "pids = []")
  case False
  obtain k1 err1 where l: "rehash_loop E np (List.product pids kNamespaces) k = (k1, err1)" by fastforce
  have "\<forall>p \<in> set (List.product pids kNamespaces). plain_ns (snd p)" using plain_kNamespaces by auto
  then have "kinv k1" using rehash_loop_ok [OF assms(1,2) _ l] by blast
  then show ?thesis using assms(3) False l CleanupEmpty_table CleanupOutdated_table
    by (auto simp: RehashStoredEntries_def split: option.splits)
qed (use assms in \<open>simp add: RehashStoredEntries_def\<close>)

lemma RehashStoredEntries_only:
  assumes "kinv k" "unique_home (table k)" "RehashStoredEntries E np pids k = (k', None)"
  shows "unique_home (table k') \<and> (held (table k') full x \<longrightarrow> held (table k) full x)"
proof (cases "pids = []")
  case False
  obtain k1 err1 where l: "rehash_loop E np (List.product pids kNamespaces) k = (k1, err1)" by fastforce
  with assms(3) False have None: "err1 = None"
    and k': "k' = CleanupEmptyPartitionDirs E pids (CleanupOutdatedPartitionDirs E np pids k1)"
    by (auto simp: RehashStoredEntries_def split: option.splits)
  have "\<forall>p \<in> set (List.product pids kNamespaces). plain_ns (snd p)" using plain_kNamespaces by auto
  note loop = rehash_loop_ok [OF assms(1,2) this l, of full x]
  then have k1: "kinv k1" by blast
  have sub: "table k' pid f = None \<or> table k' pid f = table k1 pid f" for pid f
    using CleanupEmpty_table CleanupOutdated_table [OF k1, of np pids] unfolding k' by metis
  have "unique_home (table k')"
    unfolding unique_home_def
  proof (intro allI impI, elim conjE)
    fix pid pid' f
    assume "table k' pid f \<noteq> None" "table k' pid' f \<noteq> None"
    with sub have "table k1 pid f \<noteq> None" "table k1 pid' f \<noteq> None" by metis+
    moreover have "unique_home (table k1)" using loop None by blast
    ultimately show "pid = pid'" unfolding unique_home_def by blast
  qed
  moreover have "held (table k') full x \<Longrightarrow> held (table k1) full x" using sub unfolding held_def by (metis option.distinct(1))
  moreover have "held (table k1) full x \<Longrightarrow> held (table k) full x" using loop None by blast
  ultimately show ?thesis by blast
qed (use assms in \<open>simp add: RehashStoredEntries_def\<close>)

end

section \<open>The layout file and the directories\<close>

lemma u32_in_u64 [simp]:
  fixes pid :: u32
  shows "(of_nat (unat pid) :: u64) = ucast pid" "\<not> (4294967295 :: u64) < ucast pid"
    "(ucast (ucast pid :: u64) :: u32) = pid" "unat pid < 18446744073709551616"
proof -
  have "unat pid < 2 ^ LENGTH(32)" by (rule unsigned_less)
  then have n: "unat pid < 2 ^ 64" "unat pid \<le> 4294967295" by simp_all
  have "unat (ucast pid :: u64) = take_bit 64 (unat pid)" by (simp add: unsigned_ucast_eq)
  also have "\<dots> = unat pid" using n(1) by (rule take_bit_nat_eq_self)
  finally have up: "unat (ucast pid :: u64) = unat pid" .
  show "(of_nat (unat pid) :: u64) = ucast pid" by simp
  show "\<not> (4294967295 :: u64) < ucast pid" using n by (simp add: word_less_nat_alt up)
  show "unat pid < 18446744073709551616" using n(1) by simp
  show "(ucast (ucast pid :: u64) :: u32) = pid"
    by (rule word_unat_eq_iff [THEN iffD2]) (simp add: unsigned_ucast_eq take_bit_nat_eq_self take_bit_word_eq_self)
qed

lemma partition_of_dir [simp]: "partition_of_dir (partition_dir pid) = Some pid"
proof -
  have "dec_string (unat pid) \<noteq> []" by (subst dec_string.simps) simp
  then show ?thesis
    by (simp add: partition_of_dir_def partition_dir_def std_stoul_dec_string)
qed

lemma partition_dir_inject [simp]: "partition_dir a = partition_dir b \<longleftrightarrow> a = b"
  by (metis option.inject partition_of_dir)

lemma not_in_digits: "\<not> is_digit c \<Longrightarrow> c \<notin> set (dec_string n)"
  using digits_dec_string [of n] by (auto simp: list_all_iff)

lemma LoadLayoutMeta_written:
  assumes "0 < np" "fs_read_meta E k = Some (layout_text np)"
  shows "LoadLayoutMeta E k = Some \<lparr> lm_partition_count = np, lm_routing_schema = kRoutingSchema \<rparr>"
proof -
  let ?n = "dec_string (unat np)"
  have nl: "CHR 0x0A \<notin> set (''partition_count='' @ ?n)" "CHR 0x0A \<notin> set (''routing_schema='' @ kRoutingSchema)"
    using not_in_digits [of "CHR 0x0A" "unat np"] by (simp_all add: is_digit_def kRoutingSchema_def)
  have "layout_text np =
      (''partition_count='' @ ?n) @ CHR 0x0A # (''routing_schema='' @ kRoutingSchema) @ CHR 0x0A # []"
    by (simp add: layout_text_def)
  then have "getlines (layout_text np) = [''partition_count='' @ ?n, ''routing_schema='' @ kRoutingSchema]"
    using nl by (simp only: getlines_line getlines_Nil not_False_eq_True)
  then show ?thesis using assms
    by (simp add: LoadLayoutMeta_def parse_layout_line_def before_first_def std_stoul_dec_string Let_def
        kRoutingSchema_def word_gt_0)
qed

lemma Detect_complete:
  assumes "el_root_path s \<noteq> []" "partition_dir pid \<in> set (fs_dirs E (el_store s))"
  shows "pid \<in> set (DetectExistingPartitions E s)"
  using assms by (force simp: DetectExistingPartitions_def map_filter_def image_iff)

section \<open>Starting\<close>

text \<open>
  The layout file does not lie: when it says that nothing has changed, the entries are where
  the current routing puts them.
\<close>

definition layout_truthful :: "'k el_env \<Rightarrow> ('k \<Rightarrow> u32 \<Rightarrow> kv_row) \<Rightarrow> 'k EloqStoreAdapter \<Rightarrow> bool" where
  "layout_truthful E table s \<longleftrightarrow>
     (\<not> needs_rehash (el_num_partitions s) (LoadLayoutMeta E (el_store s)) (DetectExistingPartitions E s) \<longrightarrow>
      placed E (el_num_partitions s) (table (el_store s)))"

context kv_laws begin

lemma placed_view:
  assumes "placed E np t" "plain_ns ns"
  shows "view_of E np t ns key = Some x \<longleftrightarrow> held t (ComposeKey ns key) x"
  using placedD [OF assms, of _ key x] assms(2) by (auto simp: view_of_def held_def)

lemma rehash_placed:
  assumes "kinv k" "unique_home (table k)" "known_keys (table k)" "0 < np"
    and there: "\<forall>pid. table k pid \<noteq> Map.empty \<longrightarrow> pid \<in> set pids"
    and r: "RehashStoredEntries E np pids k = (k', None)"
  shows "placed E np (table k') \<and> (held (table k') full x \<longleftrightarrow> held (table k) full x)"
proof
  have only: "unique_home (table k')" "held (table k') f y \<Longrightarrow> held (table k) f y" for f y
    using RehashStoredEntries_only [OF assms(1,2) r, of f y] by blast+
  have keep: "held (table k') (ComposeKey ns key) y \<and> table k' (ResolvePartitionId E np ns key) (ComposeKey ns key) = Some y"
    if "ns \<in> set kNamespaces" "held (table k) (ComposeKey ns key) y" for ns key y
    using RehashStoredEntries_kept [OF assms(1,2,4) that(1) there r that(2)] by blast
  have known: "\<exists>ns \<in> set kNamespaces. \<exists>key. f = ComposeKey ns key" if "held (table k) f y" for f y
    using that assms(3) unfolding known_keys_def held_def by blast
  show "placed E np (table k')"
    unfolding placed_def
  proof (intro allI impI, elim conjE)
    fix pid ns key
    assume ns: "plain_ns ns" and "table k' pid (ComposeKey ns key) \<noteq> None"
    then obtain y where y: "table k' pid (ComposeKey ns key) = Some y" by blast
    then have h: "held (table k) (ComposeKey ns key) y" using only(2) unfolding held_def by blast
    then obtain ns' key' where n: "ns' \<in> set kNamespaces" "ComposeKey ns key = ComposeKey ns' key'" using known by blast
    then have eq: "ns' = ns" "key' = key" using iffD1 [OF ComposeKey_iff [OF ns plain_kNamespaces [OF n(1)]] n(2)] by simp_all
    have "table k' (ResolvePartitionId E np ns key) (ComposeKey ns key) = Some y"
      using keep [of ns key y] n(1) h eq by simp
    with unique_homeD [OF only(1) this y] show "pid = ResolvePartitionId E np ns key" by blast
  qed
  show "held (table k') full x \<longleftrightarrow> held (table k) full x"
  proof
    assume h: "held (table k) full x"
    then obtain ns key where "ns \<in> set kNamespaces" "full = ComposeKey ns key" using known by blast
    with keep h show "held (table k') full x" by blast
  qed (rule only(2))
qed

lemma Start_ok:
  assumes "kinv (el_store s)" "unique_home (table (el_store s))" "known_keys (table (el_store s))"
    and "0 < el_num_partitions s" "el_root_path s \<noteq> []"
    and truth: "layout_truthful E table (s\<lparr> el_store := fst (kv_Start (le_kv E) (fs_remove_legacy_marker E (el_store s))) \<rparr>)"
    and r: "el_Start E s = (s', None)"
  shows "el_inv E kinv table s' \<and>
    (plain_ns ns \<longrightarrow> (el_view E table s' ns key = Some x \<longleftrightarrow> held (table (el_store s)) (ComposeKey ns key) x))"
proof -
  let ?np = "el_num_partitions s"
  define k1 where "k1 = fst (kv_Start (le_kv E) (fs_remove_legacy_marker E (el_store s)))"
  define s1 where "s1 = s\<lparr> el_store := k1, el_started := True \<rparr>"
  have s1_sel: "el_num_partitions s1 = ?np" "el_store s1 = k1" "el_started s1" "el_root_path s1 = el_root_path s"
    by (simp_all add: s1_def)
  let ?pids = "DetectExistingPartitions E s1" and ?meta = "LoadLayoutMeta E k1"
  have k1: "kinv k1" "table k1 = table (el_store s)"
    unfolding k1_def using legacy [OF assms(1)] start by auto
  have "snd (kv_Start (le_kv E) (fs_remove_legacy_marker E (el_store s))) = KvNoError"
    using r by (auto simp: el_Start_def Let_def case_prod_beta split: if_splits)
  then have refresh: "RefreshLayoutOnStartup E s1 = (s', None)"
    using r unfolding el_Start_def
    by (auto simp: s1_def k1_def Let_def case_prod_beta prod_eq_iff split: prod.splits option.splits)
  obtain k2 e2 where "(if needs_rehash ?np ?meta ?pids then RehashStoredEntries E ?np ?pids k1 else (k1, None)) = (k2, e2)"
    by fastforce
  then have k2: "(if needs_rehash ?np ?meta ?pids then RehashStoredEntries E ?np ?pids k1 else (k1, None)) = (k2, None)"
    and s': "el_store s' = fst (PersistLayoutMeta E ?np k2)" "el_started s'" "el_num_partitions s' = ?np"
    using refresh
    by (auto simp: RefreshLayoutOnStartup_def Let_def s1_sel case_prod_beta prod_eq_iff split: option.splits)
  have there: "\<forall>pid. table k1 pid \<noteq> Map.empty \<longrightarrow> pid \<in> set ?pids"
    using dirs [OF k1(1)] Detect_complete [of s1] assms(5) by (simp add: s1_sel)
  have "kinv k2 \<and> placed E ?np (table k2) \<and> (\<forall>f y. held (table k2) f y \<longleftrightarrow> held (table (el_store s)) f y)"
  proof (cases "needs_rehash ?np ?meta ?pids")
    case True
    then have rh: "RehashStoredEntries E ?np ?pids k1 = (k2, None)" using k2 by simp
    show ?thesis using rehash_placed [OF k1(1) _ _ assms(4) there rh] Rehash_inv [OF k1(1) _ rh] assms(2,3)
      unfolding k1(2) by blast
  next
    case False
    then have "k2 = k1" using k2 by simp
    moreover have "placed E ?np (table k1)"
      using truth False assms(5) by (simp add: layout_truthful_def s1_def k1_def [symmetric] DetectExistingPartitions_def)
    ultimately show ?thesis using k1 by simp
  qed
  moreover have "kinv (el_store s')" "table (el_store s') = table k2" if "kinv k2"
    using meta [OF that] unfolding s'(1) by (simp_all add: PersistLayoutMeta_def Let_def case_prod_beta)
  ultimately show ?thesis using placed_view [of ?np "table k2" ns key x] s' assms(4)
    by (cases x) (simp add: el_inv_def el_view_def)
qed

end

section \<open>Stores with the eight name spaces only\<close>

text \<open>
  Callers that write to the eight name spaces only, as the memory engine does, keep the store
  in the form that a later start with another number of partitions relies on.
\<close>

definition el_known :: "'k el_env \<Rightarrow> ('k \<Rightarrow> bool) \<Rightarrow> ('k \<Rightarrow> u32 \<Rightarrow> kv_row) \<Rightarrow> 'k EloqStoreAdapter \<Rightarrow> bool" where
  "el_known E kinv table s \<longleftrightarrow> el_inv E kinv table s \<and> known_keys (table (el_store s))"

lemma known_change:
  assumes "known_keys t" and "list_all (\<lambda>w. kv_name_space (we_entry w) \<in> set kNamespaces) ws"
    and "\<And>pid key. \<not> (\<exists>w \<in> set ws. pid = entry_pid E np w \<and> key = entry_key w) \<Longrightarrow> t' pid key = t pid key"
  shows "known_keys t'"
  unfolding known_keys_def
proof (intro allI impI)
  fix pid full
  assume t': "t' pid full \<noteq> None"
  show "\<exists>ns \<in> set kNamespaces. \<exists>key. full = ComposeKey ns key"
  proof (cases "\<exists>w \<in> set ws. pid = entry_pid E np w \<and> full = entry_key w")
    case True
    with assms(2) show ?thesis by (auto simp: list_all_iff)
  next
    case False
    with assms(3) t' have "t pid full \<noteq> None" by metis
    with assms(1) show ?thesis by (simp add: known_keys_def)
  qed
qed

lemma unique_home_placed:
  assumes "placed E np t" "known_keys t" shows "unique_home t"
  unfolding unique_home_def
proof (intro allI impI, elim conjE)
  fix pid pid' full
  assume t: "t pid full \<noteq> None" "t pid' full \<noteq> None"
  with assms(2) obtain ns key where n: "ns \<in> set kNamespaces" "full = ComposeKey ns key" unfolding known_keys_def by blast
  with t placedD [OF assms(1) plain_kNamespaces [OF n(1)]] show "pid = pid'" by (metis not_None_eq)
qed

context kv_laws begin

lemma one_write_known:
  assumes "kinv k" "kv_name_space (we_entry w) \<in> set kNamespaces" "known_keys (table k)"
  shows "known_keys (table (fst (kv_BatchWrite (le_kv E) (entry_pid E np w) [write_data w] k)))"
  by (rule known_change [OF assms(3), of "[w]" E np])
    (use assms(2) in \<open>auto intro!: write_frame [OF assms(1)]\<close>)

lemma Put_known:
  assumes "el_known E kinv table s" "ns \<in> set kNamespaces"
  shows "el_known E kinv table (fst (el_Put E ns key val ts s))"
proof -
  let ?w = "\<lparr> we_op = WUpsert, we_entry = \<lparr> kv_name_space = ns, kv_key = key, kv_value = val, kv_ts = ts \<rparr> \<rparr>"
  have st: "el_started s" and "kinv (el_store s)" using assms(1) by (simp_all add: el_known_def el_inv_def)
  then have "known_keys (table (el_store (fst (el_Put E ns key val ts s))))"
    using one_write_known [of "el_store s" ?w "el_num_partitions s"] assms
    by (simp add: el_known_def el_Put_alt [OF st] Let_def case_prod_beta)
  with Put_keeps [OF _ plain_kNamespaces [OF assms(2)]] assms(1) show ?thesis by (simp add: el_known_def)
qed

lemma Delete_known:
  assumes "el_known E kinv table s" "ns \<in> set kNamespaces"
  shows "el_known E kinv table (fst (el_Delete E ns key ts s))"
proof -
  let ?w = "\<lparr> we_op = WDelete, we_entry = \<lparr> kv_name_space = ns, kv_key = key, kv_value = [], kv_ts = ts \<rparr> \<rparr>"
  have st: "el_started s" and "kinv (el_store s)" using assms(1) by (simp_all add: el_known_def el_inv_def)
  then have "known_keys (table (el_store (fst (el_Delete E ns key ts s))))"
    using one_write_known [of "el_store s" ?w "el_num_partitions s"] assms
    by (simp add: el_known_def el_Delete_alt [OF st] Let_def case_prod_beta)
  with Delete_keeps [OF _ plain_kNamespaces [OF assms(2)]] assms(1) show ?thesis by (simp add: el_known_def)
qed

lemma known_plain:
  "list_all (\<lambda>w. kv_name_space (we_entry w) \<in> set kNamespaces) ws \<Longrightarrow>
   list_all (\<lambda>w. plain_ns (kv_name_space (we_entry w))) ws"
  using plain_kNamespaces by (auto simp: list_all_iff)

lemma BatchWrite_known:
  assumes "el_known E kinv table s" "list_all (\<lambda>w. kv_name_space (we_entry w) \<in> set kNamespaces) entries"
  shows "el_known E kinv table (fst (el_BatchWrite E entries s))"
proof -
  have inv: "el_inv E kinv table s" and ki: "kinv (el_store s)"
    using assms(1) by (simp_all add: el_known_def el_inv_def)
  obtain k' err where w: "write_batches E (fold (add_to_batch E (el_num_partitions s)) entries []) (el_store s) = (k', err)"
    and k': "el_store (fst (el_BatchWrite E entries s)) = k'"
    by (rule BatchWrite_result [OF inv, of entries])
  have "table k' pid key = table (el_store s) pid key"
    if "\<not> (\<exists>w \<in> set entries. pid = entry_pid E (el_num_partitions s) w \<and> key = entry_key w)" for pid key
    using write_batches_frame [OF no_batches_ok [of "el_num_partitions s" entries] ki, of pid key] w that
      pending_fold_keys [of E "el_num_partitions s" entries "[]" pid key] by (metis fst_conv pending_Nil)
  then have "known_keys (table k')"
    using known_change [OF _ assms(2), of "table (el_store s)" E "el_num_partitions s" "table k'"] assms(1)
    by (simp add: el_known_def)
  with BatchWrite_keeps [OF inv known_plain [OF assms(2)]] show ?thesis by (simp add: el_known_def k')
qed

end

sublocale kv_laws \<subseteq> known: store_adapter "eloq_ops E" "el_known E kinv table" "el_view E table"
    "\<lambda>ns. ns \<in> set kNamespaces"
  by unfold_locales
    (simp_all add: Put_known Delete_known BatchWrite_known,
     simp_all add: el_known_def plain_kNamespaces known_plain Put_does Delete_does Get_reads [simplified] Scan_lists
      BatchWrite_does)

sublocale healthy_kv \<subseteq> known: reliable_writes "eloq_ops E" "el_known E kinv table" "el_view E table"
    "\<lambda>ns. ns \<in> set kNamespaces"
  by unfold_locales
    (simp_all add: el_known_def eloq.Put_ok [simplified] eloq.Delete_ok [simplified] eloq.BatchWrite_ok [simplified]
      eloq.Get_ok [simplified])

context healthy_kv begin

lemmas reliable_eloq = eloq.reliable_writes_axioms
lemmas reliable_known = known.reliable_writes_axioms

end

end
