(* ===== verification/Store_Factory.thy ===== *)
theory Store_Factory
  imports Eloq_Layout
begin

text \<open>
  \<open>src/store/store_factory.cpp\<close> and \<open>src/store/io_uring_probe.cpp\<close>: the choice of the backend
  by its name, the adapter that the engine then calls through the interface, and the probe
  that the daemon makes before it opens EloqStore.  The chosen adapter keeps the contract of
  the interface when each of the two does.
\<close>

section \<open>The factory\<close>

datatype 'k store_choice = InMemory InMemoryStoreAdapter | Eloq "'k EloqStoreAdapter"

text \<open>The default backend is a macro of the build, and so is whether EloqStore is linked at all.\<close>

definition effective_config :: "string \<Rightarrow> StoreAdapterConfig \<Rightarrow> StoreAdapterConfig" where
  "effective_config DefaultBackend config =
     (let c = (if sc_backend config = [] then config\<lparr> sc_backend := DefaultBackend \<rparr> else config);
          c = (if sc_root_path c = [] then c\<lparr> sc_root_path := ''.pgmem/store'' \<rparr> else c)
      in if sc_num_partitions c = 0 then c\<lparr> sc_num_partitions := 64 \<rparr> else c)"

definition CreateStoreAdapter :: "'k el_env \<Rightarrow> string \<Rightarrow> bool \<Rightarrow> StoreAdapterConfig \<Rightarrow> nat \<Rightarrow> 'k \<Rightarrow> string + 'k store_choice" where
  "CreateStoreAdapter E DefaultBackend with_eloqstore config file_amplify_factor store =
     (let effective = effective_config DefaultBackend config; backend = map to_lower_char (sc_backend effective) in
      if backend = ''inmemory'' \<or> backend = ''memory'' then Inr (InMemory CreateInMemoryStoreAdapter)
      else if backend = ''eloqstore''
      then (if with_eloqstore then map_sum id Eloq (CreateEloqStoreAdapter E effective file_amplify_factor store)
            else Inl ''built without PGMEM_WITH_ELOQSTORE'')
      else Inl (''unknown backend: '' @ sc_backend effective))"

text \<open>A call through the interface goes to the adapter that was created.\<close>

definition on_choice :: "(InMemoryStoreAdapter \<Rightarrow> InMemoryStoreAdapter \<times> 'a) \<Rightarrow> ('k EloqStoreAdapter \<Rightarrow> 'k EloqStoreAdapter \<times> 'a) \<Rightarrow>
    'k store_choice \<Rightarrow> 'k store_choice \<times> 'a" where
  "on_choice f g s = (case s of InMemory m \<Rightarrow> apfst InMemory (f m) | Eloq k \<Rightarrow> apfst Eloq (g k))"

definition choice_ops :: "InMemoryStoreAdapter store_ops \<Rightarrow> 'k EloqStoreAdapter store_ops \<Rightarrow> 'k store_choice store_ops" where
  "choice_ops M K =
     \<lparr> so_Put = (\<lambda>ns key val ts. on_choice (so_Put M ns key val ts) (so_Put K ns key val ts)),
       so_Get = case_store_choice (so_Get M) (so_Get K),
       so_Delete = (\<lambda>ns key ts. on_choice (so_Delete M ns key ts) (so_Delete K ns key ts)),
       so_Scan = case_store_choice (so_Scan M) (so_Scan K),
       so_BatchWrite = (\<lambda>entries. on_choice (so_BatchWrite M entries) (so_BatchWrite K entries)),
       so_ApproximateUsage = case_store_choice (so_ApproximateUsage M) (so_ApproximateUsage K),
       so_TriggerStoreCompactAsync = on_choice (so_TriggerStoreCompactAsync M) (so_TriggerStoreCompactAsync K) \<rparr>"

section \<open>The probe\<close>

text \<open>
  The error, if io_uring cannot be used: \<open>with_eloqstore\<close> is the switch of the build, \<open>rc\<close> what
  \<open>io_uring_queue_init\<close> returns.
\<close>

definition IsIoUringAvailable :: "bool \<Rightarrow> int \<Rightarrow> (int \<Rightarrow> string) \<Rightarrow> bool \<Rightarrow> string option" where
  "IsIoUringAvailable with_eloqstore rc strerror force_unavailable =
     (if force_unavailable then Some ''forced unavailable by test flag''
      else if with_eloqstore
      then (if rc < 0 then Some (''io_uring_queue_init failed: '' @ strerror (- rc)) else None)
      else Some ''binary built without PGMEM_WITH_ELOQSTORE'')"

section \<open>The contract of the chosen adapter\<close>

lemma choice_ops_sel [simp]:
  "so_Put (choice_ops M K) ns key val ts = on_choice (so_Put M ns key val ts) (so_Put K ns key val ts)"
  "so_Get (choice_ops M K) = case_store_choice (so_Get M) (so_Get K)"
  "so_Delete (choice_ops M K) ns key ts = on_choice (so_Delete M ns key ts) (so_Delete K ns key ts)"
  "so_Scan (choice_ops M K) = case_store_choice (so_Scan M) (so_Scan K)"
  "so_BatchWrite (choice_ops M K) entries = on_choice (so_BatchWrite M entries) (so_BatchWrite K entries)"
  by (simp_all add: choice_ops_def)

lemma on_choice_fst:
  "(\<And>m. minv m \<Longrightarrow> minv (fst (f m))) \<Longrightarrow> (\<And>k. kinv k \<Longrightarrow> kinv (fst (g k))) \<Longrightarrow> case_store_choice minv kinv s \<Longrightarrow>
   case_store_choice minv kinv (fst (on_choice f g s))"
  by (cases s) (simp_all add: on_choice_def)

lemma on_choice_result:
  assumes "on_choice f g s = (s', res)"
    and "\<And>m m'. s = InMemory m \<Longrightarrow> f m = (m', res) \<Longrightarrow> s' = InMemory m' \<Longrightarrow> thesis"
    and "\<And>k k'. s = Eloq k \<Longrightarrow> g k = (k', res) \<Longrightarrow> s' = Eloq k' \<Longrightarrow> thesis"
  shows thesis
proof (cases s)
  case (InMemory m)
  with assms(1,2) show ?thesis by (cases "f m") (simp add: on_choice_def)
next
  case (Eloq k)
  with assms(1,3) show ?thesis by (cases "g k") (simp add: on_choice_def)
qed

lemma choice_contract:
  assumes M: "store_adapter M minv mview nsok" and K: "store_adapter K kinv kview nsok"
  shows "store_adapter (choice_ops M K) (case_store_choice minv kinv) (case_store_choice mview kview) nsok"
proof -
  note m = store_adapter.Put_inv [OF M] store_adapter.Delete_inv [OF M] store_adapter.BatchWrite_inv [OF M]
  note k = store_adapter.Put_inv [OF K] store_adapter.Delete_inv [OF K] store_adapter.BatchWrite_inv [OF K]
  note mv = store_adapter.Put_view [OF M] store_adapter.Delete_view [OF M] store_adapter.BatchWrite_view [OF M]
  note kv = store_adapter.Put_view [OF K] store_adapter.Delete_view [OF K] store_adapter.BatchWrite_view [OF K]
  show ?thesis
  proof
    fix s :: "'a store_choice" and ns key b e out
    assume ns: "nsok ns" and s: "case_store_choice minv kinv s"
    {
      assume "gr_error (so_Get (choice_ops M K) s ns key) = []"
      then show "case_store_choice mview kview s ns key = None \<and> \<not> gr_found (so_Get (choice_ops M K) s ns key) \<or>
        (\<exists>ts. case_store_choice mview kview s ns key = Some (gr_value (so_Get (choice_ops M K) s ns key), ts) \<and>
          gr_found (so_Get (choice_ops M K) s ns key))"
        using ns s store_adapter.Get_view [OF M] store_adapter.Get_view [OF K] by (cases s) simp_all
    next
      assume "so_Scan (choice_ops M K) s ns b e 0 = (out, [])"
      then show "scan_spec (case_store_choice mview kview s) ns b e 0 out"
        using ns s store_adapter.Scan_view [OF M] store_adapter.Scan_view [OF K] by (cases s) simp_all
    }
  qed (simp_all add: on_choice_fst m k, (elim on_choice_result, simp_all add: mv kv)+)
qed

text \<open>So over a well-behaved EloqStore the contract holds whichever adapter is created.\<close>

lemma mem_contract: "store_adapter (mem_ops E) (mem_inv E) (mem_view E) nsok"
proof -
  have all: "list_all (\<lambda>w. True) entries" for entries :: "WriteEntry list" by (simp add: list_all_iff)
  show ?thesis
    by unfold_locales
      ((rule mem.Put_inv [OF TrueI] mem.Put_view [OF TrueI] mem.Delete_inv [OF TrueI] mem.Delete_view [OF TrueI]
          mem.Get_view [OF TrueI] mem.Scan_view [OF TrueI] mem.BatchWrite_inv [OF all] mem.BatchWrite_view [OF all];
        assumption)+)
qed

sublocale kv_laws \<subseteq> chosen: store_adapter "choice_ops (mem_ops M) (eloq_ops E)"
    "case_store_choice (mem_inv M) (el_known E kinv table)" "case_store_choice (mem_view M) (el_view E table)"
    "\<lambda>ns. ns \<in> set kNamespaces"
  for M
  by (rule choice_contract [OF mem_contract known.store_adapter_axioms])

end
