(* ===== verification/Daemon.thy ===== *)
theory Daemon
  imports Daemon_Json Http Store_Factory
begin

text \<open>
  The daemon of \<open>src/apps/pgmemd_main.cpp\<close>: the tools list, the JSON-RPC front of the
  dispatcher, the command line, the three routes, and the start-up sequence of \<open>main\<close>.  The
  handlers work on the engine and the flag \<open>ready\<close>; a value \<open>None\<close> is a call that does not
  return.
\<close>

section \<open>Tools\<close>

definition FindMethodSpec :: "'j json_api \<Rightarrow> 'j \<Rightarrow> string \<Rightarrow> 'j option" where
  "FindMethodSpec J methods method_name = map_of (j_children J methods) method_name"

definition tool_of :: "'j json_api \<Rightarrow> string \<Rightarrow> 'j \<Rightarrow> 'j" where
  "tool_of J method_name spec =
     (let tool = put_fields J [(''name'', JStr method_name), (''description'', JStr (GetStringOr J spec ''summary'' ''''))]
            (j_empty J)
      in j_add_child J ''inputSchema''
           (case j_get_child J spec ''input_schema'' of
              Some schema \<Rightarrow> schema | None \<Rightarrow> object_of J [(''type'', JStr ''object'')]) tool)"

definition tools_of :: "'j json_api \<Rightarrow> 'j \<Rightarrow> 'j" where
  "tools_of J describe =
     (case (j_get_child J describe ''method_names'', j_get_child J describe ''methods'') of
        (Some names, Some methods) \<Rightarrow>
          fold (\<lambda>node tools.
              (let method_name = j_value J (snd node) in
               if \<not> prefix ''memory.'' method_name then tools
               else (case FindMethodSpec J methods method_name of
                       None \<Rightarrow> tools
                     | Some spec \<Rightarrow> j_push_back J '''' (tool_of J method_name spec) tools)))
            (j_children J names) (j_empty J)
      | _ \<Rightarrow> j_empty J)"

definition ToolsListResultJson :: "('s, 'r, 'j) engine_env \<Rightarrow> ('s, 'r) MemoryEngine \<Rightarrow> string \<times> ('s, 'r) MemoryEngine" where
  "ToolsListResultJson V e =
     (let J = ev_json V; (now_ms, e) = NowMs V e;
          tools = tools_of J (Describe J now_ms False)
      in (ToJsonString J (j_add_child J ''tools'' tools (j_empty J)) False, e))"

definition PtreeChildToJson :: "'j json_api \<Rightarrow> 'j \<Rightarrow> string \<Rightarrow> string" where
  "PtreeChildToJson J json path =
     (case j_get_child J json path of Some child \<Rightarrow> ToJsonString J child False | None \<Rightarrow> ''{}'')"

section \<open>JSON-RPC\<close>

definition http_answer :: "int \<Rightarrow> string \<Rightarrow> HttpResponse" where
  "http_answer status body = default_HttpResponse\<lparr> rs_status_code := status, rs_body := body \<rparr>"

text \<open>
  The parameters of a request: absent, not an object, not readable by the property tree, or a
  tree.
\<close>

definition memory_request :: "'j json_api \<Rightarrow> rapid_api \<Rightarrow> string \<Rightarrow> string \<Rightarrow> rj option \<Rightarrow> string \<Rightarrow> string + 'j" where
  "memory_request J P req_id method params what =
     (let mem_req = put_fields J [(''id'', JStr req_id), (''method'', JStr method)] (j_empty J) in
      case params of
        None \<Rightarrow> Inr mem_req
      | Some v \<Rightarrow>
          if \<not> is_object v then Inl (''invalid params: '' @ what @ '' must be object'')
          else (case ParseJson J (c_str (rj_write P v)) of
                  Inl err \<Rightarrow> Inl (''invalid params: failed to parse '' @ what)
                | Inr mem_params \<Rightarrow> Inr (j_add_child J ''params'' mem_params mem_req)))"

definition call_tool :: "('s, 'r, 'j) engine_env \<Rightarrow> rapid_api \<Rightarrow> string \<Rightarrow> rj \<Rightarrow> ('s, 'r) MemoryEngine \<Rightarrow>
    (HttpResponse \<times> ('s, 'r) MemoryEngine) option" where
  "call_tool V P id_literal doc e =
     (let J = ev_json V; fail = (\<lambda>error_code message. Some (http_answer 200 (JsonRpcError id_literal error_code message), e)) in
      case rj_member ''params'' doc of
        None \<Rightarrow> fail (- 32602) ''invalid params: params object is required''
      | Some params \<Rightarrow>
          if \<not> is_object params then fail (- 32602) ''invalid params: params object is required''
          else
            (case rj_member ''name'' params of
               Some (RString name) \<Rightarrow>
                 (let tool_name = c_str name in
                  if \<not> prefix ''memory.'' tool_name then fail (- 32601) ''tool not found''
                  else
                    (case memory_request J P ''tool-call'' tool_name (rj_member ''arguments'' params) ''arguments'' of
                       Inl err \<Rightarrow> fail (- 32602) err
                     | Inr mem_req \<Rightarrow>
                         map_option (\<lambda>(res, e).
                           (let has_error = (j_get_child J res ''error'' \<noteq> None);
                                text_json = PtreeChildToJson J res (if has_error then ''error'' else ''result'')
                            in (http_answer 200 (JsonRpcResult id_literal (ToolCallResultJson text_json has_error)), e)))
                           (Handle V mem_req e)))
             | _ \<Rightarrow> fail (- 32602) ''invalid params: tool name is required''))"

definition call_memory :: "('s, 'r, 'j) engine_env \<Rightarrow> rapid_api \<Rightarrow> string \<Rightarrow> string \<Rightarrow> rj \<Rightarrow> ('s, 'r) MemoryEngine \<Rightarrow>
    (HttpResponse \<times> ('s, 'r) MemoryEngine) option" where
  "call_memory V P id_literal method doc e =
     (let J = ev_json V in
      case memory_request J P ''jsonrpc-call'' method (rj_member ''params'' doc) ''params'' of
        Inl err \<Rightarrow> Some (http_answer 200 (JsonRpcError id_literal (- 32602) err), e)
      | Inr mem_req \<Rightarrow>
          map_option (\<lambda>(res, e).
            (if j_get_child J res ''error'' \<noteq> None
             then http_answer 200 (JsonRpcError id_literal (GetIntOr J res ''error.code'' (- 32603))
                    (GetStringOr J res ''error.message'' ''internal error''))
             else http_answer 200 (JsonRpcResult id_literal
                    (NormalizeMcpResultJson P (PtreeChildToJson J res ''result'') method)), e))
            (Handle V mem_req e))"

text \<open>A status of 0 says that the body is not JSON-RPC; the route then treats it as a plain request.\<close>

definition HandleMcpJsonRpc :: "('s, 'r, 'j) engine_env \<Rightarrow> rapid_api \<Rightarrow> string \<Rightarrow> ('s, 'r) MemoryEngine \<Rightarrow>
    (HttpResponse \<times> ('s, 'r) MemoryEngine) option" where
  "HandleMcpJsonRpc V P body e =
     (case rj_parse P (c_str body) of
        None \<Rightarrow> Some (http_answer 400 ''{\"error\":\"invalid JSON\"}'', e)
      | Some doc \<Rightarrow>
          if \<not> is_object doc then Some (http_answer 400 ''{\"error\":\"invalid JSON\"}'', e)
          else if rj_member ''jsonrpc'' doc = None then Some (http_answer 0 '''', e)
          else
            (let id_literal = JsonRpcIdLiteral P doc;
                 fail = (\<lambda>error_code message. Some (http_answer 200 (JsonRpcError id_literal error_code message), e)) in
             case rj_member ''jsonrpc'' doc of
               Some (RString version) \<Rightarrow>
                 if c_str version \<noteq> ''2.0'' then fail (- 32600) ''invalid request: jsonrpc must be 2.0''
                 else
                   (case rj_member ''method'' doc of
                      Some (RString m) \<Rightarrow>
                        (let method = c_str m in
                         if method = ''notifications/initialized'' then Some (http_answer 204 '''', e)
                         else if method = ''initialize''
                         then Some (http_answer 200 (JsonRpcResult id_literal InitializeResultJson), e)
                         else if method = ''ping'' then Some (http_answer 200 (JsonRpcResult id_literal ''{}''), e)
                         else if method = ''tools/list''
                         then (let (tools_json, e) = ToolsListResultJson V e in
                               Some (http_answer 200 (JsonRpcResult id_literal
                                 (NormalizeMcpResultJson P tools_json ''tools.list'')), e))
                         else if method = ''tools/call'' then call_tool V P id_literal doc e
                         else if prefix ''memory.'' method \<or> method = ''store.compact''
                         then call_memory V P id_literal method doc e
                         else fail (- 32601) ''method not found'')
                    | _ \<Rightarrow> fail (- 32600) ''invalid request: method must be string'')
             | _ \<Rightarrow> fail (- 32600) ''invalid request: jsonrpc must be 2.0''))"

section \<open>Routes\<close>

record ('s, 'r) Service =
  sv_ready :: bool
  sv_engine :: "('s, 'r) MemoryEngine"

definition warming_up :: HttpResponse where
  "warming_up = http_answer 503 ''{\"error\":\"server is warming up\"}''"

definition health_route :: "('s, 'r) Service http_handler" where
  "health_route request sv =
     Some (Inr (if sv_ready sv then http_answer 200 ''{\"status\":\"ok\"}''
                else http_answer 503 ''{\"status\":\"starting\"}''), sv)"

definition mcp_route :: "('s, 'r, 'j) engine_env \<Rightarrow> rapid_api \<Rightarrow> ('s, 'r) Service http_handler" where
  "mcp_route V P request sv =
     (if \<not> sv_ready sv then Some (Inr warming_up, sv)
      else
        (let J = ev_json V in
         case HandleMcpJsonRpc V P (rq_body request) (sv_engine sv) of
           None \<Rightarrow> None
         | Some (rpc_resp, e) \<Rightarrow>
             if rs_status_code rpc_resp \<noteq> 0 then Some (Inr rpc_resp, sv\<lparr> sv_engine := e \<rparr>)
             else
               (case ParseJson J (rq_body request) of
                  Inl parse_error \<Rightarrow>
                    Some (Inr (http_answer 400 (''{\"error\":\"invalid JSON: '' @ parse_error @ ''\"}'')), sv\<lparr> sv_engine := e \<rparr>)
                | Inr json \<Rightarrow>
                    map_option (\<lambda>(res, e).
                      (Inr (http_answer 200 (NormalizeMcpResponseJson P (ToJsonString J res False)
                         (GetStringOr J json ''method'' ''''))), sv\<lparr> sv_engine := e \<rparr>))
                      (Handle V json e))))"

definition describe_route :: "('s, 'r, 'j) engine_env \<Rightarrow> rapid_api \<Rightarrow> ('s, 'r) Service http_handler" where
  "describe_route V P request sv =
     (if \<not> sv_ready sv then Some (Inr warming_up, sv)
      else
        (let J = ev_json V; (now_ms, e) = NowMs V (sv_engine sv) in
         Some (Inr (http_answer 200 (NormalizeMcpResultJson P (ToJsonString J (Describe J now_ms False) False)
           ''memory.describe'')), sv\<lparr> sv_engine := e \<rparr>)))"

definition with_routes :: "('s, 'r, 'j) engine_env \<Rightarrow> rapid_api \<Rightarrow> ('s, 'r) Service HttpServer \<Rightarrow> ('s, 'r) Service HttpServer" where
  "with_routes V P server =
     RegisterRoute ''GET'' ''/mcp/describe'' (describe_route V P)
       (RegisterRoute ''POST'' ''/mcp'' (mcp_route V P)
         (RegisterRoute ''GET'' ''/health'' health_route server))"

section \<open>Command line\<close>

record Args =
  ar_host :: string
  ar_port :: int
  ar_store_backend :: string
  ar_store_root :: string
  ar_core_number :: int
  ar_mem_budget_mb :: u64
  ar_disk_budget_gb :: u64
  ar_test_force_io_uring_unavailable :: bool
  ar_invalid_message :: "string option"

text \<open>The default backend is a macro of the build.\<close>

definition default_Args :: "string \<Rightarrow> Args" where
  "default_Args DefaultStoreBackend =
     \<lparr> ar_host = ''0.0.0.0'', ar_port = 8765, ar_store_backend = DefaultStoreBackend, ar_store_root = ''.pgmem/store'',
       ar_core_number = 4, ar_mem_budget_mb = 512, ar_disk_budget_gb = 20,
       ar_test_force_io_uring_unavailable = False, ar_invalid_message = None \<rparr>"

definition AllowedPgmemdFlags :: string where
  "AllowedPgmemdFlags = ''--host --port --store-backend --store-root --core-number --mem-budget-mb --disk-budget-gb''"

text \<open>
  \<open>std::atoi\<close> gives 0 when there is no number (a number outside \<open>int\<close> is undefined behaviour
  and kept as it is here); \<open>std::strtoull\<close> gives 0 likewise, and the greatest value when the
  number does not fit.
\<close>

definition std_atoi :: "string \<Rightarrow> int" where
  "std_atoi s =
     (let (negative, t) = sign_split (dropWhile is_space s); n = int (dec_val (takeWhile is_digit t))
      in if negative then - n else n)"

definition std_strtoull :: "string \<Rightarrow> u64" where
  "std_strtoull s =
     (let (negative, t) = sign_split (dropWhile is_space s); n = dec_val (takeWhile is_digit t)
      in if 2 ^ 64 \<le> n then - 1 else if negative then - of_nat n else of_nat n)"

text \<open>One round of the loop: the flags that take the next argument, if there is one; \<open>None\<close> for an unknown argument.\<close>

definition flag_with_value :: "string \<Rightarrow> string \<Rightarrow> Args \<Rightarrow> Args option" where
  "flag_with_value key val args =
     (if key = ''--host'' then Some (args\<lparr> ar_host := val \<rparr>)
      else if key = ''--port'' then Some (args\<lparr> ar_port := std_atoi val \<rparr>)
      else if key = ''--store-backend'' then Some (args\<lparr> ar_store_backend := val \<rparr>)
      else if key = ''--store-root'' then Some (args\<lparr> ar_store_root := val \<rparr>)
      else if key = ''--core-number'' then Some (args\<lparr> ar_core_number := std_atoi val \<rparr>)
      else if key = ''--mem-budget-mb'' then Some (args\<lparr> ar_mem_budget_mb := std_strtoull val \<rparr>)
      else if key = ''--disk-budget-gb'' then Some (args\<lparr> ar_disk_budget_gb := std_strtoull val \<rparr>)
      else None)"

definition flag_alone :: "string \<Rightarrow> Args \<Rightarrow> Args option" where
  "flag_alone key args =
     (if key = ''--test-force-io-uring-unavailable'' then Some (args\<lparr> ar_test_force_io_uring_unavailable := True \<rparr>) else None)"

definition unknown_argument :: "string \<Rightarrow> Args \<Rightarrow> Args" where
  "unknown_argument key args =
     args\<lparr> ar_invalid_message := Some (''unknown argument: '' @ key @ ''; allowed flags: '' @ AllowedPgmemdFlags) \<rparr>"

fun ParseArgs :: "Args \<Rightarrow> string list \<Rightarrow> Args" where
  "ParseArgs args [] = args"
| "ParseArgs args [key] = (case flag_alone key args of Some args \<Rightarrow> args | None \<Rightarrow> unknown_argument key args)"
| "ParseArgs args (key # val # rest) =
     (case flag_with_value key val args of
        Some args \<Rightarrow> ParseArgs args rest
      | None \<Rightarrow> (case flag_alone key args of Some args \<Rightarrow> ParseArgs args (val # rest) | None \<Rightarrow> unknown_argument key args))"

section \<open>Start-up\<close>

definition store_config_of :: "Args \<Rightarrow> StoreAdapterConfig" where
  "store_config_of args = default_StoreAdapterConfig
     \<lparr> sc_backend := ar_store_backend args, sc_root_path := ar_store_root args,
       sc_num_threads := word_of_int (ar_core_number args), sc_num_partitions := word_of_int (ar_core_number args),
       sc_mem_budget_mb := ar_mem_budget_mb args, sc_disk_budget_gb := ar_disk_budget_gb args \<rparr>"

definition engine_options_of :: "Args \<Rightarrow> MemoryEngineOptions" where
  "engine_options_of args = default_MemoryEngineOptions
     \<lparr> op_mem_budget_mb := ar_mem_budget_mb args, op_disk_budget_gb := ar_disk_budget_gb args,
       op_effective_backend := map to_lower_char (ar_store_backend args) \<rparr>"

text \<open>
  The surroundings of \<open>main\<close>: the switch of the build and the two system calls of the probe,
  the in-memory store's and EloqStore's library with what is on disk, the start of the brpc
  server, and the flags of brpc.  The outcome is an exit code with the message, or a server
  that is running and ready.
\<close>

record 'k surroundings =
  su_with_eloqstore :: bool
  su_uring_queue_init :: int
  su_strerror :: "int \<Rightarrow> string"
  su_mem :: mem_env
  su_eloq :: "'k el_env"
  su_file_amplify_factor :: nat
  su_disk :: 'k
  su_brpc_start :: "string \<Rightarrow> int \<Rightarrow> string option"
  su_flags :: brpc_flags

text \<open>The engine runs over the adapter that the factory made and a hybrid retriever; JSON, hash and clock are those of \<open>V\<close>.\<close>

definition service_env :: "('s, 'r, 'j) engine_env \<Rightarrow> 'k surroundings \<Rightarrow>
    ('k store_choice, LshVectorIndex HybridRetriever, 'j) engine_env" where
  "service_env V S =
     \<lparr> ev_store = choice_ops (mem_ops (su_mem S)) (eloq_ops (su_eloq S)), ev_retriever = ret_ops, ev_json = ev_json V,
       ev_hash = ev_hash V, ev_float_format = ev_float_format V, ev_now = ev_now V, ev_elapsed_ms = ev_elapsed_ms V,
       ev_stage = ev_stage V \<rparr>"

type_synonym 'k service = "('k store_choice, LshVectorIndex HybridRetriever) Service"

type_synonym 'k outcome = "(int \<times> string) + ('k service HttpServer \<times> 'k service)"

definition open_store :: "'k surroundings \<Rightarrow> string \<Rightarrow> Args \<Rightarrow> (int \<times> string) + 'k store_choice" where
  "open_store S DefaultStoreBackend args =
     (let store_config = store_config_of args;
          probe = (if map to_lower_char (sc_backend store_config) = ''eloqstore''
                   then IsIoUringAvailable (su_with_eloqstore S) (su_uring_queue_init S) (su_strerror S)
                     (ar_test_force_io_uring_unavailable args)
                   else None)
      in case probe of
           Some probe_error \<Rightarrow> Inl (1, ''[pgmemd] io_uring unavailable for eloqstore backend: '' @ probe_error)
         | None \<Rightarrow>
             (case CreateStoreAdapter (su_eloq S) DefaultStoreBackend (su_with_eloqstore S) store_config (su_file_amplify_factor S) (su_disk S) of
                Inl err \<Rightarrow> Inl (1, ''[pgmemd] failed to initialize backend '' @ [CHR 0x27] @ sc_backend store_config @ [CHR 0x27] @ '': '' @ err)
              | Inr store \<Rightarrow> Inr store))"

definition serve_store :: "('s, 'r, 'j) engine_env \<Rightarrow> rapid_api \<Rightarrow> 'k surroundings \<Rightarrow> Args \<Rightarrow> BrpcRuntimeState \<Rightarrow> 'k store_choice \<Rightarrow>
    'k outcome option" where
  "serve_store V P S args runtime_state store =
     (let retriever = CreateHybridRetriever (ev_hash V);
          service = \<lparr> sv_ready = False, sv_engine = new_MemoryEngine store retriever ''local'' (engine_options_of args) \<rparr>;
          server = with_routes (service_env V S) P
            (new_HttpServer (ar_host args) (ar_port args) (br_resolved_core_number runtime_state))
      in case server_Start (su_brpc_start S) server of
           (server, Some err) \<Rightarrow> Some (Inl (1, ''[pgmemd] start failed: '' @ err))
         | (server, None) \<Rightarrow>
             (case engine_Warmup (service_env V S) (sv_engine service) of
                None \<Rightarrow> None
              | Some (Some err, e) \<Rightarrow> Some (Inl (1, ''[pgmemd] warmup failed: '' @ err))
              | Some (None, e) \<Rightarrow> Some (Inr (server, \<lparr> sv_ready = True, sv_engine = e \<rparr>))))"

definition pgmemd_main :: "('s, 'r, 'j) engine_env \<Rightarrow> rapid_api \<Rightarrow> 'k surroundings \<Rightarrow> string \<Rightarrow> string list \<Rightarrow>
    'k outcome option" where
  "pgmemd_main V P S DefaultStoreBackend argv =
     (let args = ParseArgs (default_Args DefaultStoreBackend) argv in
      case ar_invalid_message args of
        Some message \<Rightarrow> Some (Inl (2, ''[pgmemd] invalid arguments: '' @ message))
      | None \<Rightarrow>
          (case fst (ApplyBrpcRuntimeOptions \<lparr> bo_core_number = ar_core_number args, bo_event_dispatcher_num = 0 \<rparr> (su_flags S)) of
             Inl err \<Rightarrow> Some (Inl (2, ''[pgmemd] failed to apply brpc runtime options: '' @ err))
           | Inr runtime_state \<Rightarrow>
               if 65535 < ar_core_number args
               then Some (Inl (2, ''[pgmemd] core_number is too large for eloqstore num_threads''))
               else (case open_store S DefaultStoreBackend args of
                       Inl failure \<Rightarrow> Some (Inl failure)
                     | Inr store \<Rightarrow> serve_store V P S args runtime_state store)))"

end
