(* ===== verification/Installer.thy ===== *)
theory Installer
  imports Daemon
begin

text \<open>
  The installer: \<open>src/install/workspace_config.cpp\<close> writes, enables and removes the systemd
  unit of the daemon, \<open>src/apps/pgmem_install_main.cpp\<close> parses the command line and checks the
  health of the service.  The file system, the processes and the HTTP calls are parameters.
\<close>

section \<open>Paths\<close>

text \<open>\<open>operator/\<close> of \<open>std::filesystem::path\<close> on POSIX.\<close>

definition is_absolute :: "string \<Rightarrow> bool" where
  "is_absolute p \<longleftrightarrow> p \<noteq> [] \<and> hd p = CHR ''/''"

definition path_append :: "string \<Rightarrow> string \<Rightarrow> string" where
  "path_append a b =
     (if is_absolute b then b else if a = [] \<or> last a = CHR ''/'' then a @ b else a @ ''/'' @ b)"

definition UserSystemdPath :: "string option \<Rightarrow> string" where
  "UserSystemdPath HOME =
     (case HOME of
        None \<Rightarrow> ''''
      | Some home \<Rightarrow>
          path_append (path_append (path_append (path_append home ''.config'') ''systemd'') ''user'') ''pgmemd.service'')"

definition ResolveStoreRoot :: "string option \<Rightarrow> string \<Rightarrow> string" where
  "ResolveStoreRoot HOME store_root =
     (let path = (if store_root = '''' then ''.pgmem/store'' else store_root) in
      if is_absolute path then path
      else (case HOME of None \<Rightarrow> path | Some home \<Rightarrow> path_append home path))"

section \<open>The unit\<close>

record InstallOptions =
  io_pgmemd_bin :: string
  io_pgmemd_extra_args :: string
  io_store_root :: string
  io_core_number :: int
  io_manage_systemd :: bool

fun join_words :: "string list \<Rightarrow> string" where
  "join_words [] = []"
| "join_words [w] = w"
| "join_words (w # ws) = w @ '' '' @ join_words ws"

text \<open>\<open>fmt\<close> is the stream format of doubles.\<close>

definition exec_words :: "(real \<Rightarrow> string) \<Rightarrow> InstallOptions \<Rightarrow> string \<Rightarrow> string list" where
  "exec_words fmt options store_root =
     [io_pgmemd_bin options, ''--host'', ''0.0.0.0'', ''--port'', ''8765'', ''--store-backend'', ''eloqstore'',
      ''--core-number'', int_string (io_core_number options), ''--mem-budget-mb'', ''512'', ''--disk-budget-gb'', ''20'',
      ''--gc-high-watermark'', fmt 0.90, ''--gc-low-watermark'', fmt 0.75, ''--gc-batch-size'', ''256'',
      ''--max-record-bytes'', ''131072'', ''--enable-tombstone-gc'', ''true'', ''--store-root'', store_root] @
     (if io_pgmemd_extra_args options = '''' then [] else [io_pgmemd_extra_args options])"

definition exec_line :: "(real \<Rightarrow> string) \<Rightarrow> InstallOptions \<Rightarrow> string \<Rightarrow> string" where
  "exec_line fmt options store_root = join_words (exec_words fmt options store_root)"

definition unit_text :: "(real \<Rightarrow> string) \<Rightarrow> InstallOptions \<Rightarrow> string \<Rightarrow> string" where
  "unit_text fmt options store_root = concat (map (\<lambda>l. l @ [CHR 0x0A])
     [''[Unit]'', ''Description=Poorguy Memory Daemon'', ''After=network.target'', '''', ''[Service]'', ''Type=simple'',
      ''ExecStart='' @ exec_line fmt options store_root, ''Restart=on-failure'', ''RestartSec=2'', '''', ''[Install]'',
      ''WantedBy=default.target''])"

section \<open>Effects\<close>

text \<open>
  The world of the installer: opening a file and truncating it (\<open>None\<close> when it cannot be
  opened), appending what a stream passes on, removing a file (with an error text), and
  running a shell command, which gives its output and how it ended, or nothing when no pipe
  could be opened.  A stream keeps the last \<open>os_buffered\<close> bytes of a text until it is
  destroyed.
\<close>

datatype wait_status = WaitFailed | Exited int | Signaled

record 'w os_api =
  os_home :: "string option"
  os_create_directories :: "string \<Rightarrow> 'w \<Rightarrow> 'w"
  os_open :: "string \<Rightarrow> 'w \<Rightarrow> 'w option"
  os_append :: "string \<Rightarrow> string \<Rightarrow> 'w \<Rightarrow> 'w"
  os_buffered :: "string \<Rightarrow> nat"
  os_remove :: "string \<Rightarrow> 'w \<Rightarrow> string option \<times> 'w"
  os_popen :: "string \<Rightarrow> 'w \<Rightarrow> (string \<times> wait_status) option \<times> 'w"

definition RunCommand :: "'w os_api \<Rightarrow> string \<Rightarrow> 'w \<Rightarrow> (string \<times> int) option \<times> 'w" where
  "RunCommand Os cmd w =
     (case os_popen Os (cmd @ '' 2>&1'') w of
        (None, w) \<Rightarrow> (None, w)
      | (Some (data, status), w) \<Rightarrow>
          (Some (data, case status of WaitFailed \<Rightarrow> 1 | Exited n \<Rightarrow> n | Signaled \<Rightarrow> 1), w))"

definition parent_path :: "string \<Rightarrow> string" where
  "parent_path p = rev (drop 1 (dropWhile (\<lambda>c. c \<noteq> CHR ''/'') (rev p)))"

text \<open>
  The first component of the result is the error, if there is one.  The stream of the unit is
  a local variable of the function: it is destroyed on return, after the commands.
\<close>

definition WriteSystemdUnit :: "'w os_api \<Rightarrow> (real \<Rightarrow> string) \<Rightarrow> InstallOptions \<Rightarrow> 'w \<Rightarrow> string option \<times> 'w" where
  "WriteSystemdUnit Os fmt options w =
     (let unit_path = UserSystemdPath (os_home Os) in
      if unit_path = '''' then (Some ''HOME environment variable is not set'', w)
      else
        (case os_open Os unit_path (os_create_directories Os (parent_path unit_path) w) of
           None \<Rightarrow> (Some (''failed to open '' @ unit_path), os_create_directories Os (parent_path unit_path) w)
         | Some w \<Rightarrow>
             (let contents = unit_text fmt options (ResolveStoreRoot (os_home Os) (io_store_root options));
                  passed = length contents - os_buffered Os contents;
                  w = os_append Os unit_path (take passed contents) w;
                  close = os_append Os unit_path (drop passed contents)
              in case RunCommand Os ''systemctl --user daemon-reload'' w of
                   (None, w) \<Rightarrow> (Some ''failed to run systemctl --user daemon-reload'', close w)
                 | (Some _, w) \<Rightarrow> (None, close (snd (RunCommand Os ''systemctl --user enable --now pgmemd.service'' w))))))"

definition RemoveSystemdUnit :: "'w os_api \<Rightarrow> 'w \<Rightarrow> string option \<times> 'w" where
  "RemoveSystemdUnit Os w =
     (let w = snd (RunCommand Os ''systemctl --user disable --now pgmemd.service'' w);
          unit_path = UserSystemdPath (os_home Os);
          (err, w) = (if unit_path = '''' then (None, w) else os_remove Os unit_path w)
      in case err of
           Some message \<Rightarrow> (Some (''failed to remove systemd unit: '' @ message), w)
         | None \<Rightarrow> (None, snd (RunCommand Os ''systemctl --user daemon-reload'' w)))"

definition Install :: "'w os_api \<Rightarrow> (real \<Rightarrow> string) \<Rightarrow> InstallOptions \<Rightarrow> 'w \<Rightarrow> string option \<times> 'w" where
  "Install Os fmt options w = (if \<not> io_manage_systemd options then (None, w) else WriteSystemdUnit Os fmt options w)"

definition Uninstall :: "'w os_api \<Rightarrow> InstallOptions \<Rightarrow> 'w \<Rightarrow> string option \<times> 'w" where
  "Uninstall Os options w = (if \<not> io_manage_systemd options then (None, w) else RemoveSystemdUnit Os w)"

section \<open>Command line\<close>

record InstallArgs =
  ia_uninstall :: bool
  ia_manage_systemd :: bool
  ia_show_help :: bool
  ia_pgmemd_bin :: string
  ia_pgmemd_extra_args :: string
  ia_store_root :: string
  ia_core_number :: int
  ia_invalid_message :: "string option"

definition default_InstallArgs :: InstallArgs where
  "default_InstallArgs =
     \<lparr> ia_uninstall = False, ia_manage_systemd = True, ia_show_help = False, ia_pgmemd_bin = ''pgmemd'',
       ia_pgmemd_extra_args = '''', ia_store_root = ''.pgmem/store'', ia_core_number = 4, ia_invalid_message = None \<rparr>"

definition MarkRemovedFlag :: "string \<Rightarrow> string \<Rightarrow> InstallArgs \<Rightarrow> InstallArgs" where
  "MarkRemovedFlag key guidance args =
     args\<lparr> ia_invalid_message := Some (''flag '' @ key @ '' is removed; '' @ guidance) \<rparr>"

definition removed_flags :: "string list" where
  "removed_flags = [''--store-partitions'', ''--allow-inmemory-fallback'', ''--event-dispatcher-num'',
     ''--write-ack-mode'', ''--volatile-flush-interval-ms'', ''--volatile-max-pending-ops'',
     ''--shutdown-drain-timeout-ms'', ''--store-threads'']"

definition install_switch :: "string \<Rightarrow> InstallArgs \<Rightarrow> InstallArgs option" where
  "install_switch key args =
     (if key = ''--help'' \<or> key = ''-h'' then Some (args\<lparr> ia_show_help := True \<rparr>)
      else if key = ''--uninstall'' then Some (args\<lparr> ia_uninstall := True \<rparr>)
      else if key = ''--no-systemd'' then Some (args\<lparr> ia_manage_systemd := False \<rparr>)
      else None)"

definition install_option :: "string \<Rightarrow> string \<Rightarrow> InstallArgs \<Rightarrow> InstallArgs option" where
  "install_option key val args =
     (if key = ''--pgmemd-bin'' then Some (args\<lparr> ia_pgmemd_bin := val \<rparr>)
      else if key = ''--pgmemd-extra-args'' then Some (args\<lparr> ia_pgmemd_extra_args := val \<rparr>)
      else if key = ''--store-root'' then Some (args\<lparr> ia_store_root := val \<rparr>)
      else if key = ''--core-number'' then Some (args\<lparr> ia_core_number := std_atoi val \<rparr>)
      else None)"

definition removed_flag :: "string \<Rightarrow> InstallArgs \<Rightarrow> InstallArgs option" where
  "removed_flag key args =
     (if key = ''--enable-io-uring''
      then Some (MarkRemovedFlag key ''network io_uring is hard-wired to true and not configurable'' args)
      else if key \<in> set removed_flags
      then Some (MarkRemovedFlag key ''local mode keeps these options internal-only'' args)
      else None)"

definition unknown_install_argument :: "string \<Rightarrow> InstallArgs \<Rightarrow> InstallArgs" where
  "unknown_install_argument key args = args\<lparr> ia_invalid_message := Some (''unknown argument: '' @ key) \<rparr>"

text \<open>A removed flag swallows the next argument; an unknown one does not end the loop.\<close>

fun InstallParseArgs :: "InstallArgs \<Rightarrow> string list \<Rightarrow> InstallArgs" where
  "InstallParseArgs args [] = args"
| "InstallParseArgs args [key] =
     (case install_switch key args of
        Some args \<Rightarrow> args
      | None \<Rightarrow> (case removed_flag key args of Some args \<Rightarrow> args | None \<Rightarrow> unknown_install_argument key args))"
| "InstallParseArgs args (key # val # rest) =
     (case install_switch key args of
        Some args \<Rightarrow> InstallParseArgs args (val # rest)
      | None \<Rightarrow>
          (case install_option key val args of
             Some args \<Rightarrow> InstallParseArgs args rest
           | None \<Rightarrow>
               (case removed_flag key args of
                  Some args \<Rightarrow> InstallParseArgs args rest
                | None \<Rightarrow> InstallParseArgs (unknown_install_argument key args) (val # rest))))"

text \<open>Five attempts; the \<open>i\<close>-th one meets the network as \<open>B i\<close>.\<close>

fun health_attempts :: "(nat \<Rightarrow> 'c brpc_client) \<Rightarrow> nat list \<Rightarrow> (string, 'c) umap \<Rightarrow> bool" where
  "health_attempts B [] cache = False"
| "health_attempts B (i # rounds) cache =
     (let (resp, cache) = client_Get (B i) ''127.0.0.1'' 8765 ''/health'' 1000 cache in
      if hc_ok resp then True else health_attempts B rounds cache)"

definition HealthCheck :: "(nat \<Rightarrow> 'c brpc_client) \<Rightarrow> bool" where
  "HealthCheck B = health_attempts B [0..<5] []"

text \<open>The exit code of the installer.\<close>

definition install_main :: "'w os_api \<Rightarrow> (real \<Rightarrow> string) \<Rightarrow> (nat \<Rightarrow> 'c brpc_client) \<Rightarrow> string list \<Rightarrow> 'w \<Rightarrow> int \<times> 'w" where
  "install_main Os fmt B argv w =
     (let args = InstallParseArgs default_InstallArgs argv in
      if ia_invalid_message args \<noteq> None then (2, w)
      else if ia_show_help args then (0, w)
      else
        (let options = \<lparr> io_pgmemd_bin = ia_pgmemd_bin args, io_pgmemd_extra_args = ia_pgmemd_extra_args args,
               io_store_root = ia_store_root args, io_core_number = ia_core_number args,
               io_manage_systemd = ia_manage_systemd args \<rparr>
         in if ia_uninstall args
            then (case Uninstall Os options w of (Some _, w) \<Rightarrow> (1, w) | (None, w) \<Rightarrow> (0, w))
            else (case Install Os fmt options w of
                    (Some _, w) \<Rightarrow> (1, w)
                  | (None, w) \<Rightarrow> if io_manage_systemd options \<and> \<not> HealthCheck B then (2, w) else (0, w))))"

section \<open>The words of the command line\<close>

lemma read_word_length: "read_word s = Some (w, rest) \<Longrightarrow> length rest < length s"
proof -
  assume r: "read_word s = Some (w, rest)"
  let ?t = "dropWhile is_space s"
  from r have w: "w = takeWhile (\<lambda>c. \<not> is_space c) ?t" "w \<noteq> []" "rest = drop (length w) ?t"
    by (auto simp: read_word_def Let_def split: if_splits)
  have "length w \<le> length ?t" unfolding w(1) by (rule length_takeWhile_le)
  then have "length rest < length ?t" using w(2,3) by (cases w) auto
  also have "\<dots> \<le> length s" by (rule length_dropWhile_le)
  finally show ?thesis .
qed

text \<open>A command line is split at white space.\<close>

function split_words :: "string \<Rightarrow> string list" where
  "split_words s = (case read_word s of None \<Rightarrow> [] | Some (w, rest) \<Rightarrow> w # split_words rest)"
  by pat_completeness auto
termination
  by (relation "measure length") (auto dest: read_word_length)

declare split_words.simps [simp del]

lemma split_words_space: "split_words (CHR '' '' # s) = split_words s"
  by (subst (1 2) split_words.simps) (simp add: read_word_space)

lemma split_words_word: "word_ok w \<Longrightarrow> split_words (w @ CHR '' '' # s) = w # split_words s"
  using read_word_word [of w "CHR '' '' # s"] split_words.simps [of "w @ CHR '' '' # s"]
  by (simp add: split_words_space)

lemma word_ok_dec: "word_ok (dec_string n)"
proof -
  have "dec_string n \<noteq> []" by (subst dec_string.simps) simp
  then show ?thesis using digits_dec_string [of n] by (auto simp: word_ok_def list_all_iff is_digit_def is_space_def)
qed

lemma word_ok_int: "word_ok (int_string n)"
  using word_ok_dec by (auto simp: int_string_def word_ok_def is_space_def)

lemma join_words_Cons: "ws \<noteq> [] \<Longrightarrow> join_words (w # ws) = w @ CHR '' '' # join_words ws"
  by (cases ws) simp_all

text \<open>The known flags of the unit are read, then comes one that the daemon does not know.\<close>

lemma unit_words:
  assumes "word_ok (io_pgmemd_bin options)"
  shows "\<exists>more. split_words (exec_line fmt options store_root) =
    [io_pgmemd_bin options, ''--host'', ''0.0.0.0'', ''--port'', ''8765'', ''--store-backend'', ''eloqstore'',
     ''--core-number'', int_string (io_core_number options), ''--mem-budget-mb'', ''512'', ''--disk-budget-gb'', ''20'',
     ''--gc-high-watermark''] @ more"
proof -
  have lit: "word_ok ''--host''" "word_ok ''0.0.0.0''" "word_ok ''--port''" "word_ok ''8765''" "word_ok ''--store-backend''"
    "word_ok ''eloqstore''" "word_ok ''--core-number''" "word_ok ''--mem-budget-mb''" "word_ok ''512''"
    "word_ok ''--disk-budget-gb''" "word_ok ''20''" "word_ok ''--gc-high-watermark''"
    by (simp_all add: word_ok_def is_space_def)
  note step = split_words_word [OF lit(1), simplified] split_words_word [OF lit(2), simplified]
    split_words_word [OF lit(3), simplified] split_words_word [OF lit(4), simplified]
    split_words_word [OF lit(5), simplified] split_words_word [OF lit(6), simplified]
    split_words_word [OF lit(7), simplified] split_words_word [OF lit(8), simplified]
    split_words_word [OF lit(9), simplified] split_words_word [OF lit(10), simplified]
    split_words_word [OF lit(11), simplified] split_words_word [OF lit(12), simplified]
  show ?thesis
    by (intro exI) (simp add: exec_line_def exec_words_def join_words_Cons split_words_word [OF assms] step
        split_words_word [OF word_ok_int])
qed

end
