(* ===== verification/Mcp_Contract.thy ===== *)
theory Mcp_Contract
  imports Mcp_Dispatcher
begin

text \<open>
  The contract of the dispatcher: what counts as an answer, how a client writes a request and
  reads a hit, what the description promises, and the lemmas that the handlers keep to it.
\<close>

section \<open>Answers\<close>

definition handled_methods :: "string list" where
  "handled_methods = [''memory.write'', ''memory.query'', ''memory.pin'', ''memory.stats'', ''memory.compact'',
     ''store.compact'', ''memory.describe'']"

text \<open>The response has the id of the request and either a result or an error with its code.\<close>

definition answers :: "'j json_api \<Rightarrow> 'j \<Rightarrow> 'j \<Rightarrow> bool" where
  "answers J request response \<longleftrightarrow>
     (let method = GetStringOr J request ''method'' '''' in
      j_get_child J response ''id'' = Some (value_or (j_get_child J request ''id'') (j_empty J)) \<and>
      (case (j_get_child J response ''result'', j_get_child J response ''error'') of
         (Some _, None) \<Rightarrow> method \<in> set handled_methods
       | (None, Some err) \<Rightarrow>
           (method = ''store.compact'' \<and> j_get_int J err ''code'' = Some (- 32001)) \<or>
           (method \<notin> set handled_methods \<and> j_get_int J err ''code'' = Some (- 32601))
       | _ \<Rightarrow> False))"

context json_laws begin

lemma response_children:
  "j_get_child J (j_add_child J ''result'' r (j_add_child J ''id'' i (j_empty J))) ''id'' = Some i"
  "j_get_child J (j_add_child J ''result'' r (j_add_child J ''id'' i (j_empty J))) ''result'' = Some r"
  "j_get_child J (j_add_child J ''result'' r (j_add_child J ''id'' i (j_empty J))) ''error'' = None"
  "j_get_child J (j_add_child J ''error'' r (j_add_child J ''id'' i (j_empty J))) ''id'' = Some i"
  "j_get_child J (j_add_child J ''error'' r (j_add_child J ''id'' i (j_empty J))) ''error'' = Some r"
  "j_get_child J (j_add_child J ''error'' r (j_add_child J ''id'' i (j_empty J))) ''result'' = None"
  using get_child_empty [of "''id''"] get_child_empty [of "''result''"] get_child_empty [of "''error''"]
  by (simp_all add: get_child_add get_add_child_other)

lemma error_response_eq:
  "error_response J c m i response =
     Some (j_add_child J ''error'' (object_of J [(''code'', JInt c), (''message'', JStr m)]) response)"
  by (simp add: error_response_def Error_def response_children)

lemma error_code: "- (2 ^ 31) \<le> c \<Longrightarrow> c < 2 ^ 31 \<Longrightarrow>
   j_get_int J (object_of J [(''code'', JInt c), (''message'', JStr m)]) ''code'' = Some c"
  by (simp add: object_of_def get_put_other get_int_put)

end

text \<open>
  What a handler computes, as one function of the method: \<open>None\<close> for a method that is not
  handled.
\<close>

definition handler_for :: "('s, 'r, 'j) engine_env \<Rightarrow> 'j \<Rightarrow> string \<Rightarrow> ('s, 'r, 'j) handler option" where
  "handler_for V params = map_of
     [(''memory.write'', HandleWrite V params), (''memory.query'', HandleQuery V params),
      (''memory.pin'', HandlePin V params), (''memory.stats'', HandleStats V params),
      (''memory.compact'', HandleCompact V params), (''store.compact'', HandleStoreCompact V params),
      (''memory.describe'', HandleDescribe V params)]"

lemma handler_for_dom: "handler_for V params m \<noteq> None \<longleftrightarrow> m \<in> set handled_methods"
  by (auto simp: handler_for_def handled_methods_def split: if_splits)

lemma Handle_by_method:
  "Handle V request e =
     (let J = ev_json V; method = GetStringOr J request ''method'' '''';
          req_id = value_or (j_get_child J request ''id'') (j_empty J);
          params = value_or (j_get_child J request ''params'') (j_empty J);
          response = j_add_child J ''id'' req_id (j_empty J)
      in case handler_for V params method of
           None \<Rightarrow> map_option (\<lambda>r. (r, e)) (error_response J (- 32601) ''method not found'' req_id response)
         | Some h \<Rightarrow>
             (case h e of
                None \<Rightarrow> None
              | Some (result, e) \<Rightarrow>
                  if method = ''store.compact'' \<and> GetBoolOr J result ''busy'' False
                  then map_option (\<lambda>r. (r, e)) (error_response J (- 32001) ''store compact is busy'' req_id response)
                  else Some (j_add_child J ''result'' result response, e)))"
  by (auto simp: Handle_def handler_for_def Let_def split: option.splits)

context json_laws begin

lemma Handle_answers:
  assumes "ev_json V = J" and "Handle V request e = Some (response, e')"
  shows "answers J request response"
proof -
  define mname req_id params where "mname = GetStringOr J request ''method'' ''''"
    and "req_id = value_or (j_get_child J request ''id'') (j_empty J)"
    and "params = value_or (j_get_child J request ''params'') (j_empty J)"
  note H = assms(2) [unfolded Handle_by_method Let_def assms(1) error_response_eq,
      folded mname_def req_id_def params_def]
  show ?thesis
  proof (cases "handler_for V params mname")
    case None
    then have "mname \<notin> set handled_methods" using handler_for_dom [of V params mname] by simp
    with H None show ?thesis
      by (auto simp: answers_def response_children error_code Let_def simp flip: mname_def req_id_def)
  next
    case (Some h)
    then have "mname \<in> set handled_methods" using handler_for_dom [of V params mname] by simp
    with H Some show ?thesis
      by (auto simp: answers_def response_children error_code Let_def simp flip: mname_def req_id_def
          split: option.splits if_splits)
  qed
qed

end

text \<open>The handlers return and keep whatever every engine call keeps.\<close>

context resident_engine begin

lemma handler_returns:
  assumes "resident_ok V e" and "handler_for V params m = Some h"
  shows "\<exists>result e'. h e = Some (result, e') \<and> resident_ok V e'"
proof -
  have wr: "\<exists>result e'. HandleWrite V params e = Some (result, e') \<and> resident_ok V e'"
    using acct.I_Write [OF assms(1), of "read_write_input (ev_json V) params"] by (auto simp: HandleWrite_def)
  have pin: "\<exists>result e'. HandlePin V params e = Some (result, e') \<and> resident_ok V e'"
    using acct.I_Pin [OF assms(1), of "GetStringOr (ev_json V) params ''workspace_id'' ''''"
        "GetStringOr (ev_json V) params ''memory_id'' ''''" "GetBoolOr (ev_json V) params ''pin'' True"]
    by (auto simp: HandlePin_def Let_def split: sum.splits)
  have call: "resident_ok V e'" if "run_call V c e = Some e'" "call_ok (\<lambda>_. True) V c e" for c e'
    using acct.I_run_call [OF assms(1) that(2)] that(1) by simp
  have query: "\<exists>result e'. HandleQuery V params e = Some (result, e') \<and> resident_ok V e'"
    using acct.I_Query [OF assms(1)] by (simp add: HandleQuery_def case_prod_beta)
  have compact: "\<exists>result e'. HandleCompact V params e = Some (result, e') \<and> resident_ok V e'"
    using call [of "CallCompact (GetStringOr (ev_json V) params ''workspace_id'' '''')"]
    by (simp add: HandleCompact_def case_prod_beta Let_def call_ok_def)
  have store: "\<exists>result e'. HandleStoreCompact V params e = Some (result, e') \<and> resident_ok V e'"
    using call [of CallStoreCompact] by (simp add: HandleStoreCompact_def case_prod_beta call_ok_def)
  have describe: "\<exists>result e'. HandleDescribe V params e = Some (result, e') \<and> resident_ok V e'"
    using acct.I_clock [OF assms(1) clock_step_NowMs [of e V]] by (simp add: HandleDescribe_def case_prod_beta)
  have stats: "\<exists>result e'. HandleStats V params e = Some (result, e') \<and> resident_ok V e'"
    using assms(1) by (simp add: HandleStats_def Let_def)
  show ?thesis
    using assms(2) wr query pin stats compact store describe
    by (auto simp: handler_for_def split: if_splits)
qed

end

lemma Handle_returns:
  assumes "json_laws (ev_json V) rnd readable" and "resident_ok (over_hybrid V) e"
  shows "\<exists>response e'. Handle (over_hybrid V) request e = Some (response, e') \<and>
    resident_ok (over_hybrid V) e' \<and> answers (ev_json V) request response"
proof -
  let ?V = "over_hybrid V" and ?J = "ev_json V"
  let ?params = "value_or (j_get_child ?J request ''params'') (j_empty ?J)"
  let ?mname = "GetStringOr ?J request ''method'' ''''"
  have "\<exists>response e'. Handle ?V request e = Some (response, e') \<and> resident_ok ?V e'"
  proof (cases "handler_for ?V ?params ?mname")
    case None
    with assms(2) show ?thesis
      by (simp add: Handle_by_method Let_def json_laws.error_response_eq [OF assms(1)])
  next
    case (Some h)
    from hyb.handler_returns [OF assms(2) Some] obtain result e' where "h e = Some (result, e')" "resident_ok ?V e'"
      by blast
    with Some show ?thesis
      by (simp add: Handle_by_method Let_def json_laws.error_response_eq [OF assms(1)])
  qed
  with json_laws.Handle_answers [OF assms(1), of ?V request e] show ?thesis by auto
qed

section \<open>Requests and hits as JSON\<close>

text \<open>
  How a client writes a \<open>memory.write\<close> request that the schema describes, and how it reads a
  hit; the envelope is that of the examples of the description.
\<close>

definition record_request :: "'j json_api \<Rightarrow> WriteRecordInput \<Rightarrow> 'j" where
  "record_request J r = add_children J
     [(''tags'', MakeArray J (wr_tags r)),
      (''metadata'', object_of J (map (\<lambda>(k, v). (k, JStr v)) (wr_metadata r)))]
     (object_of J [(''record_id'', JStr (wr_record_id r)), (''source'', JStr (wr_source r)),
        (''content'', JStr (wr_content r)), (''importance'', JReal (wr_importance r)), (''ttl_s'', JU64 (wr_ttl_s r)),
        (''pin'', JBool (wr_pin r)), (''dedup_key'', JStr (wr_dedup_key r))])"

definition write_request :: "'j json_api \<Rightarrow> WriteInput \<Rightarrow> 'j" where
  "write_request J input = add_children J
     [(''records'', array_of J (map (record_request J) (wi_records input)))]
     (object_of J [(''workspace_id'', JStr (wi_workspace_id input)), (''session_id'', JStr (wi_session_id input)),
        (''write_mode'', JStr (wi_write_mode input))])"

definition as_printed :: "(real \<Rightarrow> real) \<Rightarrow> WriteInput \<Rightarrow> WriteInput" where
  "as_printed rnd input =
     input\<lparr> wi_records := map (\<lambda>r. r\<lparr> wr_importance := rnd (wr_importance r) \<rparr>) (wi_records input) \<rparr>"

definition read_scores :: "'j json_api \<Rightarrow> 'j \<Rightarrow> ScoreBreakdown" where
  "read_scores J s =
     \<lparr> sc_sparse = McpGetDoubleOr J s ''sparse'' 0, sc_dense = McpGetDoubleOr J s ''dense'' 0,
       sc_freshness = McpGetDoubleOr J s ''freshness'' 0, sc_pin = McpGetDoubleOr J s ''pin'' 0,
       sc_final = McpGetDoubleOr J s ''final'' 0 \<rparr>"

definition read_hit :: "'j json_api \<Rightarrow> 'j \<Rightarrow> QueryHit" where
  "read_hit J node =
     \<lparr> h_memory_id = GetStringOr J node ''memory_id'' '''', h_source = GetStringOr J node ''source'' '''',
       h_content = GetStringOr J node ''content'' '''', h_tags = ReadStringArray J node ''tags'',
       h_metadata = read_record_metadata J node,
       h_scores = read_scores J (value_or (j_get_child J node ''scores'') (j_empty J)),
       h_updated_at_ms = GetUint64Or J node ''updated_at_ms'' 0, h_pinned = GetBoolOr J node ''pinned'' False \<rparr>"

definition read_hits :: "'j json_api \<Rightarrow> 'j \<Rightarrow> QueryHit list" where
  "read_hits J result =
     (case j_get_child J result ''hits'' of None \<Rightarrow> [] | Some hs \<Rightarrow> map (\<lambda>it. read_hit J (snd it)) (j_children J hs))"

definition hit_as_printed :: "(real \<Rightarrow> real) \<Rightarrow> QueryHit \<Rightarrow> QueryHit" where
  "hit_as_printed rnd hit =
     (let s = h_scores hit in
      hit\<lparr> h_scores := \<lparr> sc_sparse = rnd (sc_sparse s), sc_dense = rnd (sc_dense s),
        sc_freshness = rnd (sc_freshness s), sc_pin = rnd (sc_pin s), sc_final = rnd (sc_final s) \<rparr> \<rparr>)"

lemma read_record_metadata_eq: "read_record_metadata J = read_metadata J"
  by (rule ext) (simp add: read_record_metadata_def read_metadata_def)

context json_laws begin

lemmas get_rules = get_string_put get_bool_put get_u64_put get_double_put get_put_other get_add_child_other
  get_child_add get_child_empty

lemmas get_or_defs = GetStringOr_def GetBoolOr_def GetUint64Or_def GetIntOr_def McpGetDoubleOr_def

lemma read_record_request:
  assumes "list_all plain_key (map fst (wr_metadata r))" and "omap_ok (wr_metadata r)"
  shows "read_record J (record_request J r) = r\<lparr> wr_importance := rnd (wr_importance r) \<rparr>"
proof -
  have "j_get_child J (record_request J r) ''metadata'' =
      Some (put_fields J (map (\<lambda>(k, v). (k, JStr v)) (wr_metadata r)) (j_empty J))"
    by (simp add: record_request_def object_of_def get_rules)
  note md = read_metadata_eq [OF assms this]
  have "ReadStringArray J (record_request J r) ''tags'' = wr_tags r"
    by (simp add: ReadStringArray_def record_request_def object_of_def get_rules read_MakeArray)
  with md show ?thesis
    unfolding read_record_def read_record_metadata_eq
    by (simp add: record_request_def object_of_def get_or_defs get_rules)
qed

lemma read_write_request:
  assumes "list_all (\<lambda>r. list_all plain_key (map fst (wr_metadata r)) \<and> omap_ok (wr_metadata r)) (wi_records input)"
  shows "read_write_input J (write_request J input) = as_printed rnd input"
proof -
  have recs: "j_get_child J (write_request J input) ''records'' =
      Some (array_of J (map (record_request J) (wi_records input)))"
    by (simp add: write_request_def object_of_def get_rules)
  have "map (\<lambda>r. read_record J (record_request J r)) (wi_records input) =
      map (\<lambda>r. r\<lparr> wr_importance := rnd (wr_importance r) \<rparr>) (wi_records input)"
    using assms by (auto simp: list_all_iff intro!: read_record_request)
  then show ?thesis
    unfolding read_write_input_def recs
    by (simp add: children_array o_def as_printed_def write_request_def object_of_def get_or_defs get_rules)
qed

lemma read_hit_node:
  assumes "list_all plain_key (map fst (h_metadata hit))" and "omap_ok (h_metadata hit)"
  shows "read_hit J (hit_node J hit) = hit_as_printed rnd hit"
proof -
  have "j_get_child J (hit_node J hit) ''metadata'' =
      Some (put_fields J (map (\<lambda>(k, v). (k, JStr v)) (h_metadata hit)) (j_empty J))"
    by (simp add: hit_node_def object_of_def get_rules Let_def)
  note md = read_metadata_eq [OF assms this]
  have "ReadStringArray J (hit_node J hit) ''tags'' = h_tags hit"
    by (simp add: ReadStringArray_def hit_node_def object_of_def get_rules read_MakeArray Let_def)
  with md show ?thesis
    unfolding read_hit_def read_record_metadata_eq
    by (simp add: hit_as_printed_def read_scores_def hit_node_def object_of_def get_or_defs get_rules Let_def)
qed

lemma read_query_result:
  assumes "list_all (\<lambda>h. list_all plain_key (map fst (h_metadata h)) \<and> omap_ok (h_metadata h)) (qo_hits res)"
  shows "read_hits J (query_result J res) = map (hit_as_printed rnd) (qo_hits res)"
proof -
  have "j_get_child J (query_result J res) ''hits'' = Some (array_of J (map (hit_node J) (qo_hits res)))"
    by (simp add: query_result_def get_rules Let_def)
  with assms show ?thesis
    by (auto simp: read_hits_def children_array o_def list_all_iff intro!: read_hit_node)
qed

lemma example_request_reads:
  "GetStringOr J (example_request J m params) ''method'' d = m"
  "j_get_child J (example_request J m params) ''params'' = Some params"
  by (simp_all add: example_request_def object_of_def get_or_defs get_rules)

lemma write_result_reads:
  "GetBoolOr J (write_result J res) ''ok'' d = wo_ok res"
  "ReadStringArray J (write_result J res) ''stored_ids'' = wo_stored_ids res"
  by (simp_all add: write_result_def get_or_defs get_rules ReadStringArray_def read_MakeArray)

text \<open>A child once there stays there.\<close>

lemma child_put_iff: "plain_key k \<Longrightarrow> plain_key (path_head p) \<Longrightarrow>
    j_get_child J (j_put J p i j) k = None \<longleftrightarrow> k \<noteq> path_head p \<and> j_get_child J j k = None"
  using put_path_child [of p] get_put_path [of k p] by (cases "k = path_head p") auto

lemma child_add_iff: "plain_key k \<Longrightarrow> plain_key (path_head p) \<Longrightarrow>
    j_get_child J (j_add_child J p c j) k = None \<longleftrightarrow> k \<noteq> path_head p \<and> j_get_child J j k = None"
  using add_path_child [of p] get_add_path [of k p] by (cases "k = path_head p") auto

lemmas child_iffs = child_put_iff child_add_iff get_child_empty

lemma results_have_required:
  "list_all (\<lambda>k. j_get_child J (write_result J wres) k \<noteq> None) write_required"
  "list_all (\<lambda>k. j_get_child J (query_result J qres) k \<noteq> None) [''hits'', ''debug_stats'']"
  "list_all (\<lambda>k. j_get_child J (hit_node J hit) k \<noteq> None) hit_required"
  "list_all (\<lambda>k. j_get_child J (pin_result J err) k \<noteq> None) [''ok'']"
  "list_all (\<lambda>k. j_get_child J (stats_result J stats) k \<noteq> None) stats_required"
  "list_all (\<lambda>k. j_get_child J (compact_result J cres) k \<noteq> None) compact_required"
  "list_all (\<lambda>k. j_get_child J (Describe J now ex) k \<noteq> None) describe_required"
  by (simp_all add: write_result_def write_required_def query_result_def hit_node_def hit_required_def
      pin_result_def stats_result_def stats_required_def compact_result_def compact_required_def
      Describe_def describe_required_def object_of_def child_iffs path_head_def Let_def
      del: not_None_eq split: option.split)

end

section \<open>Reading the description\<close>

text \<open>The schema of a parameter, and the keys the output schema of a method requires.\<close>

fun described_at :: "'j json_api \<Rightarrow> 'j \<Rightarrow> string list \<Rightarrow> 'j option" where
  "described_at J schema [] = Some schema"
| "described_at J schema (k # ks) =
     Option.bind (Option.bind (j_get_child J schema ''properties'') (\<lambda>ps. j_get_child J ps k))
       (\<lambda>schema. described_at J schema ks)"

declare described_at.simps(2) [simp del]

definition input_described :: "'j json_api \<Rightarrow> 'j \<Rightarrow> string list \<Rightarrow> 'j option" where
  "input_described J method ks = Option.bind (j_get_child J method ''input_schema'') (\<lambda>s. described_at J s ks)"

definition default_int :: "'j json_api \<Rightarrow> 'j option \<Rightarrow> int option" where
  "default_int J schema = Option.bind schema (\<lambda>s. j_get_int J s ''default'')"

definition default_real :: "'j json_api \<Rightarrow> 'j option \<Rightarrow> real option" where
  "default_real J schema = Option.bind schema (\<lambda>s. j_get_double J s ''default'')"

definition default_bool :: "'j json_api \<Rightarrow> 'j option \<Rightarrow> bool option" where
  "default_bool J schema = Option.bind schema (\<lambda>s. j_get_bool J s ''default'')"

definition output_required :: "'j json_api \<Rightarrow> 'j \<Rightarrow> string list" where
  "output_required J method =
     (case j_get_child J method ''output_schema'' of None \<Rightarrow> [] | Some s \<Rightarrow> ReadStringArray J s ''required'')"

context json_laws begin

lemma described_closed:
  assumes "list_all plain_key (map fst props)" "distinct (map fst props)" "map_of props k \<noteq> None"
  shows "described_at J (closed_object J d props req) (k # ks) = described_at J (the (map_of props k)) ks"
proof -
  obtain c where c: "map_of props k = Some c" using assms(3) by auto
  have "\<forall>k \<in> fst ` set props. j_get_child J (j_empty J) k = None"
    using assms(1) by (auto simp: list_all_iff get_child_empty)
  from add_children_child [OF assms(1,2) this c] c show ?thesis by (simp add: closed_object_properties described_at.simps(2))
qed

lemma input_described_method:
  "input_described J (method_of J s i r sem errs ex) ks = described_at J i ks"
  by (simp add: input_described_def method_of_schemas)

lemma output_required_method:
  "req \<noteq> [] \<Longrightarrow> output_required J (method_of J s i (closed_object J d props req) sem errs ex) = req"
  by (simp add: output_required_def method_of_schemas closed_object_required)

lemma default_reads:
  "- (2 ^ 31) \<le> n \<Longrightarrow> n < 2 ^ 31 \<Longrightarrow> default_int J (Some (SetDefault_int J n schema)) = Some n"
  "default_real J (Some (SetDefault_double J x schema)) = Some (rnd x)"
  "default_bool J (Some (SetDefault_bool J b schema)) = Some b"
  "default_bool J (Some (SetDefault_literal J l schema)) = Some True"
  by (simp_all add: default_int_def default_real_def default_bool_def SetDefault_int_def SetDefault_double_def
      SetDefault_bool_def SetDefault_literal_def get_int_put get_double_put get_bool_put)

lemma query_defaults:
  "default_int J (input_described J (BuildQueryMethod J ex) [''top_k'']) = Some 8"
  "default_int J (input_described J (BuildQueryMethod J ex) [''token_budget'']) = Some 2048"
  "default_bool J (input_described J (BuildQueryMethod J ex) [''debug'']) = Some False"
  "default_int J (input_described J (BuildQueryMethod J ex) [''recall'', ''sparse_k'']) = Some 200"
  "default_int J (input_described J (BuildQueryMethod J ex) [''recall'', ''dense_k'']) = Some 200"
  "default_int J (input_described J (BuildQueryMethod J ex) [''recall'', ''oversample'']) = Some 4"
  "default_real J (input_described J (BuildQueryMethod J ex) [''rerank'', ''w_sparse'']) = Some (rnd 0.55)"
  "default_real J (input_described J (BuildQueryMethod J ex) [''rerank'', ''w_dense'']) = Some (rnd 0.30)"
  "default_real J (input_described J (BuildQueryMethod J ex) [''rerank'', ''w_freshness'']) = Some (rnd 0.10)"
  "default_real J (input_described J (BuildQueryMethod J ex) [''rerank'', ''w_pin'']) = Some (rnd 0.05)"
  by (simp_all add: BuildQueryMethod_def input_described_method query_input_schema_def Let_def
      described_closed default_reads)

lemma string_defaults:
  "default_bool J (input_described J (BuildWriteMethod J ex) [''session_id'']) = Some True"
  "default_bool J (input_described J (BuildWriteMethod J ex) [''write_mode'']) = Some True"
  "default_bool J (input_described J (BuildStatsMethod J ex) [''window'']) = Some True"
  "default_bool J (described_at J (write_record_schema J) [''source'']) = Some True"
  by (simp_all add: BuildWriteMethod_def BuildStatsMethod_def write_record_schema_def input_described_method Let_def
      described_closed default_reads)

lemma record_defaults:
  "default_real J (described_at J (write_record_schema J) [''importance'']) = Some (rnd 1)"
  "default_int J (described_at J (write_record_schema J) [''ttl_s'']) = Some 0"
  "default_bool J (described_at J (write_record_schema J) [''pin'']) = Some False"
  by (simp_all add: write_record_schema_def described_closed default_reads)

lemma get_empty:
  "plain_key k \<Longrightarrow> j_get_string J (j_empty J) k = None" "plain_key k \<Longrightarrow> j_get_bool J (j_empty J) k = None"
  "plain_key k \<Longrightarrow> j_get_u64 J (j_empty J) k = None" "plain_key k \<Longrightarrow> j_get_double J (j_empty J) k = None"
  "plain_key k \<Longrightarrow> j_get_int J (j_empty J) k = None"
  using get_absent [OF _ get_child_empty] by blast+

lemma read_defaults:
  "read_query_input J (j_empty J) =
     \<lparr> q_workspace_id = '''', q_query = '''', q_top_k = size_of_int 8, q_token_budget = 2048,
       q_filters = read_filters J None, q_recall = read_recall J None, q_rerank = read_rerank J None, q_debug = False \<rparr>"
  "read_recall J (Some (j_empty J)) = \<lparr> ro_sparse_k = size_of_int 200, ro_dense_k = size_of_int 200,
     ro_oversample = size_of_int 4 \<rparr>"
  "read_rerank J (Some (j_empty J)) = \<lparr> w_sparse = 0.55, w_dense = 0.30, w_freshness = 0.10, w_pin = 0.05 \<rparr>"
  "read_record J (j_empty J) =
     \<lparr> wr_record_id = '''', wr_source = ''turn'', wr_content = '''', wr_tags = [], wr_importance = 1, wr_ttl_s = 0,
       wr_pin = False, wr_dedup_key = '''', wr_metadata = [] \<rparr>"
  "read_write_input J (j_empty J) =
     \<lparr> wi_workspace_id = '''', wi_session_id = ''default'', wi_records = [], wi_write_mode = ''upsert'' \<rparr>"
  by (simp_all add: read_query_input_def read_recall_def read_rerank_def read_record_def read_record_metadata_def
      read_write_input_def ReadStringArray_def get_or_defs get_empty get_child_empty)

text \<open>Each method requires of its answers what the handlers put there.\<close>

lemma methods_required:
  "output_required J (BuildDescribeMethod J ex) = describe_required"
  "output_required J (BuildWriteMethod J ex) = write_required"
  "output_required J (BuildQueryMethod J ex) = [''hits'', ''debug_stats'']"
  "output_required J (BuildPinMethod J ex) = [''ok'']"
  "output_required J (BuildStatsMethod J ex) = stats_required"
  "output_required J (BuildCompactMethod J ex) = compact_required"
  by (simp_all add: BuildDescribeMethod_def BuildWriteMethod_def BuildQueryMethod_def query_output_schema_def
      BuildPinMethod_def BuildStatsMethod_def BuildCompactMethod_def output_required_method Let_def
      describe_required_def write_required_def stats_required_def compact_required_def)

lemma handler_conforms:
  assumes J: "ev_json V = J" and m: "(m, method) \<in> set (described_methods J ex)"
    and h: "handler_for V params m = Some h" "h e = Some (result, e')"
  shows "list_all (\<lambda>k. j_get_child J result k \<noteq> None) (output_required J method)"
proof -
  have "list_all (\<lambda>k. j_get_child J result k \<noteq> None) describe_required" if "HandleDescribe V params e = Some (result, e')"
    using that results_have_required(7) by (auto simp: HandleDescribe_def J case_prod_beta)
  moreover have "list_all (\<lambda>k. j_get_child J result k \<noteq> None) write_required" if "HandleWrite V params e = Some (result, e')"
    using that results_have_required(1) by (auto simp: HandleWrite_def J)
  moreover have "list_all (\<lambda>k. j_get_child J result k \<noteq> None) [''hits'', ''debug_stats'']"
    if "HandleQuery V params e = Some (result, e')"
    using that results_have_required(2) by (auto simp: HandleQuery_def J case_prod_beta)
  moreover have "list_all (\<lambda>k. j_get_child J result k \<noteq> None) [''ok'']" if "HandlePin V params e = Some (result, e')"
    using that results_have_required(4) by (auto simp: HandlePin_def J Let_def)
  moreover have "list_all (\<lambda>k. j_get_child J result k \<noteq> None) stats_required" if "HandleStats V params e = Some (result, e')"
    using that results_have_required(5) by (auto simp: HandleStats_def J Let_def)
  moreover have "list_all (\<lambda>k. j_get_child J result k \<noteq> None) compact_required"
    if "HandleCompact V params e = Some (result, e')"
    using that results_have_required(6) by (auto simp: HandleCompact_def J case_prod_beta Let_def)
  ultimately show ?thesis
    using m h by (auto simp: described_methods_def handler_for_def methods_required split: if_splits)
qed

end

section \<open>Serving requests\<close>

lemma serve_returns:
  assumes "json_laws (ev_json V) rnd readable" and "resident_ok (over_hybrid V) e"
  shows "\<exists>responses e'. serve (over_hybrid V) requests e = Some (responses, e') \<and>
    resident_ok (over_hybrid V) e' \<and> list_all2 (answers (ev_json V)) requests responses"
  using assms(2)
proof (induction requests arbitrary: e)
  case (Cons request requests)
  obtain response e1 where r: "Handle (over_hybrid V) request e = Some (response, e1)"
    "resident_ok (over_hybrid V) e1" "answers (ev_json V) request response"
    using Handle_returns [OF assms(1) Cons.prems] by blast
  with Cons.IH [OF r(2)] show ?case by auto
qed simp

lemma Handle_result:
  assumes "handler_for V (value_or (j_get_child (ev_json V) request ''params'') (j_empty (ev_json V)))
      (GetStringOr (ev_json V) request ''method'' '''') = Some h"
    and "GetStringOr (ev_json V) request ''method'' '''' \<noteq> ''store.compact''"
    and "Handle V request e = Some (response, e')" and "json_laws (ev_json V) rnd readable"
  shows "\<exists>result. h e = Some (result, e') \<and> j_get_child (ev_json V) response ''result'' = Some result"
  using assms(1-3) json_laws.response_children(2) [OF assms(4)]
  by (auto simp: Handle_by_method Let_def split: option.splits prod.splits)

end
