(* ===== verification/Service_Contract.thy ===== *)
theory Service_Contract
  imports Installer Mcp_Contract
begin

text \<open>
  The contract of the running service: how a client reads the strings the daemon escapes, what
  type each described key has after normalisation, what counts as an answer of a route, and
  the lemmas that the daemon keeps to it.
\<close>

section \<open>Reading escaped strings\<close>

definition hex_value :: "char \<Rightarrow> nat" where
  "hex_value c = (if is_digit c then byte c - 48 else byte c - 87)"

definition short_escapes :: "(char \<times> char) list" where
  "short_escapes = [(CHR 0x22, CHR 0x22), (CHR 0x5C, CHR 0x5C), (CHR ''b'', CHR 0x08), (CHR ''f'', CHR 0x0C),
     (CHR ''n'', CHR 0x0A), (CHR ''r'', CHR 0x0D), (CHR ''t'', CHR 0x09)]"

text \<open>
  The rest of a JSON string after its opening quote: the bytes up to the closing quote, with
  the escapes that stand for one byte resolved, and what follows.  A raw control byte is an
  error.
\<close>

fun read_string :: "string \<Rightarrow> (string \<times> string) option" where
  "read_string [] = None"
| "read_string (c # s) =
     (if c = CHR 0x22 then Some ([], s)
      else if c = CHR 0x5C then
        (case s of
           [] \<Rightarrow> None
         | e # s1 \<Rightarrow>
             (case map_of short_escapes e of
                Some d \<Rightarrow> map_option (\<lambda>(t, r). (d # t, r)) (read_string s1)
              | None \<Rightarrow>
                  (if take 3 s = ''u00'' \<and> 5 \<le> length s
                   then map_option (\<lambda>(t, r). (char_of (16 * hex_value (s ! 3) + hex_value (s ! 4)) # t, r)) (read_string (drop 5 s))
                   else None)))
      else if byte c < 32 then None
      else map_option (\<lambda>(t, r). (c # t, r)) (read_string s))"

lemma hex_value_digit: "n < 16 \<Longrightarrow> hex_value (hex_digit n) = n"
proof -
  have "list_all (\<lambda>n. hex_value (hex_digit n) = n) [0..<16]" by code_simp
  then show "n < 16 \<Longrightarrow> hex_value (hex_digit n) = n" by (simp add: list_all_iff)
qed

lemma read_escape_char: "read_string (escape_char c @ s) = map_option (\<lambda>(t, r). (c # t, r)) (read_string s)"
proof -
  have byte: "char_of (byte c) = c" by simp
  have "byte c div 16 < 16" "byte c mod 16 < 16" by (simp_all add: less_mult_imp_div_less)
  then have hex: "char_of (16 * hex_value (hex_digit (byte c div 16)) + hex_value (hex_digit (byte c mod 16))) = c"
    by (simp only: hex_value_digit mult_div_mod_eq byte)
  show ?thesis by (simp add: escape_char_def short_escapes_def hex)
qed

lemma read_JsonEscape: "read_string (JsonEscape s @ CHR 0x22 # rest) = Some (s, rest)"
  by (induction s) (simp_all add: JsonEscape_def read_escape_char)

section \<open>Members\<close>

lemma map_of_update_first: "map_of (update_first k f ms) k' = (if k' = k then map_option f (map_of ms k) else map_of ms k')"
  by (induction ms) auto

lemma member_on_member: "rj_member k' (on_member k f v) = (if k' = k then map_option f (rj_member k v) else rj_member k' v)"
  by (simp add: on_member_def rj_member_def map_of_update_first split: rj.split)

lemma on_members_simps [simp]: "on_members [] v = v" "on_members ((k, f) # kfs) v = on_members kfs (on_member k f v)"
  by (simp_all add: on_members_def)

lemma is_object_on_member [simp]: "is_object (on_member k f v) = is_object v"
  by (simp add: on_member_def is_object_def split: rj.split)

section \<open>Types after normalisation\<close>

text \<open>The type that the output schema of a method gives a key, and the conversion it asks for.\<close>

definition output_type :: "'j json_api \<Rightarrow> 'j \<Rightarrow> string \<Rightarrow> string option" where
  "output_type J method k =
     Option.bind (j_get_child J method ''output_schema'')
       (\<lambda>s. Option.bind (described_at J s [k]) (\<lambda>p. j_get_string J p ''type''))"

definition typed :: "rapid_api \<Rightarrow> string \<Rightarrow> rj \<Rightarrow> rj" where
  "typed P t v =
     (if t = ''boolean'' then to_bool v else if t = ''integer'' then to_int v
      else if t = ''number'' then to_double P v else v)"

text \<open>The keys of the results with the types they are described to have.\<close>

definition write_table :: "(string \<times> string) list" where
  "write_table =
    [(''ok'', ''boolean''), (''stored_ids'', ''array''), (''deduped_ids'', ''array''), (''index_generation'', ''integer''),
     (''warnings'', ''array'')]"

definition query_table :: "(string \<times> string) list" where
  "query_table =
    [(''hits'', ''array''), (''debug_stats'', ''object'')]"

definition pin_table :: "(string \<times> string) list" where
  "pin_table =
    [(''ok'', ''boolean'')]"

definition describe_table :: "(string \<times> string) list" where
  "describe_table =
    [(''describe_version'', ''string''), (''schema_revision'', ''string''), (''generated_at_ms'', ''integer''),
     (''server'', ''object''), (''method_names'', ''array''), (''methods'', ''object''), (''errors'', ''object'')]"

definition stats_table :: "(string \<times> string) list" where
  "stats_table =
    [(''p95_read_ms'', ''number''), (''p95_write_ms'', ''number''), (''token_reduction_ratio'', ''number''),
     (''fallback_rate'', ''number''), (''mem_used_bytes'', ''integer''), (''disk_used_bytes'', ''integer''),
     (''resident_used_bytes'', ''integer''), (''resident_limit_bytes'', ''integer''), (''resident_evicted_count'', ''integer''),
     (''disk_fallback_search_count'', ''integer''), (''item_count'', ''integer''), (''tombstone_count'', ''integer''),
     (''gc_last_run_ms'', ''integer''), (''gc_evicted_count'', ''integer''), (''capacity_blocked'', ''boolean''),
     (''write_ack_mode'', ''string''), (''effective_backend'', ''string''), (''index_stats'', ''object'')]"

definition compact_table :: "(string \<times> string) list" where
  "compact_table =
    [(''triggered'', ''boolean''), (''capacity_blocked'', ''boolean''), (''mem_before_bytes'', ''integer''),
     (''disk_before_bytes'', ''integer''), (''mem_after_bytes'', ''integer''), (''disk_after_bytes'', ''integer''),
     (''summarized_count'', ''integer''), (''tombstoned_count'', ''integer''), (''deleted_count'', ''integer''),
     (''segments_before'', ''integer''), (''segments_after'', ''integer''), (''postings_reclaimed'', ''integer''),
     (''vectors_reclaimed'', ''integer'')]"

context json_laws begin

lemma JsonSchema_type: "j_get_string J (JsonSchema J t d) ''type'' = Some t"
  by (simp add: JsonSchema_def Let_def get_string_put get_put_other)

lemma array_schema_type: "j_get_string J (array_schema J d items) ''type'' = Some ''array''"
  by (simp add: array_schema_def get_add_child_other JsonSchema_type)

lemma closed_object_type: "j_get_string J (closed_object J d props req) ''type'' = Some ''object''"
  by (simp add: closed_object_def SetRequired_def get_add_child_other get_put_other JsonSchema_type)

lemma output_types_method:
  assumes "list_all plain_key (map fst props)" "distinct (map fst props)"
    and "map (\<lambda>(k, s). (k, j_get_string J s ''type'')) props = map (\<lambda>(k, t). (k, Some t)) tab"
  shows "list_all (\<lambda>(k, t). output_type J (method_of J s i (closed_object J d props req) sem errs ex) k = Some t) tab"
proof -
  have "output_type J (method_of J s i (closed_object J d props req) sem errs ex) k = Some t" if kt: "(k, t) \<in> set tab" for k t
  proof -
    from kt have "(k, Some t) \<in> set (map (\<lambda>(k, s). (k, j_get_string J s ''type'')) props)" unfolding assms(3) by force
    then obtain c where "(k, c) \<in> set props" and c: "j_get_string J c ''type'' = Some t" by auto
    with assms(2) have "map_of props k = Some c" by (simp add: map_of_eq_Some_iff)
    then show ?thesis using assms(1,2) c by (simp add: output_type_def method_of_schemas described_closed)
  qed
  then show ?thesis by (auto simp: list_all_iff)
qed

lemmas type_rules = JsonSchema_type array_schema_type closed_object_type

lemma write_types: "list_all (\<lambda>(k, t). output_type J (BuildWriteMethod J ex) k = Some t) write_table"
  unfolding BuildWriteMethod_def by (rule output_types_method) (simp_all add: write_table_def type_rules)

lemma query_types: "list_all (\<lambda>(k, t). output_type J (BuildQueryMethod J ex) k = Some t) query_table"
  unfolding BuildQueryMethod_def query_output_schema_def Let_def
  by (rule output_types_method) (simp_all add: query_table_def type_rules)

lemma pin_types: "list_all (\<lambda>(k, t). output_type J (BuildPinMethod J ex) k = Some t) pin_table"
proof -
  have "list_all (\<lambda>(k, t). output_type J (BuildPinMethod J ex) k = Some t) (pin_table @ [(''error'', ''string'')])"
    unfolding BuildPinMethod_def by (rule output_types_method) (simp_all add: pin_table_def type_rules)
  then show ?thesis by simp
qed

lemma describe_types: "list_all (\<lambda>(k, t). output_type J (BuildDescribeMethod J ex) k = Some t) describe_table"
  unfolding BuildDescribeMethod_def by (rule output_types_method) (simp_all add: describe_table_def type_rules)

lemma stats_types: "list_all (\<lambda>(k, t). output_type J (BuildStatsMethod J ex) k = Some t) stats_table"
  unfolding BuildStatsMethod_def Let_def by (rule output_types_method) (simp_all add: stats_table_def type_rules)

lemma compact_types: "list_all (\<lambda>(k, t). output_type J (BuildCompactMethod J ex) k = Some t) compact_table"
  unfolding BuildCompactMethod_def Let_def by (rule output_types_method) (simp_all add: compact_table_def type_rules)

text \<open>A required key with its type is in the table of its method.\<close>

lemma table_of_method:
  assumes "(m, method) \<in> set (described_methods J ex)" "k \<in> set (output_required J method)" "output_type J method k = Some t"
  shows "m = ''memory.write'' \<and> (k, t) \<in> set write_table \<or> m = ''memory.query'' \<and> (k, t) \<in> set query_table \<or>
    m = ''memory.pin'' \<and> (k, t) \<in> set pin_table \<or> m = ''memory.describe'' \<and> (k, t) \<in> set describe_table \<or>
    m = ''memory.stats'' \<and> (k, t) \<in> set stats_table \<or> m = ''memory.compact'' \<and> (k, t) \<in> set compact_table"
proof -
  have in_table: "(k, t) \<in> set tab"
    if types: "list_all (\<lambda>(k, t). output_type J method k = Some t) tab" and keys: "output_required J method = map fst tab" for tab
  proof -
    obtain t' where "(k, t') \<in> set tab" using assms(2) keys by auto
    with types assms(3) show ?thesis by (auto simp: list_all_iff)
  qed
  have "m = ''memory.describe'' \<and> method = BuildDescribeMethod J ex \<or> m = ''memory.write'' \<and> method = BuildWriteMethod J ex \<or>
      m = ''memory.query'' \<and> method = BuildQueryMethod J ex \<or> m = ''memory.pin'' \<and> method = BuildPinMethod J ex \<or>
      m = ''memory.stats'' \<and> method = BuildStatsMethod J ex \<or> m = ''memory.compact'' \<and> method = BuildCompactMethod J ex"
    using assms(1) unfolding described_methods_def set_simps insert_iff empty_iff prod.inject by argo
  moreover have "(k, t) \<in> set describe_table" if "method = BuildDescribeMethod J ex"
    unfolding that by (rule in_table [unfolded that, OF describe_types]) (simp add: methods_required describe_required_def describe_table_def)
  moreover have "(k, t) \<in> set write_table" if "method = BuildWriteMethod J ex"
    unfolding that by (rule in_table [unfolded that, OF write_types]) (simp add: methods_required write_required_def write_table_def)
  moreover have "(k, t) \<in> set query_table" if "method = BuildQueryMethod J ex"
    unfolding that by (rule in_table [unfolded that, OF query_types]) (simp add: methods_required query_table_def)
  moreover have "(k, t) \<in> set pin_table" if "method = BuildPinMethod J ex"
    unfolding that by (rule in_table [unfolded that, OF pin_types]) (simp add: methods_required pin_table_def)
  moreover have "(k, t) \<in> set stats_table" if "method = BuildStatsMethod J ex"
    unfolding that by (rule in_table [unfolded that, OF stats_types]) (simp add: methods_required stats_required_def stats_table_def)
  moreover have "(k, t) \<in> set compact_table" if "method = BuildCompactMethod J ex"
    unfolding that by (rule in_table [unfolded that, OF compact_types]) (simp add: methods_required compact_required_def compact_table_def)
  ultimately show ?thesis by argo
qed

end

lemma typed_simps:
  "typed P ''boolean'' = to_bool" "typed P ''integer'' = to_int" "typed P ''number'' = to_double P"
  by (simp_all add: fun_eq_iff typed_def)

definition scalar_types :: "string list" where
  "scalar_types = [''boolean'', ''integer'', ''number'']"

definition converts :: "rapid_api \<Rightarrow> string \<Rightarrow> rj \<Rightarrow> string \<times> string \<Rightarrow> bool" where
  "converts P m result kt \<longleftrightarrow> snd kt \<notin> set scalar_types \<or>
     rj_member (fst kt) (NormalizeResultByMethod P m result) = map_option (typed P (snd kt)) (rj_member (fst kt) result)"

lemmas converts_rules = converts_def NormalizeResultByMethod_def member_on_member scalar_types_def typed_simps option.map_comp o_def

lemma converts_small:
  assumes "is_object result"
  shows "list_all (converts P ''memory.write'' result) write_table" "list_all (converts P ''memory.query'' result) query_table"
    "list_all (converts P ''memory.pin'' result) pin_table"
  using assms by (simp_all add: converts_rules write_table_def query_table_def pin_table_def)

lemma converts_stats: "is_object result \<Longrightarrow> list_all (converts P ''memory.stats'' result) stats_table"
  by (simp add: converts_rules stats_table_def)

lemma converts_compact: "is_object result \<Longrightarrow> list_all (converts P ''memory.compact'' result) compact_table"
  by (simp add: converts_rules compact_table_def)

lemma map_of_map_values: "map_of (map (\<lambda>kv. (fst kv, f (fst kv) (snd kv))) ms) k = map_option (f k) (map_of ms k)"
  by (induction ms) auto

lemma map_of_schema_members:
  "k \<noteq> ''additionalProperties'' \<Longrightarrow> k \<noteq> ''default'' \<Longrightarrow> map_of (schema_members P ms) k = map_of ms k"
  by (auto simp: schema_members_def NormalizeSchemaDefaultByType_def on_member_def map_of_update_first Let_def
      split: option.split rj.split)

lemma converts_describe:
  assumes "rj_member k result = Some (RString s)" "(k, t) \<in> set describe_table" "t \<in> set scalar_types"
  shows "rj_member k (NormalizeResultByMethod P ''memory.describe'' result) = Some (typed P t (RString s))"
proof -
  from assms(2,3) have k: "k = ''generated_at_ms''" "t = ''integer''" by (auto simp: describe_table_def scalar_types_def)
  from assms(1) obtain ms where ms: "result = RObject ms" "map_of ms k = Some (RString s)"
    by (auto simp: rj_member_def split: rj.splits)
  have key: "c_str ''generated_at_ms'' = ''generated_at_ms''" by (simp add: c_str_def)
  have "NormalizeDescribeNode P (to_int (RString s)) = to_int (RString s)"
    by (simp add: ConvertValueToIntIfString_def split: option.split)
  with ms(2) show ?thesis
    unfolding ms(1) k
    by (simp add: NormalizeResultByMethod_def is_object_def rj_member_def map_of_schema_members typed_simps
        map_of_map_values [where f = "\<lambda>k v. NormalizeDescribeNode P (convert_by_key k v)"])
      (simp add: convert_by_key_def key)
qed

text \<open>Every required scalar is given its described type back.\<close>

context json_laws begin

lemma required_converted:
  assumes m: "(m, method) \<in> set (described_methods J ex)" and k: "k \<in> set (output_required J method)"
    and t: "output_type J method k = Some t" "t \<in> set scalar_types" and s: "rj_member k result = Some (RString s)"
  shows "rj_member k (NormalizeResultByMethod P m result) = Some (typed P t (RString s))"
proof -
  have obj: "is_object result" using s by (simp add: is_object_def rj_member_def split: rj.splits)
  have in_table: "rj_member k (NormalizeResultByMethod P m result) = Some (typed P t (RString s))"
    if "list_all (converts P m result) tab" "(k, t) \<in> set tab" for tab
    using that t(2) s by (auto simp: list_all_iff converts_def)
  from table_of_method [OF m k t(1)] show ?thesis
    using in_table converts_small [OF obj] converts_stats [OF obj] converts_compact [OF obj] converts_describe [OF s _ t(2)]
    by blast
qed

end

lemma c_str_plain: "CHR 0x00 \<notin> set s \<Longrightarrow> c_str s = s"
  by (auto simp: c_str_def takeWhile_eq_all_conv)

lemma ParseInt64_int_string:
  "ParseInt64Literal (int_string n) = (if - (2 ^ 63) \<le> n \<and> n < 2 ^ 63 then Some n else None)"
proof -
  have digits: "takeWhile is_digit (dec_string k) = dec_string k" for k
    using digits_dec_string [of k] by (simp add: takeWhile_eq_all_conv list_all_iff)
  obtain c t where s: "dec_string (nat n) = c # t"
    by (cases "dec_string (nat n)") (simp_all add: dec_string.simps [of "nat n"] split: if_splits)
  have "is_digit c" using digits_dec_string [of "nat n"] by (simp add: s)
  then have c: "\<not> is_space c" "c \<noteq> CHR ''-''" "c \<noteq> CHR ''+''" by (auto simp: is_digit_def is_space_def)
  show ?thesis
  proof (cases "n < 0")
    case True
    moreover have "dec_string (nat (- n)) \<noteq> []" by (subst dec_string.simps) simp
    moreover have "\<not> is_space (CHR ''-'')" by (simp add: is_space_def)
    ultimately show ?thesis by (simp add: ParseInt64Literal_def int_string_def sign_split_def digits) linarith
  next
    case False
    have "sign_split (dropWhile is_space (dec_string (nat n))) = (False, dec_string (nat n))"
      using c by (simp add: s sign_split_def)
    moreover have "dec_string (nat n) \<noteq> []" by (simp add: s)
    moreover have "int (nat n) = n" "nat n < 2 ^ 63 \<longleftrightarrow> n < 2 ^ 63" using False by (simp_all add: nat_less_iff)
    ultimately show ?thesis using False by (auto simp: ParseInt64Literal_def int_string_def digits)
  qed
qed

lemma no_zero_int_string: "CHR 0x00 \<notin> set (int_string n)"
proof -
  have "CHR 0x00 \<notin> set (dec_string k)" for k using digits_dec_string [of k] by (auto simp: list_all_iff is_digit_def)
  then show ?thesis by (simp add: int_string_def)
qed

lemma typed_printed:
  "typed P ''boolean'' (RString (bool_string b)) = RBool b"
  "typed P ''integer'' (RString (int_string n)) =
     (if - (2 ^ 63) \<le> n \<and> n < 2 ^ 63 then RInt n else RString (int_string n))"
proof -
  have bool: "c_str (bool_string b) = bool_string b" for b by (simp add: c_str_def bool_string_def)
  have "map to_lower_char (bool_string b) = bool_string b" for b by (simp add: bool_string_def to_lower_char_def)
  then show "typed P ''boolean'' (RString (bool_string b)) = RBool b"
    by (simp add: typed_simps ConvertValueToBoolIfString_def bool ParseBoolLiteral_def) (simp add: bool_string_def)
  show "typed P ''integer'' (RString (int_string n)) =
     (if - (2 ^ 63) \<le> n \<and> n < 2 ^ 63 then RInt n else RString (int_string n))"
    by (simp add: typed_simps ConvertValueToIntIfString_def c_str_plain no_zero_int_string ParseInt64_int_string)
qed

section \<open>JSON-RPC answers\<close>

definition rpc_body :: "string \<Rightarrow> string \<Rightarrow> bool" where
  "rpc_body id_literal body \<longleftrightarrow>
     (\<exists>result. body = JsonRpcResult id_literal result) \<or>
     (\<exists>error_code message. error_code \<in> {- 32600, - 32601, - 32602, - 32001} \<and>
        body = JsonRpcError id_literal error_code message)"

definition is_notification :: "rj \<Rightarrow> bool" where
  "is_notification doc \<longleftrightarrow>
     (case rj_member ''method'' doc of Some (RString m) \<Rightarrow> c_str m = ''notifications/initialized'' | _ \<Rightarrow> False)"

text \<open>What the answer to a body posted to \<open>/mcp\<close> may be.\<close>

definition rpc_answered :: "rapid_api \<Rightarrow> string \<Rightarrow> HttpResponse \<Rightarrow> bool" where
  "rpc_answered P body resp \<longleftrightarrow>
     (case rj_parse P (c_str body) of
        None \<Rightarrow> rs_status_code resp = 400
      | Some doc \<Rightarrow>
          if \<not> is_object doc then rs_status_code resp = 400
          else if rj_member ''jsonrpc'' doc = None then rs_status_code resp \<in> {200, 400}
          else rs_status_code resp = 200 \<and> rpc_body (JsonRpcIdLiteral P doc) (rs_body resp) \<or>
            is_notification doc \<and> rs_status_code resp = 204 \<and> rs_body resp = '''')"

lemma rpc_bodyI:
  "rpc_body i (JsonRpcResult i r)" "rpc_body i (JsonRpcError i (- 32600) m)" "rpc_body i (JsonRpcError i (- 32601) m)"
  "rpc_body i (JsonRpcError i (- 32602) m)" "rpc_body i (JsonRpcError i (- 32001) m)"
  by (auto simp: rpc_body_def)

lemma http_answer_simps [simp]: "rs_status_code (http_answer c b) = c" "rs_body (http_answer c b) = b"
  by (simp_all add: http_answer_def)

text \<open>An answer of the dispatcher becomes a result, or an error with the dispatcher's code.\<close>

context json_laws begin

lemma answers_code:
  assumes "answers J request res" "j_get_child J res ''error'' \<noteq> None"
  shows "GetIntOr J res ''error.code'' d \<in> {- 32001, - 32601}"
proof -
  from assms obtain err where err: "j_get_child J res ''error'' = Some err" by auto
  with assms(1) have "j_get_int J err ''code'' \<in> {Some (- 32001), Some (- 32601)}"
    by (auto simp: answers_def Let_def split: option.splits)
  moreover have "j_get_int J res ''error.code'' = j_get_int J err ''code''"
    using get_int_path [of "''error''" "''code''" res] err by simp
  ultimately show ?thesis by (auto simp: GetIntOr_def)
qed

end

lemma call_memory_returns:
  assumes laws: "json_laws (ev_json V) rnd readable" and "resident_ok (over_hybrid V) e"
  shows "\<exists>resp e'. call_memory (over_hybrid V) P i m doc e = Some (resp, e') \<and> resident_ok (over_hybrid V) e' \<and>
    rs_status_code resp = 200 \<and> rpc_body i (rs_body resp)"
proof (cases "memory_request (ev_json V) P ''jsonrpc-call'' m (rj_member ''params'' doc) ''params''")
  case (Inl err)
  with assms(2) show ?thesis by (simp add: call_memory_def rpc_bodyI)
next
  case (Inr request)
  obtain res e' where h: "Handle (over_hybrid V) request e = Some (res, e')" "resident_ok (over_hybrid V) e'"
    "answers (ev_json V) request res" using Handle_returns [OF assms] by blast
  show ?thesis
  proof (cases "j_get_child (ev_json V) res ''error'' = None")
    case True
    with Inr h show ?thesis by (simp add: call_memory_def rpc_bodyI)
  next
    case False
    from json_laws.answers_code [OF laws h(3) False, of "- 32603"] Inr h False show ?thesis
      by (auto simp: call_memory_def Let_def rpc_bodyI)
  qed
qed

lemma call_tool_returns:
  assumes "json_laws (ev_json V) rnd readable" and "resident_ok (over_hybrid V) e"
  shows "\<exists>resp e'. call_tool (over_hybrid V) P i doc e = Some (resp, e') \<and> resident_ok (over_hybrid V) e' \<and>
    rs_status_code resp = 200 \<and> rpc_body i (rs_body resp)"
proof -
  note I = assms(2)
  show ?thesis
  proof (cases "rj_member ''params'' doc")
    case None
    with I show ?thesis by (simp add: call_tool_def rpc_bodyI)
  next
    case (Some params)
    note params = this
    show ?thesis
    proof (cases "is_object params \<and> (\<exists>name. rj_member ''name'' params = Some (RString name) \<and> prefix ''memory.'' (c_str name))")
      case False
      with I params show ?thesis
        by (cases "is_object params"; cases "rj_member ''name'' params"; cases "the (rj_member ''name'' params)")
          (simp_all add: call_tool_def Let_def rpc_bodyI)
    next
      case True
      then obtain name where name: "is_object params" "rj_member ''name'' params = Some (RString name)" "prefix ''memory.'' (c_str name)"
        by blast
      show ?thesis
      proof (cases "memory_request (ev_json V) P ''tool-call'' (c_str name) (rj_member ''arguments'' params) ''arguments''")
        case (Inl err)
        with I params name show ?thesis by (simp add: call_tool_def rpc_bodyI)
      next
        case (Inr request)
        obtain res e' where "Handle (over_hybrid V) request e = Some (res, e')" "resident_ok (over_hybrid V) e'"
          using Handle_returns [OF assms] by blast
        with Inr params name show ?thesis by (simp add: call_tool_def rpc_bodyI Let_def)
      qed
    qed
  qed
qed

lemma rpc_method_returns:
  assumes "json_laws (ev_json V) rnd readable" and I: "resident_ok (over_hybrid V) e"
    and doc: "rj_parse P (c_str body) = Some doc" "is_object doc" "rj_member ''jsonrpc'' doc = Some (RString v)" "c_str v = ''2.0''"
    and m: "rj_member ''method'' doc = Some (RString m)"
  shows "\<exists>resp e'. HandleMcpJsonRpc (over_hybrid V) P body e = Some (resp, e') \<and> resident_ok (over_hybrid V) e' \<and>
    (rs_status_code resp = 200 \<and> rpc_body (JsonRpcIdLiteral P doc) (rs_body resp) \<or>
     is_notification doc \<and> rs_status_code resp = 204 \<and> rs_body resp = '''')"
proof -
  note known = HandleMcpJsonRpc_def doc m is_notification_def rpc_bodyI
  have tools: "resident_ok (over_hybrid V) (snd (ToolsListResultJson (over_hybrid V) e))"
    using hyb.acct.I_clock [OF I clock_step_NowMs [of e "over_hybrid V"]] by (simp add: ToolsListResultJson_def case_prod_beta Let_def)
  consider "c_str m \<in> {''notifications/initialized'', ''initialize'', ''ping''}" | "c_str m = ''tools/list''"
    | "c_str m = ''tools/call''" | "c_str m \<notin> {''notifications/initialized'', ''initialize'', ''ping'', ''tools/list'', ''tools/call''}"
      "prefix ''memory.'' (c_str m) \<or> c_str m = ''store.compact''"
    | "c_str m \<notin> {''notifications/initialized'', ''initialize'', ''ping'', ''tools/list'', ''tools/call''}"
      "\<not> (prefix ''memory.'' (c_str m) \<or> c_str m = ''store.compact'')" by blast
  then show ?thesis
  proof cases
    case 1
    then show ?thesis using I by (elim insertE) (simp_all add: known)
  next
    case 2
    then show ?thesis using tools by (simp add: known case_prod_beta Let_def)
  next
    case 3
    then show ?thesis using call_tool_returns [OF assms(1) I, of P "JsonRpcIdLiteral P doc" doc] by (auto simp: known)
  next
    case 4
    then show ?thesis using call_memory_returns [OF assms(1) I, of P "JsonRpcIdLiteral P doc" "c_str m" doc]
      by (auto simp: known simp del: disj_not1)
  next
    case 5
    then show ?thesis using I by (simp add: known)
  qed
qed

lemma rpc_refused:
  assumes doc: "rj_parse P (c_str body) = Some doc" "is_object doc" "rj_member ''jsonrpc'' doc \<noteq> None"
    and bad: "\<not> ((\<exists>v. rj_member ''jsonrpc'' doc = Some (RString v) \<and> c_str v = ''2.0'') \<and>
        (\<exists>m. rj_member ''method'' doc = Some (RString m)))"
  shows "\<exists>msg. HandleMcpJsonRpc V P body e =
    Some (http_answer 200 (JsonRpcError (JsonRpcIdLiteral P doc) (- 32600) msg), e)"
proof -
  note HandleMcpJsonRpc = HandleMcpJsonRpc_def doc Let_def
  obtain v where v: "rj_member ''jsonrpc'' doc = Some v" using doc(3) by blast
  show ?thesis
  proof (cases "\<exists>s. v = RString s \<and> c_str s = ''2.0''")
    case False
    then show ?thesis by (cases v) (simp_all add: HandleMcpJsonRpc v, (intro exI, rule refl)+)
  next
    case True
    then obtain s where s: "v = RString s" "c_str s = ''2.0''" by blast
    with bad v have "\<nexists>m. rj_member ''method'' doc = Some (RString m)" by simp
    then show ?thesis
      by (cases "rj_member ''method'' doc"; cases "the (rj_member ''method'' doc)")
        (simp_all add: HandleMcpJsonRpc v s, (intro exI, rule refl)+)
  qed
qed

text \<open>The engine answers every body; a status of 0 leaves it untouched.\<close>

lemma rpc_returns:
  assumes "json_laws (ev_json V) rnd readable" and I: "resident_ok (over_hybrid V) e"
  shows "\<exists>resp e'. HandleMcpJsonRpc (over_hybrid V) P body e = Some (resp, e') \<and> resident_ok (over_hybrid V) e' \<and>
    (if rs_status_code resp = 0
     then \<exists>doc. rj_parse P (c_str body) = Some doc \<and> is_object doc \<and> rj_member ''jsonrpc'' doc = None
     else rpc_answered P body resp)"
proof (cases "rj_parse P (c_str body)")
  case None
  with I show ?thesis by (simp add: HandleMcpJsonRpc_def rpc_answered_def)
next
  case (Some doc)
  note doc = this
  show ?thesis
  proof (cases "is_object doc \<and> rj_member ''jsonrpc'' doc \<noteq> None")
    case False
    with I doc show ?thesis by (auto simp: HandleMcpJsonRpc_def rpc_answered_def)
  next
    case True
    note obj = this
    show ?thesis
    proof (cases "(\<exists>v. rj_member ''jsonrpc'' doc = Some (RString v) \<and> c_str v = ''2.0'') \<and>
        (\<exists>m. rj_member ''method'' doc = Some (RString m))")
      case True
      then obtain v m where vm: "rj_member ''jsonrpc'' doc = Some (RString v)" "c_str v = ''2.0''"
        "rj_member ''method'' doc = Some (RString m)" by blast
      from rpc_method_returns [OF assms doc _ vm] obj doc show ?thesis
        by (auto simp: rpc_answered_def)
    next
      case False
      from rpc_refused [OF doc _ _ False, of "over_hybrid V" e] obj obtain msg where
        "HandleMcpJsonRpc (over_hybrid V) P body e =
          Some (http_answer 200 (JsonRpcError (JsonRpcIdLiteral P doc) (- 32600) msg), e)" by blast
      with I obj doc show ?thesis by (auto simp: rpc_answered_def rpc_bodyI)
    qed
  qed
qed

end
