(* ===== verification/Service_Routes.thy ===== *)
theory Service_Routes
  imports Service_Contract
begin

text \<open>
  Calls against the HTTP server: the locale \<open>http_routes\<close> says what a table of handlers
  promises (each returns, does not throw, keeps the state and gives a good answer) and proves
  that then every sequence of calls is answered.  The routes of the daemon fulfil it, and its
  start-up ends in a server that serves them or in an exit code.
\<close>

section \<open>Serving calls\<close>

fun serve_calls :: "'e HttpServer \<Rightarrow> brpc_call list \<Rightarrow> 'e \<Rightarrow> (HttpResponse list \<times> 'e) option" where
  "serve_calls server [] e = Some ([], e)"
| "serve_calls server (c # cs) e =
     Option.bind (default_method server c e) (\<lambda>(resp, e).
       map_option (\<lambda>(resps, e). (resp # resps, e)) (serve_calls server cs e))"

abbreviation route_of :: "HttpRequest \<Rightarrow> string" where
  "route_of r \<equiv> RouteKey (rq_method r) (rq_path r)"

locale http_routes =
  fixes routes :: "(string, 'e http_handler) omap"
    and inv :: "'e \<Rightarrow> bool"
    and good :: "HttpRequest \<Rightarrow> HttpResponse \<Rightarrow> bool"
  assumes handler_answers:
      "map_of routes (route_of r) = Some h \<Longrightarrow> inv e \<Longrightarrow> \<exists>res e'. h r e = Some (Inr res, e') \<and> inv e' \<and> good r res"
    and no_route: "map_of routes (route_of r) = None \<Longrightarrow> rs_status_code res = 404 \<Longrightarrow> good r res"
begin

lemma Dispatch_answers:
  assumes "hs_routes server = routes" "inv e"
  shows "\<exists>res e'. Dispatch server r e = Some (res, e') \<and> inv e' \<and> good r res"
proof (cases "map_of routes (route_of r)")
  case None
  with assms no_route [OF None] show ?thesis by (simp add: Dispatch_def)
next
  case (Some h)
  with assms handler_answers [OF Some assms(2)] show ?thesis by (auto simp: Dispatch_def)
qed

lemma calls_answered:
  assumes "hs_routes server = routes" "inv e"
  shows "\<exists>resps e'. serve_calls server cs e = Some (resps, e') \<and> inv e' \<and> list_all2 (\<lambda>c. good (request_of_call c)) cs resps"
  using assms(2)
proof (induction cs arbitrary: e)
  case (Cons c cs)
  obtain res e1 where r: "Dispatch server (request_of_call c) e = Some (res, e1)" "inv e1" "good (request_of_call c) res"
    using Dispatch_answers [OF assms(1) Cons.prems] by blast
  from Cons.IH [OF r(2)] r show ?case by (auto simp: default_method_def)
qed simp

end

section \<open>The routes of the daemon\<close>

definition daemon_routes :: "('s, 'r, 'j) engine_env \<Rightarrow> rapid_api \<Rightarrow> (string, ('s, 'r) Service http_handler) omap" where
  "daemon_routes V P = hs_routes (with_routes V P (new_HttpServer '''' 0 0))"

lemma with_routes_new: "hs_routes (with_routes V P (new_HttpServer h p n)) = daemon_routes V P"
  by (simp add: daemon_routes_def with_routes_def RegisterRoute_def new_HttpServer_def)

lemma daemon_routes_of:
  "map_of (daemon_routes V P) k =
     (if k = ''GET /mcp/describe'' then Some (describe_route V P)
      else if k = ''POST /mcp'' then Some (mcp_route V P)
      else if k = ''GET /health'' then Some health_route else None)"
  by (simp add: daemon_routes_def with_routes_def RegisterRoute_def new_HttpServer_def map_of_omap_put RouteKey_def
      ToUpper_def to_upper_char_def)

text \<open>What a call is answered once the daemon is ready.\<close>

definition answered :: "rapid_api \<Rightarrow> HttpRequest \<Rightarrow> HttpResponse \<Rightarrow> bool" where
  "answered P r res \<longleftrightarrow>
     (if route_of r = ''POST /mcp'' then rpc_answered P (rq_body r) res
      else if route_of r \<in> {''GET /health'', ''GET /mcp/describe''} then rs_status_code res = 200
      else rs_status_code res = 404)"

definition serving :: "('s, 'r, 'j) engine_env \<Rightarrow> ('s, LshVectorIndex HybridRetriever) Service \<Rightarrow> bool" where
  "serving V sv \<longleftrightarrow> sv_ready sv \<and> resident_ok (over_hybrid V) (sv_engine sv)"

lemma mcp_route_answers:
  assumes laws: "json_laws (ev_json V) rnd readable" and "serving V sv"
  shows "\<exists>res sv'. mcp_route (over_hybrid V) P r sv = Some (Inr res, sv') \<and> serving V sv' \<and> rpc_answered P (rq_body r) res"
proof -
  from assms(2) have sv: "sv_ready sv" "resident_ok (over_hybrid V) (sv_engine sv)" by (simp_all add: serving_def)
  obtain resp e where rpc: "HandleMcpJsonRpc (over_hybrid V) P (rq_body r) (sv_engine sv) = Some (resp, e)"
    "resident_ok (over_hybrid V) e"
    and ans: "if rs_status_code resp = 0
      then \<exists>doc. rj_parse P (c_str (rq_body r)) = Some doc \<and> is_object doc \<and> rj_member ''jsonrpc'' doc = None
      else rpc_answered P (rq_body r) resp"
    using rpc_returns [OF laws sv(2), of P "rq_body r"] by blast
  show ?thesis
  proof (cases "rs_status_code resp = 0")
    case False
    with rpc ans sv(1) show ?thesis by (simp add: mcp_route_def serving_def Let_def)
  next
    case True
    with ans have plain: "rpc_answered P (rq_body r) res \<longleftrightarrow> rs_status_code res \<in> {200, 400}" for res
      by (auto simp: rpc_answered_def)
    show ?thesis
    proof (cases "ParseJson (ev_json V) (rq_body r)")
      case (Inl err)
      with rpc True sv(1) show ?thesis by (simp add: mcp_route_def serving_def Let_def plain)
    next
      case (Inr json)
      obtain res e' where "Handle (over_hybrid V) json e = Some (res, e')" "resident_ok (over_hybrid V) e'"
        using Handle_returns [OF laws rpc(2)] by blast
      with Inr rpc(1) True sv(1) show ?thesis by (simp add: mcp_route_def serving_def Let_def plain)
    qed
  qed
qed

lemma describe_route_answers:
  assumes "serving V sv"
  shows "\<exists>res sv'. describe_route (over_hybrid V) P r sv = Some (Inr res, sv') \<and> serving V sv' \<and> rs_status_code res = 200"
proof -
  have I: "resident_ok (over_hybrid V) (sv_engine sv)" using assms by (simp add: serving_def)
  have "resident_ok (over_hybrid V) (snd (NowMs (over_hybrid V) (sv_engine sv)))"
    by (rule hyb.acct.I_clock [OF I clock_step_NowMs])
  with assms show ?thesis by (simp add: describe_route_def serving_def case_prod_beta Let_def)
qed

lemma daemon_keeps_contract:
  assumes "json_laws (ev_json V) rnd readable"
  shows "http_routes (daemon_routes (over_hybrid V) P) (serving V) (answered P)"
proof
  fix r h e
  assume h: "map_of (daemon_routes (over_hybrid V) P) (route_of r) = Some h" and sv: "serving V e"
  show "\<exists>res e'. h r e = Some (Inr res, e') \<and> serving V e' \<and> answered P r res"
  proof (cases "route_of r = ''POST /mcp''")
    case True
    with h mcp_route_answers [OF assms sv, of P r] show ?thesis by (simp add: daemon_routes_of answered_def)
  next
    case mcp: False
    show ?thesis
    proof (cases "route_of r = ''GET /mcp/describe''")
      case True
      with h describe_route_answers [OF sv, of P r] show ?thesis by (simp add: daemon_routes_of answered_def)
    next
      case False
      with mcp h sv show ?thesis
        by (simp add: daemon_routes_of answered_def health_route_def serving_def split: if_splits)
    qed
  qed
qed (auto simp: daemon_routes_of answered_def split: if_splits)

sublocale json_laws \<subseteq> daemon: http_routes "daemon_routes (over_hybrid (V\<lparr> ev_json := J \<rparr>)) P" "serving (V\<lparr> ev_json := J \<rparr>)" "answered P"
  for V P
  using daemon_keeps_contract [of "V\<lparr> ev_json := J \<rparr>"] json_laws_axioms by simp

section \<open>Start-up\<close>

text \<open>Whatever is in the store, the warm-up of a new engine returns.\<close>

lemma Warmup_returns:
  "\<exists>err e. engine_Warmup (over_hybrid V) (new_MemoryEngine s r n opts) = Some (err, e) \<and> resident_ok (over_hybrid V) e"
  by (rule hyb.acct.I_Warmup [OF hyb.resident_ok_new]) (simp add: call_ok_def list_all_iff split: sum.split option.split)

lemma ApplyBrpc_cores:
  "fst (ApplyBrpcRuntimeOptions options flags) = Inr state \<Longrightarrow>
     br_resolved_core_number state = bo_core_number options \<and> 0 < bo_core_number options"
  by (auto simp: ApplyBrpcRuntimeOptions_def ResolveCoreCount_def Let_def split: if_splits option.splits)

lemma service_env_hybrid: "over_hybrid (service_env V S) = service_env V S"
  by (simp add: service_env_def)

lemma service_env_json [simp]: "ev_json (service_env V S) = ev_json V"
  by (simp add: service_env_def)

lemma serve_store_starts:
  "\<exists>outcome. serve_store V P S args state store = Some outcome \<and>
     (case outcome of
        Inl (exit_code, _) \<Rightarrow> exit_code = 1
      | Inr (server, sv) \<Rightarrow> serving (service_env V S) sv \<and> hs_running server \<and>
          hs_num_threads server = br_resolved_core_number state \<and> hs_routes server = daemon_routes (service_env V S) P)"
proof -
  let ?server = "with_routes (service_env V S) P (new_HttpServer (ar_host args) (ar_port args) (br_resolved_core_number state))"
  have fields: "hs_num_threads ?server = br_resolved_core_number state" "\<not> hs_running ?server"
    by (simp_all add: with_routes_def RegisterRoute_def new_HttpServer_def)
  obtain err e where w: "engine_Warmup (service_env V S) (new_MemoryEngine store (CreateHybridRetriever (ev_hash V)) ''local'' (engine_options_of args)) =
      Some (err, e)"
    "resident_ok (service_env V S) e"
    using Warmup_returns [of "service_env V S" store "CreateHybridRetriever (ev_hash V)" "''local''" "engine_options_of args"]
    unfolding service_env_hybrid by blast
  show ?thesis
  proof (cases "server_Start (su_brpc_start S) ?server")
    case (Pair server started)
    then have "started = None \<Longrightarrow> server = ?server\<lparr> hs_running := True \<rparr>"
      using fields by (auto simp: server_Start_def split: option.splits)
    with w Pair fields show ?thesis
      by (cases started; cases err) (simp_all add: serve_store_def Let_def serving_def service_env_hybrid with_routes_new del: service_env_json)
  qed
qed

lemma main_starts:
  "\<exists>outcome. pgmemd_main V P S dflt argv = Some outcome \<and>
     (case outcome of
        Inl (exit_code, _) \<Rightarrow> exit_code \<in> {1, 2}
      | Inr (server, sv) \<Rightarrow> serving (service_env V S) sv \<and> hs_running server \<and> 0 < hs_num_threads server \<and>
          hs_num_threads server \<le> 65535 \<and> hs_routes server = daemon_routes (service_env V S) P)"
proof -
  let ?args = "ParseArgs (default_Args dflt) argv"
  let ?applied = "fst (ApplyBrpcRuntimeOptions \<lparr> bo_core_number = ar_core_number ?args, bo_event_dispatcher_num = 0 \<rparr> (su_flags S))"
  show ?thesis
  proof (cases "ar_invalid_message ?args = None \<and> (\<exists>state. ?applied = Inr state) \<and> ar_core_number ?args \<le> 65535 \<and>
      (\<exists>store. open_store S dflt ?args = Inr store)")
    case True
    then obtain state store where ok: "ar_invalid_message ?args = None" "?applied = Inr state" "ar_core_number ?args \<le> 65535"
      "open_store S dflt ?args = Inr store" by blast
    have main: "pgmemd_main V P S dflt argv = serve_store V P S ?args state store"
      using ok by (simp add: pgmemd_main_def Let_def)
    obtain outcome where o: "serve_store V P S ?args state store = Some outcome"
      "case outcome of
        Inl (exit_code, _) \<Rightarrow> exit_code = 1
      | Inr (server, sv) \<Rightarrow> serving (service_env V S) sv \<and> hs_running server \<and>
          hs_num_threads server = br_resolved_core_number state \<and> hs_routes server = daemon_routes (service_env V S) P"
      using serve_store_starts [of V P S ?args state store] by blast
    show ?thesis unfolding main o(1) using o(2) ApplyBrpc_cores [OF ok(2)] ok(3) by (cases outcome) auto
  next
    case False
    have code: "open_store S dflt ?args = Inl failure \<Longrightarrow> fst failure = 1" for failure
      by (auto simp: open_store_def Let_def split: option.splits sum.splits if_splits)
    show ?thesis
    proof (cases "ar_invalid_message ?args")
      case None
      with False code show ?thesis
        by (cases ?applied; cases "open_store S dflt ?args") (auto simp: pgmemd_main_def Let_def)
    qed (simp add: pgmemd_main_def Let_def)
  qed
qed

text \<open>Before the warm-up has ended every call is refused and the engine is left alone.\<close>

definition refused :: "HttpRequest \<Rightarrow> HttpResponse \<Rightarrow> bool" where
  "refused r res \<longleftrightarrow>
     rs_status_code res = (if route_of r \<in> {''GET /health'', ''GET /mcp/describe'', ''POST /mcp''} then 503 else 404)"

interpretation unready: http_routes "daemon_routes V P" "\<lambda>sv. sv = \<lparr> sv_ready = False, sv_engine = e \<rparr>" refused for V P e
  by unfold_locales
    (auto simp: daemon_routes_of refused_def mcp_route_def describe_route_def health_route_def warming_up_def split: if_splits)

end
