(* ===== verification/Summary.thy ===== *)
theory Summary
  imports Text
begin

text \<open>
  The rolling summary of \<open>src/core/summary.cpp\<close>: new lines are appended and whole lines are
  dropped from the front until the text fits the token budget.
\<close>

definition tagged_line :: "string \<Rightarrow> string \<Rightarrow> string" where
  "tagged_line tag s = tag @ Trim s @ [CHR 0x0A]"

definition summary_text :: "string \<Rightarrow> string \<Rightarrow> string \<Rightarrow> string list \<Rightarrow> string list \<Rightarrow> string" where
  "summary_text existing_summary user_text assistant_text code_snippets commands =
     (if existing_summary \<noteq> '''' then existing_summary @ [CHR 0x0A] else '''') @
     tagged_line ''User: '' user_text @ tagged_line ''Assistant: '' assistant_text @
     (if code_snippets \<noteq> [] then tagged_line ''Code: '' (last code_snippets) else '''') @
     (if commands \<noteq> [] then tagged_line ''Cmd: '' (last commands) else '''')"

function drop_lines :: "nat \<Rightarrow> string \<Rightarrow> string" where
  "drop_lines max_tokens s =
     (if max_tokens < EstimateTokenCount s \<and> 64 < length s
      then (case str_find s [CHR 0x0A] of
              None \<Rightarrow> s
            | Some i \<Rightarrow> drop_lines max_tokens (drop (i + 1) s))
      else s)"
  by pat_completeness auto
termination
  by (relation "measure (length \<circ> snd)") auto

declare drop_lines.simps [simp del]

definition Update :: "string \<Rightarrow> string \<Rightarrow> string \<Rightarrow> string list \<Rightarrow> string list \<Rightarrow> nat \<Rightarrow> string" where
  "Update existing_summary user_text assistant_text code_snippets commands max_tokens =
     drop_lines max_tokens (summary_text existing_summary user_text assistant_text code_snippets commands)"

section \<open>The budget\<close>

lemma drop_lines_suffix: "suffix (drop_lines max_tokens s) s"
proof (induction max_tokens s rule: drop_lines.induct)
  case (1 max_tokens s)
  have "suffix (drop n s) s" for n by (rule suffix_drop)
  with 1 show ?case
    by (subst drop_lines.simps) (auto split: option.split intro: suffix_order.trans)
qed

text \<open>A text that ends with a line end has one wherever it is cut, so the loop never gives up.\<close>

lemma drop_lines_fits:
  "s = [] \<or> last s = CHR 0x0A \<Longrightarrow>
   EstimateTokenCount (drop_lines max_tokens s) \<le> max_tokens \<or> length (drop_lines max_tokens s) \<le> 64"
proof (induction max_tokens s rule: drop_lines.induct)
  case (1 max_tokens s)
  show ?case
  proof (cases "max_tokens < EstimateTokenCount s \<and> 64 < length s")
    case True
    then have "s \<noteq> []" by auto
    with 1(2) have "s = butlast s @ [CHR 0x0A]" by (metis append_butlast_last_id)
    then have "prefix [CHR 0x0A] (drop (length s - 1) s)" by (metis append_eq_conv_conj length_butlast prefix_order.refl)
    then obtain i where i: "str_find s [CHR 0x0A] = Some i" using str_find_None by blast
    have "drop (i + 1) s = [] \<or> last (drop (i + 1) s) = CHR 0x0A"
      using 1(2) by (cases "i + 1 < length s") auto
    with 1(1) [OF True i] have "EstimateTokenCount (drop_lines max_tokens (drop (i + 1) s)) \<le> max_tokens \<or>
        length (drop_lines max_tokens (drop (i + 1) s)) \<le> 64" by blast
    with True i show ?thesis by (subst (1 2) drop_lines.simps) simp
  next
    case False
    then show ?thesis by (subst (1 2) drop_lines.simps) auto
  qed
qed

lemma summary_text_line: "summary_text e u a cs cmds \<noteq> [] \<and> last (summary_text e u a cs cmds) = CHR 0x0A"
  by (simp add: summary_text_def tagged_line_def)

text \<open>Nothing is dropped from a text that fits.\<close>

lemma drop_lines_id: "EstimateTokenCount s \<le> max_tokens \<Longrightarrow> drop_lines max_tokens s = s"
  by (subst drop_lines.simps) simp

text \<open>
  C30. The updated summary is the end of the old summary and the new lines, it fits the token
  budget unless it is at most 64 bytes long, and it is the whole text when that fits.
\<close>

theorem Update_fits:
  "suffix (Update e u a cs cmds max_tokens) (summary_text e u a cs cmds) \<and>
   (EstimateTokenCount (Update e u a cs cmds max_tokens) \<le> max_tokens \<or> length (Update e u a cs cmds max_tokens) \<le> 64) \<and>
   (max_tokens < EstimateTokenCount (summary_text e u a cs cmds) \<or> Update e u a cs cmds max_tokens = summary_text e u a cs cmds)"
  using drop_lines_suffix drop_lines_fits [of "summary_text e u a cs cmds" max_tokens] summary_text_line [of e u a cs cmds]
    drop_lines_id [of "summary_text e u a cs cmds" max_tokens]
  by (simp add: Update_def) linarith

end
