(* ===== verification/Engine.thy ===== *)
theory Engine
  imports Engine_Inv
begin

text \<open>
  The properties of the memory engine: its accounting and the end of its eviction loop,
  the soundness and the token budget of queries, the behaviour of \<open>Write\<close> when the store
  fails and when it does not, deduplication, pin governance, the replay of the event log,
  and compaction.
\<close>

section \<open>Queries\<close>

lemma select_hits_sublist: "subseq (select_hits records input now used hits) hits"
  by (induction hits arbitrary: used) (auto simp: Let_def)

lemma subseq_set: "subseq xs ys \<Longrightarrow> x \<in> set xs \<Longrightarrow> x \<in> set ys"
  using notin_set_nthsI by (fastforce simp: subseq_conv_nths)

lemma subseq_distinct: "subseq xs ys \<Longrightarrow> distinct ys \<Longrightarrow> distinct xs"
  by (auto simp: subseq_conv_nths)

lemma select_hits_budget:
  "0 < q_token_budget input \<Longrightarrow> used \<le> nat (q_token_budget input) \<Longrightarrow>
   used + sum_list (map (\<lambda>h. EstimateTokenCount (h_content h)) (select_hits records input now used hits))
     \<le> nat (q_token_budget input)"
proof (induction hits arbitrary: used)
  case (Cons h hits)
  from Cons.IH [of used] Cons.IH [of "used + EstimateTokenCount (h_content h)"] Cons.prems show ?case
    by (auto simp: Let_def)
qed simp

lemma select_hits_fresh:
  "h \<in> set (select_hits records input now used hits) \<Longrightarrow>
   map_of records (RecordMapKey (q_workspace_id input) (h_memory_id h)) = Some r \<Longrightarrow> \<not> IsExpired r now"
  by (induction hits arbitrary: used) (auto simp: Let_def split: if_splits)

text \<open>Nothing is dropped when there is no budget and nothing is expired.\<close>

lemma select_hits_all:
  "q_token_budget input \<le> 0 \<Longrightarrow>
   (\<And>h r. h \<in> set hits \<Longrightarrow> map_of records (RecordMapKey (q_workspace_id input) (h_memory_id h)) = Some r \<Longrightarrow>
     \<not> IsExpired r now) \<Longrightarrow>
   select_hits records input now used hits = hits"
proof (induction hits arbitrary: used)
  case (Cons h hits)
  from Cons.IH Cons.prems show ?case by (auto simp: Let_def split: option.split)
qed simp

lemma engine_Query_hits:
  assumes "q_workspace_id input \<noteq> ''''"
  shows "qo_hits (fst (engine_Query V input e)) =
    select_hits (e_records e) input (ev_now V (e_ticks e + 1)) 0
      (qo_hits (rt_Query (ev_retriever V) (e_retriever e) input (ev_now V (e_ticks e)) (ev_stage V (e_ticks e + 1))))"
  using assms by (simp add: engine_Query_def NowMs_def Let_def)

lemma PassesFilter_access [simp]: "PassesFilter (plain_access r) f = PassesFilter r f"
  by (simp add: PassesFilter_def plain_access_def)

lemma hit_of_record_access [simp]: "hit_of_record (plain_access r) h = hit_of_record r h"
  by (simp add: hit_of_record_def plain_access_def)

context resident_engine begin

lemma Query_hit:
  assumes "synced V rinv rdocs e" "colon_free (q_workspace_id input)"
    and "hit \<in> set (qo_hits (fst (engine_Query V input e)))"
  obtains r where "map_of (e_records e) (RecordMapKey (q_workspace_id input) (h_memory_id hit)) = Some r"
    "\<not> r_tombstone r" "hit_of_record r hit" "PassesFilter r (q_filters input)"
    "\<not> IsExpired r (ev_now V (e_ticks e + 1))"
proof (cases "q_workspace_id input = ''''")
  case True
  with assms(3) show ?thesis by (simp add: engine_Query_def empty_QueryOutput_def)
next
  case False
  let ?hits = "qo_hits (rt_Query (ev_retriever V) (e_retriever e) input (ev_now V (e_ticks e))
    (ev_stage V (e_ticks e + 1)))"
  note sel = assms(3) [unfolded engine_Query_hits [OF False]]
  from sel have "hit \<in> set ?hits" by (rule subseq_set [OF select_hits_sublist])
  then obtain d where d: "rdocs (e_retriever e) (q_workspace_id input) (h_memory_id hit) = Some d"
    "hit_of_record d hit" "PassesFilter d (q_filters input)"
    using Query_sound [OF syncedD(3) [OF assms(1)]] by blast
  with syncedD(4) [OF assms(1,2), of "h_memory_id hit"] obtain r where
    r: "map_of (e_records e) (RecordMapKey (q_workspace_id input) (h_memory_id hit)) = Some r"
    "\<not> r_tombstone r" "plain_access d = plain_access r"
    by (auto simp: live_view_def split: option.splits if_splits)
  with d have "hit_of_record r hit" "PassesFilter r (q_filters input)"
    by (metis hit_of_record_access, metis PassesFilter_access)
  with r select_hits_fresh [OF sel r(1)] show ?thesis by (intro that) auto
qed

lemma Query_hits_distinct:
  assumes "rinv (e_retriever e)"
  shows "distinct (map h_memory_id (qo_hits (fst (engine_Query V input e))))"
proof (cases "q_workspace_id input = ''''")
  case True
  then show ?thesis by (simp add: engine_Query_def empty_QueryOutput_def)
next
  case False
  show ?thesis
    unfolding engine_Query_hits [OF False]
    by (rule subseq_distinct [OF subseq_map [OF select_hits_sublist] Query_distinct [OF assms]])
qed

end

text \<open>A fresh engine over the hybrid retriever, and its runs.\<close>

abbreviation fresh_engine :: "'s \<Rightarrow> (string \<Rightarrow> u64) \<Rightarrow> string \<Rightarrow> MemoryEngineOptions \<Rightarrow>
    ('s, LshVectorIndex HybridRetriever) MemoryEngine" where
  "fresh_engine s hash n opts \<equiv> new_MemoryEngine s (CreateHybridRetriever hash) n opts"

lemma fresh_synced: "synced (over_hybrid V) hybrid_inv ret_records (fresh_engine s hash n opts)"
  by (rule hyb.synced_new [OF hybrid_inv_init ret_records_init])

lemma run_returns:
  "\<exists>e. run_calls (over_hybrid V) cs (fresh_engine s hash n opts) = Some e \<and> resident_ok (over_hybrid V) e"
  by (rule hyb.acct.I_run_calls [OF hyb.resident_ok_new]) simp

lemma run_synced:
  assumes "calls_ok colon_free (over_hybrid V) cs (fresh_engine s hash n opts)"
    and "run_calls (over_hybrid V) cs (fresh_engine s hash n opts) = Some e"
  shows "synced (over_hybrid V) hybrid_inv ret_records e"
  using hyb.agree.I_run_calls [OF fresh_synced assms(1)] assms(2) by auto

section \<open>Folds of updates\<close>

definition key_of :: "MemoryRecord \<Rightarrow> string" where
  "key_of r = RecordMapKey (r_workspace_id r) (r_id r)"

lemma Upsert_records_map:
  "map_of (e_records (UpsertRecordInMemory V r e)) = (map_of (e_records e))(key_of r \<mapsto> r)"
  by (simp add: UpsertRecordInMemory_sel umap_simps key_of_def)

lemma Remove_records_map:
  "map_of (e_records (RemoveRecordInMemory V r e)) = (map_of (e_records e))(key_of r := None)"
  by (simp add: RemoveRecordInMemory_sel umap_simps key_of_def)

lemma fold_Upsert_other:
  "k \<notin> key_of ` set rs \<Longrightarrow>
   map_of (e_records (fold (UpsertRecordInMemory V) rs e)) k = map_of (e_records e) k"
  by (induction rs arbitrary: e) (auto simp: Upsert_records_map)

lemma fold_Upsert_in:
  "r \<in> set rs \<Longrightarrow> distinct (map key_of rs) \<Longrightarrow>
   map_of (e_records (fold (UpsertRecordInMemory V) rs e)) (key_of r) = Some r"
proof (induction rs arbitrary: e)
  case (Cons x rs)
  then show ?case by (cases "r = x") (simp_all add: fold_Upsert_other Upsert_records_map)
qed simp

lemma fold_Remove_map:
  "map_of (e_records (fold (RemoveRecordInMemory V) rs e)) k =
     (if k \<in> key_of ` set rs then None else map_of (e_records e) k)"
  by (induction rs arbitrary: e) (auto simp: Remove_records_map)

lemma fold_Upsert_sel:
  "e_options (fold (UpsertRecordInMemory V) rs e) = e_options e"
  "e_store (fold (UpsertRecordInMemory V) rs e) = e_store e"
  "e_node_id (fold (UpsertRecordInMemory V) rs e) = e_node_id e"
  by (induction rs arbitrary: e) (simp_all add: UpsertRecordInMemory_sel)

lemma fold_Upsert_cong:
  "e_records e = e_records e' \<Longrightarrow>
   e_records (fold (UpsertRecordInMemory V) rs e) = e_records (fold (UpsertRecordInMemory V) rs e')"
  by (induction rs arbitrary: e e') (simp_all add: UpsertRecordInMemory_sel)

lemma filed_key: "filed_ok m \<Longrightarrow> r \<in> snd ` set m \<Longrightarrow> map_of m (key_of r) = Some r"
  unfolding key_of_def by (rule filed_ok_in)

lemma filed_distinct_keys:
  assumes "filed_ok m"
  shows "distinct (map key_of (map snd m))"
proof -
  have "map key_of (map snd m) = map fst m"
    using assms by (auto simp: filed_ok_def key_of_def)
  with assms show ?thesis by (simp only: filed_ok_def)
qed

section \<open>What a compaction does to the records\<close>

definition compact_victims :: "('s, 'r) MemoryEngine \<Rightarrow> string \<Rightarrow> u64 \<Rightarrow> MemoryRecord list" where
  "compact_victims e ws now =
     take (if op_gc_batch_size (e_options e) = 0 then 256 else unat (op_gc_batch_size (e_options e)))
       (filter (\<lambda>r. \<not> r_pinned r \<and> \<not> r_tombstone r)
         (sort_by (compact_less now)
           (filter (\<lambda>r. \<not> r_tombstone r) (filter (in_workspace ws) (map snd (e_records e))))))"

lemma make_tombstone_key [simp]: "key_of (make_tombstone n now r) = key_of r"
  by (simp add: make_tombstone_def key_of_def Let_def)

lemma compact_plan_tombstoned:
  assumes "compact_plan V ws now e = (e', upserted, deleted)"
  shows "ca_records upserted = map (make_tombstone (e_node_id e) now) (compact_victims e ws now)"
    and "ca_count upserted = of_nat (length (compact_victims e ws now))"
proof -
  define mx where "mx = (if op_gc_batch_size (e_options e) = 0 then 256 else unat (op_gc_batch_size (e_options e)))"
  define act where "act = sort_by (compact_less now)
    (filter (\<lambda>r. \<not> r_tombstone r) (filter (in_workspace ws) (map snd (e_records e))))"
  define a0 where "a0 = \<lparr> ca_writes = [], ca_records = [], ca_count = 0, ca_actions = 0 \<rparr>"
  have "fst (snd (compact_plan V ws now e)) = snd (tombstone_loop V mx now act (e, a0))"
    unfolding compact_plan_def Let_def case_prod_beta fst_conv snd_conv mx_def act_def a0_def ..
  then have u: "upserted = snd (tombstone_loop V mx now act (e, a0))" by (simp add: assms)
  have v: "compact_victims e ws now = take mx (filter (\<lambda>r. \<not> r_pinned r \<and> \<not> r_tombstone r) act)"
    by (simp add: compact_victims_def mx_def act_def)
  show "ca_records upserted = map (make_tombstone (e_node_id e) now) (compact_victims e ws now)"
    "ca_count upserted = of_nat (length (compact_victims e ws now))"
    using tombstone_loop_records [of V mx now act e a0] by (simp_all add: u v a0_def)
qed

lemma compact_victims_in:
  "r \<in> set (compact_victims e ws now) \<Longrightarrow>
   r \<in> snd ` set (e_records e) \<and> \<not> r_tombstone r \<and> \<not> r_pinned r \<and> in_workspace ws r"
  by (auto simp: compact_victims_def dest!: in_set_takeD)

lemma compact_victims_distinct:
  assumes "filed_ok (e_records e)"
  shows "distinct (map key_of (compact_victims e ws now))"
proof -
  have "distinct (map key_of (sort_by (compact_less now)
      (filter (\<lambda>r. \<not> r_tombstone r) (filter (in_workspace ws) (map snd (e_records e))))))"
    unfolding distinct_map_sort_by
    by (intro distinct_map_filter filed_distinct_keys assms)
  then show ?thesis
    unfolding compact_victims_def take_map [symmetric]
    by (intro distinct_take distinct_map_filter)
qed

lemma compact_victims_clock: "clock_step e e' \<Longrightarrow> compact_victims e' ws now = compact_victims e ws now"
  by (simp add: compact_victims_def clock_step_sel)

text \<open>A compaction leaves the records alone, or applies its two lists.\<close>

lemma compact_outcome:
  assumes "CompactInternal V ws force e = (out, e')"
  obtains (same) "e_records e' = e_records e"
  | (applied) now dels where
      "\<forall>r \<in> set dels. r \<in> snd ` set (e_records e) \<and> r_tombstone r \<and> in_workspace ws r"
      "\<And>k. map_of (e_records e') k = (if k \<in> key_of ` set dels then None
         else map_of (e_records (fold (UpsertRecordInMemory V)
           (map (make_tombstone (e_node_id e) now) (compact_victims e ws now)) e)) k)"
proof (cases "\<not> force \<and> \<not> IsOverHighWatermark (e_options e)
    (fst (so_ApproximateUsage (ev_store V) (e_store e)))")
  case True
  with assms show ?thesis by (intro same) (simp add: CompactInternal_def Let_def)
next
  case False
  obtain now e1 where n: "NowMs V e = (now, e1)" by fastforce
  have c1: "clock_step e e1" using clock_step_NowMs [of e V] by (simp add: n)
  obtain e2 ups dels where pl: "compact_plan V ws now e1 = (e2, ups, dels)" by (metis prod_cases3)
  have c2: "clock_step e e2"
    using clock_step_trans [OF c1 clock_step_compact_plan [of e1 V ws now]] by (simp add: pl)
  obtain b e3 where ap: "compact_apply V (ca_writes dels) (ca_records ups) (ca_records dels)
      (ca_count dels) e2 = (b, e3)" by fastforce
  have e': "e_records e' = e_records e3"
    using assms False by (auto simp: CompactInternal_def n pl ap Let_def)
  obtain s res where bw: "so_BatchWrite (ev_store V) (ca_writes dels) (e_store e2) = (s, res)" by fastforce
  have u: "ca_records ups = map (make_tombstone (e_node_id e) now) (compact_victims e ws now)"
    using compact_plan_tombstoned(1) [OF pl] by (simp add: compact_victims_clock [OF c1] clock_step_sel [OF c1])
  show ?thesis
  proof (cases "e_records e3 = e_records e2")
    case True
    with e' show ?thesis by (intro same) (simp add: clock_step_sel [OF c2])
  next
    case False
    with ap have "e_records e3 = e_records (fold (RemoveRecordInMemory V) (ca_records dels)
        (fold (UpsertRecordInMemory V) (ca_records ups) (e2\<lparr> e_store := s \<rparr>)))"
      by (auto simp: compact_apply_def bw Let_def split: if_splits)
    moreover have "e_records (e2\<lparr> e_store := s \<rparr>) = e_records e" by (simp add: clock_step_sel [OF c2])
    ultimately show ?thesis
      using compact_plan_records(2) [OF pl]
      by (intro applied [of "ca_records dels" now])
        (simp_all add: e' fold_Remove_map u clock_step_sel [OF c1] fold_Upsert_cong [of "e2\<lparr> e_store := s \<rparr>" e])
  qed
qed

text \<open>
  The state after a compaction: each record is untouched, a tombstone of itself if it was
  chosen, or gone if it was a tombstone.
\<close>

lemma compact_records:
  assumes f: "filed_ok (e_records e)" and r: "map_of (e_records e) k = Some r"
    and "CompactInternal V ws force e = (out, e')"
  shows "map_of (e_records e') k = Some r \<or>
      (\<exists>now. r \<in> set (compact_victims e ws now) \<and>
        map_of (e_records e') k = Some (make_tombstone (e_node_id e) now r)) \<or>
      r_tombstone r \<and> in_workspace ws r \<and> map_of (e_records e') k = None"
  using assms(3)
proof (cases rule: compact_outcome)
  case same
  with r show ?thesis by simp
next
  case (applied now dels)
  let ?v = "compact_victims e ws now"
  let ?u = "map (make_tombstone (e_node_id e) now) ?v"
  have uniq: "r' = r" if "r' \<in> snd ` set (e_records e)" "key_of r' = k" for r'
    using filed_key [OF f that(1)] that(2) r by simp
  have key: "k = key_of r" using filed_okD(1) [OF f r] by (simp add: key_of_def)
  consider "k \<in> key_of ` set dels" | "k \<notin> key_of ` set dels" "r \<in> set ?v" | "k \<notin> key_of ` set dels" "r \<notin> set ?v"
    by blast
  then show ?thesis
  proof cases
    case 1
    then obtain r' where "r' \<in> set dels" "key_of r' = k" by auto
    with applied(1) uniq have "r_tombstone r" "in_workspace ws r" by auto
    with 1 applied(2) show ?thesis by simp
  next
    case 2
    have "distinct (map key_of ?u)" using compact_victims_distinct [OF f] by (simp add: comp_def)
    then have "map_of (e_records (fold (UpsertRecordInMemory V) ?u e)) k = Some (make_tombstone (e_node_id e) now r)"
      using fold_Upsert_in [of "make_tombstone (e_node_id e) now r" ?u V e] 2(2) by (simp add: key)
    with 2 applied(2) show ?thesis by auto
  next
    case 3
    have "key_of r' \<noteq> k" if "r' \<in> set ?v" for r'
      using uniq [of r'] compact_victims_in [OF that] that 3(2) by auto
    moreover have "key_of ` set ?u = key_of ` set ?v" by (simp add: image_image)
    ultimately have "k \<notin> key_of ` set ?u" by (metis (no_types, lifting) imageE)
    with 3 applied(2) r show ?thesis by (simp add: fold_Upsert_other)
  qed
qed

section \<open>The outcomes of Write\<close>

lemma write_step_progress:
  "let out = wa_out (snd (write_step V input now rec_in (e, a))) in
   wo_stored_ids out \<noteq> [] \<or> wo_deduped_ids out \<noteq> [] \<or> wo_warnings out \<noteq> []"
  by (cases rule: write_step_cases [of V input now rec_in e a]) auto

lemma write_fold_progress:
  "rs \<noteq> [] \<Longrightarrow>
   let out = wa_out (snd (fold (write_step V input now) rs (e, a))) in
   wo_stored_ids out \<noteq> [] \<or> wo_deduped_ids out \<noteq> [] \<or> wo_warnings out \<noteq> []"
proof (induction rs rule: rev_induct)
  case (snoc r rs)
  show ?case
    using write_step_progress [of V input now r "fst (fold (write_step V input now) rs (e, a))"
      "snd (fold (write_step V input now) rs (e, a))"]
    by simp
qed simp

lemma Write_outcome:
  assumes "engine_Write V input e = Some (out, e')" "wi_workspace_id input \<noteq> ''''" "wi_records input \<noteq> []"
    and st: "write_stage V input e = (now, e1, a)"
  obtains (idle) "wa_writes a = []" "e' = e1" "out = (wa_out a)\<lparr> wo_ok := True \<rparr>"
  | (failed) e2 err where "wa_writes a \<noteq> []" "PersistBatchNow V (wa_writes a) e1 = (e2, Some err)" "e' = e2"
      "out = add_warning err ((wa_out a)\<lparr> wo_ok := False \<rparr>)"
  | (stored) e2 e4 e5 err' where "wa_writes a \<noteq> []" "PersistBatchNow V (wa_writes a) e1 = (e2, None)"
      "PersistBatchNow V (route_write V (wi_workspace_id input) now)
         (fold (UpsertRecordInMemory V) (wa_upserts a) e2) = (e4, err')"
      "EnforceResidentHardLimit V None e4 = Some e5" "write_finish V input (wa_upserts a) (wa_out a) e5 = (out, e')"
proof -
  have prog: "wo_stored_ids (wa_out a) \<noteq> [] \<or> wo_deduped_ids (wa_out a) \<noteq> [] \<or> wo_warnings (wa_out a) \<noteq> []"
  proof -
    from st obtain a0 where "fold (write_step V input now) (wi_records input) (snd (NowMs V e), a0) = (e1, a)"
      by (auto simp: write_stage_def Let_def case_prod_beta)
    then show ?thesis using write_fold_progress [OF assms(3), of V input now "snd (NowMs V e)" a0]
      by (simp add: Let_def)
  qed
  obtain e2 err where p: "PersistBatchNow V (wa_writes a) e1 = (e2, err)" by fastforce
  obtain e4 err' where p2: "PersistBatchNow V (route_write V (wi_workspace_id input) now)
      (fold (UpsertRecordInMemory V) (wa_upserts a) e2) = (e4, err')" by fastforce
  show ?thesis
  proof (cases "wa_writes a = []")
    case True
    have "e' = e1" using True assms by (simp add: engine_Write_def Let_def)
    moreover have "out = (wa_out a)\<lparr> wo_ok := True \<rparr>" using True assms prog
      by (auto simp: engine_Write_def Let_def)
    ultimately show ?thesis using True idle by blast
  next
    case False
    then show ?thesis
    proof (cases err)
      case None
      from False None assms p p2 obtain e5 where "EnforceResidentHardLimit V None e4 = Some e5"
        "write_finish V input (wa_upserts a) (wa_out a) e5 = (out, e')"
        by (auto simp: engine_Write_def Let_def)
      with False None p p2 show ?thesis using stored by blast
    next
      case (Some err)
      with False assms p have "e' = e2" "out = add_warning err ((wa_out a)\<lparr> wo_ok := False \<rparr>)"
        by (simp_all add: engine_Write_def Let_def)
      with False Some p failed show ?thesis by blast
    qed
  qed
qed

lemma PersistBatchNow_eq:
  "PersistBatchNow V ws e = (e', err) \<longleftrightarrow>
   e' = e\<lparr> e_store := fst (so_BatchWrite (ev_store V) ws (e_store e)) \<rparr> \<and>
   err = (if sr_ok (snd (so_BatchWrite (ev_store V) ws (e_store e))) then None
          else Some (sr_error (snd (so_BatchWrite (ev_store V) ws (e_store e)))))"
  by (auto simp: PersistBatchNow_def Let_def case_prod_beta)

lemma write_finish_sel:
  assumes "write_finish V input ups out e = (out', e')"
  shows "same_memory e e'" "e_store e' = e_store e" "wo_ok out'" "wo_stored_ids out' = wo_stored_ids out"
    "wo_deduped_ids out' = wo_deduped_ids out" "wo_index_generation out' = e_index_generation e'"
    "e_index_generation e' = e_index_generation e + 1"
  using assms same_memory_write_finish [of e V input ups out]
  by (auto simp: write_finish_def Let_def MaybeScheduleGc_def)

lemma EnforceResidentHardLimit_enforced:
  assumes "filed_ok (e_records e)" "EnforceResidentHardLimit V p e = Some e'"
  shows "enforced e e'"
  using Enforce_returns [OF assms(1), of V p] assms(2) by (metis option.inject)

lemma filed_fold_Upsert: "filed_ok (e_records e) \<Longrightarrow> filed_ok (e_records (fold (UpsertRecordInMemory V) rs e))"
  by (induction rs arbitrary: e) (simp_all add: UpsertRecordInMemory_sel filed_ok_put)

section \<open>Pin governance over a batch\<close>

definition pinned_in :: "string \<Rightarrow> MemoryRecord \<Rightarrow> bool" where
  "pinned_in ws r \<longleftrightarrow> r_workspace_id r = ws \<and> \<not> r_tombstone r \<and> r_pinned r"

definition active_in :: "string \<Rightarrow> MemoryRecord \<Rightarrow> bool" where
  "active_in ws r \<longleftrightarrow> r_workspace_id r = ws \<and> \<not> r_tombstone r"

lemma pin_stats_counts:
  "ps_pinned (ComputeWorkspacePinStats m ws) = umap_count (\<lambda>kv. pinned_in ws (snd kv)) m"
  "ps_active (ComputeWorkspacePinStats m ws) = umap_count (\<lambda>kv. active_in ws (snd kv)) m"
proof -
  have "ps_pinned (fold (\<lambda>kv. count_pin ws (snd kv)) m s) =
      ps_pinned s + umap_count (\<lambda>kv. pinned_in ws (snd kv)) m \<and>
    ps_active (fold (\<lambda>kv. count_pin ws (snd kv)) m s) =
      ps_active s + umap_count (\<lambda>kv. active_in ws (snd kv)) m" for s
    by (induction m arbitrary: s) (auto simp: umap_count_def count_pin_def pinned_in_def active_in_def Let_def)
  then show "ps_pinned (ComputeWorkspacePinStats m ws) = umap_count (\<lambda>kv. pinned_in ws (snd kv)) m"
    "ps_active (ComputeWorkspacePinStats m ws) = umap_count (\<lambda>kv. active_in ws (snd kv)) m"
    by (simp_all add: ComputeWorkspacePinStats_def)
qed

lemma umap_count_submap:
  assumes "umap_ok m" "umap_ok m'" "map_of m' \<subseteq>\<^sub>m map_of m"
  shows "umap_count P m' \<le> umap_count P m"
proof -
  have "set m' \<subseteq> set m"
  proof
    fix p assume p: "p \<in> set m'"
    obtain k v where kv: "p = (k, v)" by fastforce
    with p have "map_of m' k = Some v" using umap_mem_iff [OF assms(2)] by simp
    then have "map_of m k = Some v" using assms(3) by (metis domI map_le_def)
    then show "p \<in> set m" by (simp add: kv map_of_SomeD)
  qed
  moreover have "distinct m" "distinct m'" using assms(1,2) by (simp_all add: distinct_map)
  ultimately have "card (set (filter P m')) \<le> card (set (filter P m))" by (intro card_mono) auto
  moreover have "length (filter P m) = card (set (filter P m))" "length (filter P m') = card (set (filter P m'))"
    using \<open>distinct m\<close> \<open>distinct m'\<close> by (simp_all only: distinct_card distinct_filter)
  ultimately show ?thesis by (simp only: umap_count_def)
qed

lemma fold_Upsert_count:
  assumes "filed_ok (e_records e)"
  shows "umap_count (\<lambda>kv. pinned_in ws (snd kv)) (e_records (fold (UpsertRecordInMemory V) rs e)) \<le>
    umap_count (\<lambda>kv. pinned_in ws (snd kv)) (e_records e) + length (filter (pinned_in ws) rs)"
  using assms
proof (induction rs arbitrary: e)
  case (Cons r rs)
  have "filed_ok (e_records (UpsertRecordInMemory V r e))"
    using Cons.prems by (simp add: UpsertRecordInMemory_sel filed_ok_put)
  note IH = Cons.IH [OF this]
  have "umap_count (\<lambda>kv. pinned_in ws (snd kv)) (e_records (UpsertRecordInMemory V r e)) \<le>
      umap_count (\<lambda>kv. pinned_in ws (snd kv)) (e_records e) + (if pinned_in ws r then 1 else 0)"
    using umap_count_put_le [OF filed_okD(2) [OF Cons.prems], of "\<lambda>kv. pinned_in ws (snd kv)"]
    by (simp add: UpsertRecordInMemory_sel)
  with IH show ?case by (cases "pinned_in ws r") simp_all
qed simp

definition pins_granted :: "nat \<Rightarrow> nat \<Rightarrow> write_acc \<Rightarrow> bool" where
  "pins_granted quota before a \<longleftrightarrow>
     wa_projected_pinned a = before + length (filter r_pinned (wa_upserts a)) \<and>
     (filter r_pinned (wa_upserts a) \<noteq> [] \<longrightarrow> wa_projected_pinned a \<le> quota)"

lemma pins_granted_step:
  assumes "pins_granted (unat (op_pin_quota_per_workspace (e_options e))) before a"
  shows "pins_granted (unat (op_pin_quota_per_workspace (e_options e))) before
    (snd (write_step V input now rec_in (e, a)))"
proof (cases rule: write_step_cases [of V input now rec_in e a])
  case (skip e' out')
  with assms show ?thesis by (auto simp: pins_granted_def)
next
  case (stage e1 e' out' r rid pinned lg)
  have "r_pinned r = pinned" using stage(5) by (simp add: build_record_sel)
  with assms stage(1,7) pin_decision_granted [of "e_options e" "wr_pin rec_in"] show ?thesis
    by (auto simp: pins_granted_def)
qed

lemma pins_granted_fold:
  "pins_granted (unat (op_pin_quota_per_workspace (e_options e))) before a \<Longrightarrow>
   pins_granted (unat (op_pin_quota_per_workspace (e_options e))) before
     (snd (fold (write_step V input now) rs (e, a)))"
proof (induction rs arbitrary: e a)
  case (Cons r rs)
  obtain e' a' where s: "write_step V input now r (e, a) = (e', a')" by fastforce
  then have "e_options e' = e_options e"
    using clock_step_sel(5) [OF clock_step_write_step [of e V input now r a]] by simp
  with Cons.IH [of e' a'] pins_granted_step [OF Cons.prems, of V input now r] s show ?case by simp
qed simp

lemma pins_granted_stage:
  "pins_granted (unat (op_pin_quota_per_workspace (e_options e)))
     (ps_pinned (ComputeWorkspacePinStats (e_records e) (wi_workspace_id input)))
     (snd (snd (write_stage V input e)))"
proof -
  have c: "clock_step e (snd (NowMs V e))" by simp
  show ?thesis
    unfolding write_stage_def Let_def case_prod_beta snd_conv
    by (rule pins_granted_fold [of "snd (NowMs V e)", unfolded clock_step_sel [OF c]])
      (simp add: pins_granted_def clock_step_sel [OF c])
qed

section \<open>Deduplication\<close>

definition dedup_id :: "('s, 'r) MemoryEngine \<Rightarrow> WriteInput \<Rightarrow> WriteRecordInput \<Rightarrow> string option" where
  "dedup_id e input rec_in =
     (if wr_dedup_key rec_in \<noteq> '''' \<and> wi_write_mode input \<noteq> ''append''
      then map_of (e_dedup_index e) (wi_workspace_id input @ '':'' @ wr_dedup_key rec_in) else None)"

lemma write_step_known:
  "wr_content rec_in \<noteq> '''' \<Longrightarrow> dedup_id e input rec_in = Some i \<Longrightarrow>
   write_step V input now rec_in (e, a) =
     (e, a\<lparr> wa_out := (wa_out a)\<lparr> wo_deduped_ids := wo_deduped_ids (wa_out a) @ [i] \<rparr> \<rparr>)"
  by (simp add: write_step_def dedup_id_def)

lemma write_fold_known:
  "list_all (\<lambda>r. wr_content r \<noteq> '''' \<and> dedup_id e input r \<noteq> None) rs \<Longrightarrow>
   fold (write_step V input now) rs (e, a) =
     (e, a\<lparr> wa_out := (wa_out a)\<lparr> wo_deduped_ids := wo_deduped_ids (wa_out a) @
            map (\<lambda>r. the (dedup_id e input r)) rs \<rparr> \<rparr>)"
proof (induction rs arbitrary: a)
  case (Cons r rs)
  then obtain i where "dedup_id e input r = Some i" "wr_content r \<noteq> ''''" by auto
  with Cons show ?case by (simp add: write_step_known)
qed simp

lemma Write_known:
  assumes "wi_workspace_id input \<noteq> ''''" "wi_records input \<noteq> []"
    and known: "list_all (\<lambda>r. wr_content r \<noteq> '''' \<and> dedup_id e input r \<noteq> None) (wi_records input)"
  shows "engine_Write V input e =
    Some (default_WriteOutput\<lparr> wo_ok := True,
            wo_deduped_ids := map (\<lambda>r. the (dedup_id e input r)) (wi_records input) \<rparr>,
          e\<lparr> e_ticks := e_ticks e + 1 \<rparr>)"
proof -
  let ?e = "snd (NowMs V e)"
  have d: "dedup_id ?e input r = dedup_id e input r" for r
    by (simp add: dedup_id_def NowMs_def)
  have "write_stage V input e = (fst (NowMs V e), ?e, \<lparr> wa_out = default_WriteOutput\<lparr>
      wo_deduped_ids := map (\<lambda>r. the (dedup_id e input r)) (wi_records input) \<rparr>, wa_writes = [], wa_upserts = [],
      wa_projected_active = ps_active (ComputeWorkspacePinStats (e_records ?e) (wi_workspace_id input)),
      wa_projected_pinned = ps_pinned (ComputeWorkspacePinStats (e_records ?e) (wi_workspace_id input)) \<rparr>)"
    using write_fold_known [of ?e input "wi_records input" V "fst (NowMs V e)"] known
    by (simp only: write_stage_def Let_def case_prod_beta d) (simp add: default_WriteOutput_def)
  with assms(1,2) show ?thesis
    by (simp add: engine_Write_def Let_def NowMs_def default_WriteOutput_def)
qed

lemma write_step_fresh:
  assumes "wr_content rec_in \<noteq> ''''" "dedup_id e input rec_in = None"
  obtains rid e1 pinned o1 where "clock_step e e1"
    "write_step V input now rec_in (e, a) =
       stage_record V now (build_record e1 input rec_in rid pinned now) (e1, a\<lparr> wa_out := o1 \<rparr>)"
    "wo_stored_ids o1 = wo_stored_ids (wa_out a)" "wo_deduped_ids o1 = wo_deduped_ids (wa_out a)"
proof -
  obtain rid e1 where id: "(if wr_record_id rec_in = '''' then NextMemoryId V e
      else (wr_record_id rec_in, e)) = (rid, e1)" by fastforce
  have "clock_step e (snd (if wr_record_id rec_in = '''' then NextMemoryId V e else (wr_record_id rec_in, e)))"
    by simp
  then have e1: "clock_step e e1" by (simp only: id snd_conv)
  obtain pinned warning where pin: "pin_decision (e_options e1) (wr_pin rec_in) (wa_projected_active a)
      (wa_projected_pinned a) = (pinned, warning)" by fastforce
  let ?out = "case warning of None \<Rightarrow> wa_out a | Some w \<Rightarrow> add_warning (w @ rid) (wa_out a)"
  have "write_step V input now rec_in (e, a) =
      stage_record V now (build_record e1 input rec_in rid pinned now) (e1, a\<lparr> wa_out := ?out \<rparr>)"
    using assms by (simp add: write_step_def dedup_id_def id pin cong: option.case_cong split: option.split)
  with e1 show ?thesis
    by (rule that) (simp_all add: add_warning_def split: option.split)
qed

lemma dedup_id_cong: "e_dedup_index e' = e_dedup_index e \<Longrightarrow> dedup_id e' input r = dedup_id e input r"
  by (simp add: dedup_id_def)

lemma dedup_id_Upsert:
  assumes "x = build_record e1 input r rid pinned now" "wr_dedup_key r \<noteq> ''''" "wi_write_mode input \<noteq> ''append''"
  shows "dedup_id (UpsertRecordInMemory V x e) input r = Some rid"
  using assms(2,3) unfolding dedup_id_def UpsertRecordInMemory_sel assms(1)
  by (simp add: umap_simps build_record_def Let_def)

lemma fold_Upsert_dedup_cong:
  "e_dedup_index e = e_dedup_index e' \<Longrightarrow>
   e_dedup_index (fold (UpsertRecordInMemory V) rs e) = e_dedup_index (fold (UpsertRecordInMemory V) rs e')"
  by (induction rs arbitrary: e e') (simp_all add: UpsertRecordInMemory_sel)

text \<open>What a successful batch leaves: the staged records in memory, less what was evicted.\<close>

lemma Write_effect:
  assumes f: "filed_ok (e_records e)" and w: "engine_Write V input e = Some (out, e')"
    and ws: "wi_workspace_id input \<noteq> ''''" and ne: "wi_records input \<noteq> []"
    and st: "write_stage V input e = (now, e1, a)" and ok: "wo_ok out" "wa_writes a \<noteq> []"
  obtains e4 where
    "e_records e4 = e_records (fold (UpsertRecordInMemory V) (wa_upserts a) e)"
    "e_dedup_index e4 = e_dedup_index (fold (UpsertRecordInMemory V) (wa_upserts a) e)"
    "filed_ok (e_records e4)" "enforced e4 e'" "e_store e' = e_store e4"
    "sr_ok (snd (so_BatchWrite (ev_store V) (wa_writes a) (e_store e)))"
    "e_store e4 = fst (so_BatchWrite (ev_store V) (route_write V (wi_workspace_id input) now)
      (fst (so_BatchWrite (ev_store V) (wa_writes a) (e_store e))))"
    "wo_stored_ids out = wo_stored_ids (wa_out a)" "wo_deduped_ids out = wo_deduped_ids (wa_out a)"
  using w ws ne st
proof (cases rule: Write_outcome)
  case idle
  with ok(2) show ?thesis by simp
next
  case (failed e2 err)
  with ok(1) show ?thesis by (simp add: add_warning_def)
next
  case (stored e2 e4 e5 err')
  have c: "clock_step e e1" using clock_step_write_stage [of e V input] by (simp add: st)
  have e2: "e_records e2 = e_records e" "e_dedup_index e2 = e_dedup_index e"
    "e_store e2 = fst (so_BatchWrite (ev_store V) (wa_writes a) (e_store e))"
    using stored(2) by (simp_all add: PersistBatchNow_eq clock_step_sel [OF c])
  have e4: "e_records e4 = e_records (fold (UpsertRecordInMemory V) (wa_upserts a) e2)"
    "e_dedup_index e4 = e_dedup_index (fold (UpsertRecordInMemory V) (wa_upserts a) e2)"
    using stored(3) by (simp_all add: PersistBatchNow_eq)
  have f4: "filed_ok (e_records e4)" unfolding e4(1) using f e2(1) by (intro filed_fold_Upsert) simp
  have "enforced e4 e5" by (rule EnforceResidentHardLimit_enforced [OF f4 stored(4)])
  then have "enforced e4 e'" "e_store e' = e_store e4"
    using write_finish_sel(1,2) [OF stored(5)] by (simp_all add: enforced_def same_memory_def)
  moreover have "sr_ok (snd (so_BatchWrite (ev_store V) (wa_writes a) (e_store e)))"
    using stored(2) by (simp add: PersistBatchNow_eq clock_step_sel [OF c] split: if_splits)
  moreover have "e_store e4 = fst (so_BatchWrite (ev_store V) (route_write V (wi_workspace_id input) now)
      (fst (so_BatchWrite (ev_store V) (wa_writes a) (e_store e))))"
    using stored(3) by (simp add: PersistBatchNow_eq fold_Upsert_sel e2)
  ultimately show ?thesis
    using e4 f4 fold_Upsert_cong [OF e2(1)] fold_Upsert_dedup_cong [OF e2(2)] write_finish_sel(4,5) [OF stored(5)]
    by (intro that [of e4]) simp_all
qed

lemma Write_idle:
  assumes "engine_Write V input e = Some (out, e')" "wi_workspace_id input \<noteq> ''''" "wi_records input \<noteq> []"
    "write_stage V input e = (now, e1, a)" "wa_writes a = []"
  shows "e' = e1" "out = (wa_out a)\<lparr> wo_ok := True \<rparr>"
  using assms by (auto elim: Write_outcome)

text \<open>After a batch with a single record, its key is in the index, whichever way it got there.\<close>

lemma Write_single_fresh:
  fixes e :: "('s, 'r) MemoryEngine"
  assumes "wi_records input = [r]" "wr_content r \<noteq> ''''" "dedup_id e input r = None"
  obtains (oversized) now e1 a where "write_stage V input e = (now, e1, a)" "wa_writes a = []"
      "wo_stored_ids (wa_out a) = []" "wo_deduped_ids (wa_out a) = []"
  | (staged) now e1 a and e0 :: "('s, 'r) MemoryEngine" and rid pinned where "write_stage V input e = (now, e1, a)" "wa_writes a \<noteq> []"
      "wa_upserts a = [build_record e0 input r rid pinned now]"
      "wo_stored_ids (wa_out a) = [rid]" "wo_deduped_ids (wa_out a) = []"
proof -
  define now where "now = fst (NowMs V e)"
  define e0 where "e0 = snd (NowMs V e)"
  have c: "clock_step e e0" by (simp add: e0_def)
  obtain a0 where st: "write_stage V input e = (now, write_step V input now r (e0, a0))"
      "wo_stored_ids (wa_out a0) = []" "wo_deduped_ids (wa_out a0) = []" "wa_upserts a0 = []" "wa_writes a0 = []"
    by (simp add: write_stage_def Let_def case_prod_beta assms(1) default_WriteOutput_def now_def e0_def)
  have "dedup_id e0 input r = None"
    using assms(3) dedup_id_cong [OF clock_step_sel(2) [OF c]] by simp
  then obtain rid e1 pinned o1 where s: "clock_step e0 e1"
    "write_step V input now r (e0, a0) =
       stage_record V now (build_record e1 input r rid pinned now) (e1, a0\<lparr> wa_out := o1 \<rparr>)"
    "wo_stored_ids o1 = []" "wo_deduped_ids o1 = []"
    using write_step_fresh [OF assms(2)] st(2,3) by metis
  let ?x = "build_record e1 input r rid pinned now"
  show ?thesis
  proof (cases rule: stage_record_cases [of e1 ?x V now "a0\<lparr> wa_out := o1 \<rparr>"])
    case 1: oversized
    have "write_stage V input e = (now, e1, a0\<lparr> wa_out := add_warning (''skip oversized record: '' @ r_id ?x) o1 \<rparr>)"
      using st s 1 by simp
    then show ?thesis by (rule oversized) (simp_all add: add_warning_def st s)
  next
    case 2: (staged e2 lg)
    define a where "a = snd (stage_record V now ?x (e1, a0\<lparr> wa_out := o1 \<rparr>))"
    have "write_stage V input e = (now, e2, a)" using st s 2 by (simp add: a_def)
    moreover have "wa_writes a \<noteq> []" "wa_upserts a = [?x]" "wo_stored_ids (wa_out a) = [rid]"
      "wo_deduped_ids (wa_out a) = []"
      using 2(4) st(4) s(3,4) by (simp_all add: a_def build_record_sel record_writes_nonempty)
    ultimately show ?thesis by (rule staged)
  qed
qed

lemma Write_single_indexed:
  assumes f: "filed_ok (e_records e)" and ws: "wi_workspace_id input \<noteq> ''''" and rs: "wi_records input = [r]"
    and key: "wr_content r \<noteq> ''''" "wr_dedup_key r \<noteq> ''''" "wi_write_mode input \<noteq> ''append''"
    and w: "engine_Write V input e = Some (out, e')" "wo_ok out" "wo_stored_ids out @ wo_deduped_ids out \<noteq> []"
  shows "\<exists>i. dedup_id e' input r = Some i \<and> wo_stored_ids out @ wo_deduped_ids out = [i]"
proof (cases "dedup_id e input r")
  case (Some i)
  with ws rs key w show ?thesis by (auto simp: Write_known default_WriteOutput_def dedup_id_def)
next
  case None
  have ne: "wi_records input \<noteq> []" by (simp add: rs)
  show ?thesis
  proof (cases rule: Write_single_fresh [OF rs key(1) None, of V])
    case oversized: (1 now e1 a)
    with Write_idle [OF w(1) ws ne] w(3) show ?thesis by simp
  next
    case staged: (2 now e1 a e0 rid pinned)
    obtain e4 where "e_dedup_index e4 = e_dedup_index (fold (UpsertRecordInMemory V) (wa_upserts a) e)"
      "enforced e4 e'" "wo_stored_ids out = [rid]" "wo_deduped_ids out = []"
      using Write_effect [OF f w(1) ws ne staged(1) w(2) staged(2)] staged(4,5) by metis
    then have "e_dedup_index e' = e_dedup_index (UpsertRecordInMemory V (build_record e0 input r rid pinned now) e)"
      by (simp add: enforced_def staged(3))
    then have "dedup_id e' input r = Some rid"
      using dedup_id_cong dedup_id_Upsert [OF refl key(2,3)] by metis
    with \<open>wo_stored_ids out = [rid]\<close> \<open>wo_deduped_ids out = []\<close> show ?thesis by simp
  qed
qed

section \<open>Replay\<close>

lemma fill_defaults_stamp [simp]: "stamp_of (fill_defaults r) = stamp_of r"
  by (simp add: fill_defaults_def stamp_of_def Let_def)

lemma fill_defaults_key [simp]: "key_of (fill_defaults r) = key_of r"
  by (simp add: key_of_def fill_defaults_ws)

lemma newer_iff: "IsIncomingNewer current incoming \<longleftrightarrow> stamp_of current < stamp_of incoming"
  by (auto simp: IsIncomingNewer_def stamp_of_def less_stamp_def)

lemma apply_incoming_records:
  "map_of (e_records (apply_incoming V r e)) =
     (if (case map_of (e_records e) (key_of r) of None \<Rightarrow> True | Some c \<Rightarrow> stamp_of c < stamp_of r)
      then (map_of (e_records e))(key_of r \<mapsto> fill_defaults r) else map_of (e_records e))"
  by (simp add: apply_incoming_def Upsert_records_map newer_iff key_of_def [symmetric]
      cong: option.case_cong)

text \<open>The stamps of the copies of a key, and the record that a replay leaves.\<close>

definition copies :: "string \<Rightarrow> MemoryRecord list \<Rightarrow> MemoryRecord list" where
  "copies k rs = filter (\<lambda>r. key_of r = k) rs"

definition replay_stamps :: "('s, 'r) MemoryEngine \<Rightarrow> string \<Rightarrow> MemoryRecord list \<Rightarrow> stamp list" where
  "replay_stamps e k rs =
     (case map_of (e_records e) k of None \<Rightarrow> [] | Some c \<Rightarrow> [stamp_of c]) @ map stamp_of (copies k rs)"

lemma replay_some:
  "map_of (e_records e) k = Some c \<Longrightarrow>
   \<exists>c'. map_of (e_records (fold (apply_incoming V) rs e)) k = Some c' \<and>
     stamp_of c' = fold max (map stamp_of (copies k rs)) (stamp_of c)"
proof (induction rs arbitrary: e c)
  case Nil
  then show ?case by (simp add: copies_def)
next
  case (Cons r rs)
  show ?case
  proof (cases "key_of r = k")
    case True
    define c1 where "c1 = (if stamp_of c < stamp_of r then fill_defaults r else c)"
    have "map_of (e_records (apply_incoming V r e)) k = Some c1"
      using True Cons.prems by (simp add: apply_incoming_records c1_def)
    moreover have "stamp_of c1 = max (stamp_of r) (stamp_of c)"
      by (simp add: c1_def max_def) (auto dest: leD)
    ultimately show ?thesis
      using True Cons.IH [of "apply_incoming V r e" c1] by (simp add: copies_def)
  next
    case False
    then have "map_of (e_records (apply_incoming V r e)) k = Some c"
      using Cons.prems by (simp add: apply_incoming_records)
    with False Cons.IH [of "apply_incoming V r e" c] show ?thesis by (simp add: copies_def)
  qed
qed

lemma replay_stamp:
  "map_option stamp_of (map_of (e_records (fold (apply_incoming V) rs e)) k) =
     (if replay_stamps e k rs = [] then None else Some (Max (set (replay_stamps e k rs))))"
proof (cases "map_of (e_records e) k")
  case (Some c)
  with replay_some [OF Some, of V rs] show ?thesis
    by (auto simp: replay_stamps_def Max.set_eq_fold [of "stamp_of c", symmetric] simp del: Max_insert set_map
        set_simps)
next
  case None
  then show ?thesis
  proof (induction rs arbitrary: e)
    case (Cons r rs)
    show ?case
    proof (cases "key_of r = k")
      case True
      with Cons.prems have "map_of (e_records (apply_incoming V r e)) k = Some (fill_defaults r)"
        by (simp add: apply_incoming_records)
      from replay_some [OF this, of V rs] True Cons.prems show ?thesis
        by (auto simp: replay_stamps_def copies_def Max.set_eq_fold [of "stamp_of r", symmetric]
            simp del: Max_insert set_map set_simps)
    next
      case False
      with Cons.prems have "map_of (e_records (apply_incoming V r e)) k = None"
        by (simp add: apply_incoming_records)
      from Cons.IH [OF this] False Cons.prems this show ?thesis by (simp add: replay_stamps_def copies_def)
    qed
  qed (simp add: replay_stamps_def copies_def)
qed

lemma replay_again:
  assumes "list_all (\<lambda>r. \<exists>c. map_of (e_records e) (key_of r) = Some c \<and> stamp_of r \<le> stamp_of c) rs"
  shows "fold (apply_incoming V) rs e = e"
  using assms
proof (induction rs)
  case (Cons r rs)
  then have "apply_incoming V r e = e"
    by (auto simp: apply_incoming_def newer_iff key_of_def [symmetric])
  with Cons show ?case by simp
qed simp

lemma replay_idem: "fold (apply_incoming V) rs (fold (apply_incoming V) rs e) = fold (apply_incoming V) rs e"
proof (rule replay_again, unfold list_all_iff, intro ballI)
  fix r assume r: "r \<in> set rs"
  let ?cs = "replay_stamps e (key_of r) rs"
  have mem: "stamp_of r \<in> set ?cs" using r by (simp add: copies_def replay_stamps_def)
  then have "?cs \<noteq> []" by (metis empty_iff empty_set)
  then obtain c where "map_of (e_records (fold (apply_incoming V) rs e)) (key_of r) = Some c"
    "stamp_of c = Max (set ?cs)"
    using replay_stamp [of V rs e "key_of r"] by auto
  with mem show "\<exists>c. map_of (e_records (fold (apply_incoming V) rs e)) (key_of r) = Some c \<and>
      stamp_of r \<le> stamp_of c"
    by (metis List.finite_set Max_ge)
qed

lemma replay_events:
  "fold (replay_step V ckpts) events e =
     fold (apply_incoming V) (List.map_filter (event_record (ev_json V) ckpts) events) e"
  by (induction events arbitrary: e) (simp_all add: replay_step_def List.map_filter_def split: option.split)

lemma apply_incoming_store: "e_store (apply_incoming V r e) = e_store e"
  by (simp add: apply_incoming_def UpsertRecordInMemory_sel)

lemma replay_store: "e_store (fold (apply_incoming V) rs e) = e_store e"
  by (induction rs arbitrary: e) (simp_all add: apply_incoming_store)

text \<open>The records of the event log that a replay considers.\<close>

definition pending_events :: "('s, 'r, 'j) engine_env \<Rightarrow> ('s, 'r) MemoryEngine \<Rightarrow> MemoryRecord list" where
  "pending_events V e =
     (case scan_namespace V kProjectionCkptNs e of
        Inl _ \<Rightarrow> []
      | Inr ckpt_entries \<Rightarrow>
          (case scan_namespace V kEventsNs e of
             Inl _ \<Rightarrow> []
           | Inr events \<Rightarrow>
               List.map_filter (event_record (ev_json V) (fold (ckpt_step (ev_json V)) ckpt_entries [])) events))"

lemma ReplayProjectionEvents_eq:
  assumes "ReplayProjectionEvents V e = Inr e'"
  shows "e' = fold (apply_incoming V) (pending_events V e) e"
    and "ReplayProjectionEvents V e' = Inr (fold (apply_incoming V) (pending_events V e) e')"
proof -
  show e': "e' = fold (apply_incoming V) (pending_events V e) e"
    using assms by (auto simp: ReplayProjectionEvents_def pending_events_def replay_events Let_def split: sum.splits)
  have "scan_namespace V ns e' = scan_namespace V ns e" for ns
    by (simp add: scan_namespace_def e' replay_store)
  then show "ReplayProjectionEvents V e' = Inr (fold (apply_incoming V) (pending_events V e) e')"
    using assms by (auto simp: ReplayProjectionEvents_def pending_events_def replay_events Let_def split: sum.splits)
qed

section \<open>A compaction that the store accepts\<close>

lemma tombstone_loop_writes:
  "(ca_records a \<noteq> [] \<longrightarrow> ca_writes a \<noteq> []) \<Longrightarrow>
   ca_records (snd (tombstone_loop V mx now cs (e, a))) \<noteq> [] \<Longrightarrow>
   ca_writes (snd (tombstone_loop V mx now cs (e, a))) \<noteq> []"
proof (induction cs arbitrary: e a)
  case (Cons c cs)
  let ?t = "make_tombstone (e_node_id e) now c"
  let ?w = "ca_writes a @ record_writes V (e_records e) ?t"
  obtain e' lg where step: "compact_event V ''compact_tombstone'' now ?t ?w (e, a) =
    (e', a\<lparr> ca_writes := ?w @ lg, ca_records := ca_records a @ [?t], ca_count := ca_count a + 1,
            ca_actions := ca_actions a + 1 \<rparr>)"
    by (rule compact_event_acc)
  have rest: "ca_records (snd (tombstone_loop V mx now cs (compact_event V ''compact_tombstone'' now ?t ?w (e, a)))) \<noteq> [] \<Longrightarrow>
      ca_writes (snd (tombstone_loop V mx now cs (compact_event V ''compact_tombstone'' now ?t ?w (e, a)))) \<noteq> []"
    unfolding step by (rule Cons.IH) (simp_all add: record_writes_nonempty)
  consider (full) "mx \<le> ca_actions a" | (skip) "\<not> mx \<le> ca_actions a" "r_pinned c \<or> r_tombstone c"
    | (take) "\<not> mx \<le> ca_actions a" "\<not> (r_pinned c \<or> r_tombstone c)" by blast
  then show ?case
  proof cases
    case full
    with Cons.prems show ?thesis by simp
  next
    case skip
    with Cons.prems have "ca_records (snd (tombstone_loop V mx now cs (e, a))) \<noteq> []" by simp
    with Cons.IH [OF Cons.prems(1)] skip show ?thesis by simp
  next
    case take
    then have eq: "tombstone_loop V mx now (c # cs) (e, a) =
        tombstone_loop V mx now cs (compact_event V ''compact_tombstone'' now ?t ?w (e, a))"
      by (simp add: PersistRecord_Some Let_def)
    from Cons.prems(2) rest show ?thesis unfolding eq by blast
  qed
qed simp

lemma delete_loop_writes:
  "ca_writes a \<noteq> [] \<Longrightarrow> ca_writes (snd (delete_loop V mx now cs (e, a))) \<noteq> []"
proof (induction cs arbitrary: e a)
  case (Cons c cs)
  obtain ds e1 where d: "DeleteRecordStorage V c (Some (ca_writes a)) e = (Some (ca_writes a @ ds), e1)"
    by (rule DeleteRecordStorage_Some)
  obtain e' lg where step: "compact_event V ''compact_delete'' now c (ca_writes a @ ds) (e1, a) =
    (e', a\<lparr> ca_writes := (ca_writes a @ ds) @ lg, ca_records := ca_records a @ [c], ca_count := ca_count a + 1,
            ca_actions := ca_actions a + 1 \<rparr>)"
    by (rule compact_event_acc)
  from Cons.IH Cons.prems step show ?case by (simp add: d Let_def)
qed simp

lemma compact_plan_writes:
  assumes "compact_plan V ws now e = (e', ups, dels)" "ca_records ups \<noteq> []"
  shows "ca_writes dels \<noteq> []"
proof -
  define mx where "mx = (if op_gc_batch_size (e_options e) = 0 then 256 else unat (op_gc_batch_size (e_options e)))"
  define act where "act = sort_by (compact_less now)
    (filter (\<lambda>r. \<not> r_tombstone r) (filter (in_workspace ws) (map snd (e_records e))))"
  define t where "t = tombstone_loop V mx now act
    (e, \<lparr> ca_writes = [], ca_records = [], ca_count = 0, ca_actions = 0 \<rparr>)"
  define b where "b = \<lparr> ca_writes = ca_writes (snd t), ca_records = [], ca_count = 0, ca_actions = ca_actions (snd t) \<rparr>"
  have eq: "compact_plan V ws now e =
      (let d = (if op_enable_tombstone_gc (e_options (fst t))
         then delete_loop V mx now (filter r_tombstone (filter (in_workspace ws) (map snd (e_records e)))) (fst t, b)
         else (fst t, b)) in (fst d, snd t, snd d))"
    unfolding compact_plan_def Let_def case_prod_beta t_def b_def mx_def act_def by simp
  have "ca_writes b \<noteq> []"
    using tombstone_loop_writes [of "\<lparr> ca_writes = [], ca_records = [], ca_count = 0, ca_actions = 0 \<rparr>" V mx now act e]
      assms eq by (auto simp: b_def t_def Let_def)
  with delete_loop_writes [of b V mx now] assms(1) show ?thesis
    by (auto simp: eq Let_def split: if_splits)
qed

lemma compact_forced:
  assumes f: "filed_ok (e_records e)" and r: "r \<in> set (compact_victims e ws (ev_now V (e_ticks e)))"
    and ok: "\<And>writes. sr_ok (snd (so_BatchWrite (ev_store V) writes (e_store e)))"
    and c: "CompactInternal V ws True e = (out, e')"
  shows "map_of (e_records e') (key_of r) = Some (make_tombstone (e_node_id e) (ev_now V (e_ticks e)) r)"
proof -
  define now where "now = ev_now V (e_ticks e)"
  define e1 where "e1 = snd (NowMs V e)"
  have n: "NowMs V e = (now, e1)" by (simp add: now_def e1_def NowMs_def)
  have c1: "clock_step e e1" by (simp add: e1_def)
  obtain e2 ups dels where pl: "compact_plan V ws now e1 = (e2, ups, dels)" by (metis prod_cases3)
  have c2: "clock_step e e2"
    using clock_step_trans [OF c1 clock_step_compact_plan [of e1 V ws now]] by (simp add: pl)
  have u: "ca_records ups = map (make_tombstone (e_node_id e) now) (compact_victims e ws now)"
    using compact_plan_tombstoned(1) [OF pl] by (simp add: compact_victims_clock [OF c1] clock_step_sel [OF c1])
  have "ca_records ups \<noteq> []" using r u by (auto simp: now_def)
  with compact_plan_writes [OF pl] have w: "ca_writes dels \<noteq> []" by blast
  obtain s res where bw: "so_BatchWrite (ev_store V) (ca_writes dels) (e_store e2) = (s, res)" by fastforce
  with ok [of "ca_writes dels"] have "sr_ok res" by (simp add: clock_step_sel [OF c2])
  then have rec: "e_records e' = e_records (fold (RemoveRecordInMemory V) (ca_records dels)
      (fold (UpsertRecordInMemory V) (ca_records ups) (e2\<lparr> e_store := s \<rparr>)))"
    using c by (auto simp: CompactInternal_def n pl compact_apply_def bw w Let_def)
  have "key_of r \<notin> key_of ` set (ca_records dels)"
  proof
    assume "key_of r \<in> key_of ` set (ca_records dels)"
    then obtain r' where r': "r' \<in> set (ca_records dels)" "key_of r' = key_of r" by (metis imageE)
    have "r' \<in> snd ` set (e_records e)" "r_tombstone r'"
      using compact_plan_records(2) [OF pl] r'(1) by (auto simp: clock_step_sel [OF c1])
    moreover have "r \<in> snd ` set (e_records e)" "\<not> r_tombstone r" using compact_victims_in [OF r] by auto
    ultimately show False using filed_key [OF f] r'(2) by (metis option.inject)
  qed
  moreover have "distinct (map key_of (ca_records ups))"
    using compact_victims_distinct [OF f] by (simp add: u comp_def)
  moreover have "make_tombstone (e_node_id e) now r \<in> set (ca_records ups)" using r by (simp add: u now_def)
  ultimately show ?thesis
    using fold_Upsert_in [of "make_tombstone (e_node_id e) now r" "ca_records ups" V]
    by (simp add: rec fold_Remove_map now_def)
qed

section \<open>What a write leaves in the store\<close>

lemma staged_from:
  fixes V :: "('s, 'r, 'j) engine_env" and e :: "('s, 'r) MemoryEngine"
  shows "r \<in> set (wa_upserts (snd (snd (write_stage V input e)))) \<Longrightarrow>
   \<exists>(e1 :: ('s, 'r) MemoryEngine) rec_in rid pinned now. rec_in \<in> set (wi_records input) \<and>
     wr_content rec_in \<noteq> [] \<and> r = build_record e1 input rec_in rid pinned now"
proof -
  have "r \<in> set (wa_upserts a) \<or> (\<exists>(e1 :: ('s, 'r) MemoryEngine) rec_in rid pinned now. rec_in \<in> set rs \<and>
      wr_content rec_in \<noteq> [] \<and> r = build_record e1 input rec_in rid pinned now)"
    if "r \<in> set (wa_upserts (snd (fold (write_step V input now) rs (e, a))))" for rs now and e :: "('s, 'r) MemoryEngine" and a
    using that
  proof (induction rs arbitrary: e a)
    case (Cons x rs)
    obtain e' a' where s: "write_step V input now x (e, a) = (e', a')" by fastforce
    have a': "r \<in> set (wa_upserts a') \<Longrightarrow> r \<in> set (wa_upserts a) \<or>
        (\<exists>(e1 :: ('s, 'r) MemoryEngine) rid pinned. wr_content x \<noteq> [] \<and> r = build_record e1 input x rid pinned now)"
    proof (cases rule: write_step_cases [of V input now x e a])
      case (stage e1 e'' out' r' rid pinned lg)
      assume "r \<in> set (wa_upserts a')"
      then have "r \<in> set (wa_upserts a) \<or> r = r'" using stage(1) by (auto simp: s)
      moreover have "wr_content x \<noteq> []"
      proof
        assume "wr_content x = []"
        then have "wa_upserts (snd (write_step V input now x (e, a))) = wa_upserts a" by (simp add: write_step_def)
        then show False by (simp add: stage(1))
      qed
      ultimately show ?thesis unfolding stage(5) by blast
    qed (simp add: s)
    from Cons.IH [of e' a'] Cons.prems have "r \<in> set (wa_upserts a') \<or>
        (\<exists>(e1 :: ('s, 'r) MemoryEngine) rec_in rid pinned now. rec_in \<in> set rs \<and>
          wr_content rec_in \<noteq> [] \<and> r = build_record e1 input rec_in rid pinned now)"
      by (simp add: s)
    then show ?case using a' by (metis list.set_intros(1,2))
  qed simp
  from this [of "fst (write_stage V input e)" "wi_records input" "snd (NowMs V e)"
      "\<lparr> wa_out = default_WriteOutput, wa_writes = [], wa_upserts = [],
         wa_projected_active = ps_active (ComputeWorkspacePinStats (e_records e) (wi_workspace_id input)),
         wa_projected_pinned = ps_pinned (ComputeWorkspacePinStats (e_records e) (wi_workspace_id input)) \<rparr>"]
  show "r \<in> set (wa_upserts (snd (snd (write_stage V input e)))) \<Longrightarrow> ?thesis"
    by (simp add: write_stage_def Let_def case_prod_beta NowMs_def)
qed

lemma fold_view_row:
  "w ns = w' ns \<Longrightarrow> fold view_apply ws w ns = fold view_apply (filter (in_ns ns) ws) w' ns"
proof (induction ws arbitrary: w w')
  case (Cons x ws)
  show ?case
  proof (cases "in_ns ns x")
    case True
    with Cons.prems have "view_apply x w ns = view_apply x w' ns"
      by (simp add: view_apply_def view_put_def view_delete_def in_ns_def split: WriteOp.split)
    from Cons.IH [of "view_apply x w" "view_apply x w'", OF this] True show ?thesis by simp
  next
    case False
    with Cons.prems have "view_apply x w ns = w' ns"
      by (simp add: view_apply_def view_put_def view_delete_def in_ns_def split: WriteOp.split)
    from Cons.IH [of "view_apply x w" w', OF this] False show ?thesis by simp
  qed
qed simp

lemma fold_doc_writes:
  assumes "i \<in> r_id ` set rs" "list_all (\<lambda>r. r_workspace_id r = ws) rs"
  obtains r where "r \<in> set rs" "r_id r = i"
    "fold view_apply (map (doc_write J) rs) w kDocNs (BuildDocKey ws i) = Some (SerializeRecord J r, r_updated_at_ms r)"
proof -
  have "\<exists>r \<in> set rs. r_id r = i \<and>
    fold view_apply (map (doc_write J) rs) w kDocNs (BuildDocKey ws i) = Some (SerializeRecord J r, r_updated_at_ms r)"
    using assms
  proof (induction rs rule: rev_induct)
    case (snoc r rs)
    have last: "fold view_apply (map (doc_write J) (rs @ [r])) w kDocNs (BuildDocKey ws i) =
        (if r_id r = i then Some (SerializeRecord J r, r_updated_at_ms r)
         else fold view_apply (map (doc_write J) rs) w kDocNs (BuildDocKey ws i))"
      using snoc.prems(2) by (simp add: doc_write_def upsert_entry_def view_apply_def view_put_def)
    show ?case
    proof (cases "r_id r = i")
      case False
      with snoc.prems have "i \<in> r_id ` set rs" "list_all (\<lambda>r. r_workspace_id r = ws) rs" by auto
      from snoc.IH [OF this] False show ?thesis unfolding last by auto
    next
      case True
      then show ?thesis by (intro bexI [of _ r]) (simp_all add: last del: fold_append map_append fold.simps)
    qed
  qed simp
  with that show ?thesis by blast
qed

text \<open>The name spaces the engine writes to; none holds a colon.\<close>

definition engine_ns :: "string list" where
  "engine_ns = [kDocNs, kTermDictNs, kPostingBlkNs, kVecCodeNs, kVecFpNs, kRouteMetaNs, kEventsNs, kProjectionCkptNs]"

abbreviation in_engine_ns :: "WriteEntry list \<Rightarrow> bool" where
  "in_engine_ns ws \<equiv> list_all (\<lambda>w. kv_name_space (we_entry w) \<in> set engine_ns) ws"

lemma engine_ns_entry [simp]:
  "kv_name_space (we_entry (upsert_entry ns k v t)) = ns" "kv_name_space (we_entry (delete_entry ns k t)) = ns"
  by (simp_all add: upsert_entry_def delete_entry_def)

lemma record_writes_ns: "in_engine_ns (record_writes V records r)"
  by (auto simp: record_writes_def delete_terms_for_def delete_vectors_for_def vector_writes_def term_writes_def
      list_all_iff Let_def engine_ns_def split: option.split)

lemma staged_ns: "in_engine_ns (wa_writes (snd (snd (write_stage V input e))))"
proof -
  have "in_engine_ns (wa_writes (snd (fold (write_step V input now) rs (e, a))))"
    if "in_engine_ns (wa_writes a)" for rs now and e :: "('a, 'b) MemoryEngine" and a
    using that
  proof (induction rs arbitrary: e a)
    case (Cons x rs)
    obtain e' a' where s: "write_step V input now x (e, a) = (e', a')" by fastforce
    have "in_engine_ns (wa_writes a')"
    proof (cases rule: write_step_cases [of V input now x e a])
      case (stage e1 e'' out' r' rid pinned lg)
      have "in_engine_ns lg" using stage(4) by (auto simp: log_writes_def list_all_iff engine_ns_def)
      with stage(1) Cons.prems record_writes_ns [of V "e_records e" r'] show ?thesis by (simp add: s)
    qed (use Cons.prems in \<open>simp add: s\<close>)
    from Cons.IH [OF this] show ?case by (simp add: s)
  qed simp
  then show ?thesis by (simp add: write_stage_def Let_def case_prod_beta NowMs_def)
qed

context reliable_writes begin

lemma Get_found: "nsok ns \<Longrightarrow> inv s \<Longrightarrow> view s ns key = Some (val, ts) \<Longrightarrow>
  gr_found (so_Get ops s ns key) \<and> gr_value (so_Get ops s ns key) = val"
  using Get_view [of ns s key] Get_ok [of s ns key] by auto

lemma Write_stored_doc:
  fixes V :: "('s, 'r, 'j) engine_env" and e e' :: "('s, 'r) MemoryEngine"
  assumes V: "ev_store V = ops" and s: "inv (e_store e)" and ns: "list_all nsok engine_ns" and f: "filed_ok (e_records e)"
    and w: "engine_Write V input e = Some (res, e')" "wo_ok res" and i: "i \<in> set (wo_stored_ids res)"
  obtains r and e1 :: "('s, 'r) MemoryEngine" and rec_in rid pinned now where "r_id r = i" "rec_in \<in> set (wi_records input)"
    "r = build_record e1 input rec_in rid pinned now" "inv (e_store e')"
    "gr_found (so_Get ops (e_store e') kDocNs (BuildDocKey (wi_workspace_id input) i))"
    "gr_value (so_Get ops (e_store e') kDocNs (BuildDocKey (wi_workspace_id input) i)) = SerializeRecord (ev_json V) r"
proof -
  have ws: "wi_workspace_id input \<noteq> ''''" and ne: "wi_records input \<noteq> []"
    using w i by (auto simp: engine_Write_def add_warning_def default_WriteOutput_def split: if_splits)
  obtain now e1 a where st: "write_stage V input e = (now, e1, a)" by (metis prod_cases3)
  have ok: "staged_ok V (e_options e) input now a" using staged_ok_stage [of V e input] by (simp add: st)
  have wr: "wa_writes a \<noteq> []"
  proof
    assume "wa_writes a = []"
    with Write_idle [OF w(1) ws ne st] ok i show False by (simp add: staged_ok_def)
  qed
  have nsw: "list_all (\<lambda>w. nsok (kv_name_space (we_entry w))) ws" if "in_engine_ns ws" for ws
    using that ns by (auto simp: list_all_iff)
  have rw: "in_engine_ns (route_write V (wi_workspace_id input) now)"
    by (simp add: route_write_def Let_def engine_ns_def)
  obtain e4 :: "('s, 'r) MemoryEngine" where e4: "e_store e' = e_store e4"
    "e_store e4 = fst (so_BatchWrite (ev_store V) (route_write V (wi_workspace_id input) now)
      (fst (so_BatchWrite (ev_store V) (wa_writes a) (e_store e))))"
    "wo_stored_ids res = wo_stored_ids (wa_out a)"
    using Write_effect [OF f w(1) ws ne st w(2) wr] by metis
  define s1 where "s1 = fst (so_BatchWrite ops (wa_writes a) (e_store e))"
  have i1: "inv s1" and v1: "view s1 = fold view_apply (wa_writes a) (view (e_store e))"
    using reliable_BatchWrite [OF nsw [OF staged_ns [of V input e]] s] BatchWrite_inv [OF nsw [OF staged_ns [of V input e]] s]
    by (simp_all add: s1_def st)
  have st': "e_store e' = fst (so_BatchWrite ops (route_write V (wi_workspace_id input) now) s1)"
    by (simp add: e4 V s1_def)
  have iv: "inv (e_store e')" using BatchWrite_inv [OF nsw [OF rw] i1] by (simp add: st')
  have "filter (in_ns kDocNs) (route_write V (wi_workspace_id input) now) = []"
    by (simp add: route_write_def name_spaces Let_def)
  with fold_view_row [of "view s1" kDocNs "view s1" "route_write V (wi_workspace_id input) now"]
  have "view (e_store e') kDocNs = view s1 kDocNs"
    using reliable_BatchWrite [OF nsw [OF rw] i1] by (simp add: st')
  also have "\<dots> = fold view_apply (filter (in_ns kDocNs) (wa_writes a)) (view (e_store e)) kDocNs"
    unfolding v1 by (rule fold_view_row) simp
  also have "filter (in_ns kDocNs) (wa_writes a) = map (doc_write (ev_json V)) (wa_upserts a)"
    using ok by (simp add: staged_ok_def)
  finally have v: "view (e_store e') kDocNs =
      fold view_apply (map (doc_write (ev_json V)) (wa_upserts a)) (view (e_store e)) kDocNs" .
  have "i \<in> r_id ` set (wa_upserts a)" "list_all (\<lambda>r. r_workspace_id r = wi_workspace_id input) (wa_upserts a)"
    using ok i e4(3) by (auto simp: staged_ok_def list_all_iff)
  then obtain r where r: "r \<in> set (wa_upserts a)" "r_id r = i"
    "view (e_store e') kDocNs (BuildDocKey (wi_workspace_id input) i) = Some (SerializeRecord (ev_json V) r, r_updated_at_ms r)"
    unfolding v by (rule fold_doc_writes)
  from r(1) staged_from [of r V input e] obtain e1' :: "('s, 'r) MemoryEngine" and rec_in rid pinned now' where
    "rec_in \<in> set (wi_records input)" "r = build_record e1' input rec_in rid pinned now'"
    by (auto simp: st)
  with that [OF r(2)] iv Get_found [OF _ iv r(3)] ns show ?thesis by (auto simp: engine_ns_def)
qed

end

text \<open>The document of a record that \<open>Write\<close> built reads back with its size recomputed or kept.\<close>

lemma read_back_sized:
  assumes "json_laws J rnd readable" and "list_all plain_key (map fst (r_metadata r))" "omap_ok (r_metadata r)"
    and "readable (record_json J r)" and "r_size_bytes r = ComputeRecordSizeBytes r"
  shows "DeserializeRecord J (SerializeRecord J r) = Inr (r\<lparr> r_importance_score := rnd (r_importance_score r) \<rparr>)"
proof -
  have "ComputeRecordSizeBytes (r\<lparr> r_importance_score := x \<rparr>) = ComputeRecordSizeBytes r" for x
    by (simp add: ComputeRecordSizeBytes_def)
  moreover have "r\<lparr> r_importance_score := x, r_size_bytes := ComputeRecordSizeBytes r \<rparr> = r\<lparr> r_importance_score := x \<rparr>" for x
    using assms(5) by (cases r) simp
  ultimately show ?thesis
    using json_laws.record_of_record_json [OF assms(1-3)] json_laws.read_write [OF assms(1,4)] assms(5)
    by (simp add: DeserializeRecord_def SerializeRecord_def ToJsonString_def ParseJson_def Let_def)
qed

lemma compact_forced_count:
  assumes "CompactInternal V ws True e = (out, e')"
  shows "co_tombstoned_count out = of_nat (length (compact_victims e ws (ev_now V (e_ticks e))))"
proof -
  define now where "now = ev_now V (e_ticks e)"
  define e1 where "e1 = snd (NowMs V e)"
  have n: "NowMs V e = (now, e1)" by (simp add: now_def e1_def NowMs_def)
  have c1: "clock_step e e1" by (simp add: e1_def)
  obtain e2 ups dels where pl: "compact_plan V ws now e1 = (e2, ups, dels)" by (metis prod_cases3)
  have "co_tombstoned_count out = ca_count ups"
    using assms by (auto simp: CompactInternal_def n pl Let_def case_prod_beta)
  then show ?thesis
    using compact_plan_tombstoned(2) [OF pl] by (simp add: compact_victims_clock [OF c1] now_def)
qed

lemma fold_Upsert_source:
  "x \<in> snd ` set (e_records (fold (UpsertRecordInMemory V) rs e)) \<Longrightarrow> filed_ok (e_records e) \<Longrightarrow>
   x \<in> set rs \<or> x \<in> snd ` set (e_records e)"
proof (induction rs arbitrary: e)
  case (Cons r rs)
  have "filed_ok (e_records (UpsertRecordInMemory V r e))" using Cons.prems(2) by (simp add: UpsertRecordInMemory_sel filed_ok_put)
  with Cons have "x \<in> set rs \<or> x \<in> snd ` set (e_records (UpsertRecordInMemory V r e))" by simp
  then consider "x \<in> set rs" | "x \<in> snd ` set (umap_put (RecordMapKey (r_workspace_id r) (r_id r)) r (e_records e))"
    by (auto simp: UpsertRecordInMemory_sel)
  then show ?case
    by cases (use in_umap_put [OF filed_okD(2) [OF Cons.prems(2)]] in \<open>auto\<close>)
qed simp

lemma map_le_Some: "m k = Some x \<Longrightarrow> m \<subseteq>\<^sub>m m' \<Longrightarrow> m' k = Some x"
  by (metis domI map_le_def)

lemma enforced_sub:
  assumes "filed_ok (e_records e)" "enforced e e'" "x \<in> snd ` set (e_records e')"
  shows "x \<in> snd ` set (e_records e)"
proof -
  from assms have "map_of (e_records e') (key_of x) = Some x" by (intro filed_key) (simp_all add: enforced_def)
  moreover have "map_of (e_records e') \<subseteq>\<^sub>m map_of (e_records e)" using assms(2) by (simp add: enforced_def)
  ultimately have "map_of (e_records e) (key_of x) = Some x" by (rule map_le_Some)
  then show ?thesis by (metis image_eqI map_of_SomeD snd_conv)
qed

text \<open>A record that a write brings into memory was built from one of its inputs.\<close>

lemma Write_new_record:
  fixes V :: "('s, 'r, 'j) engine_env" and e e' :: "('s, 'r) MemoryEngine"
  assumes f: "filed_ok (e_records e)" and w: "engine_Write V input e = Some (out, e')"
    and r: "r \<in> snd ` set (e_records e')" "r \<notin> snd ` set (e_records e)"
  obtains now e1 a where "write_stage V input e = (now, e1, a)" "r \<in> set (wa_upserts a)"
proof (cases "wi_workspace_id input = [] \<or> wi_records input = []")
  case True
  with w r show ?thesis by (auto simp: engine_Write_def split: if_splits)
next
  case False
  then have ws: "wi_workspace_id input \<noteq> []" and ne: "wi_records input \<noteq> []" by simp_all
  obtain now e1 a where st: "write_stage V input e = (now, e1, a)" by (metis prod_cases3)
  have c: "clock_step e e1" using clock_step_write_stage [of e V input] by (simp add: st)
  have "wo_ok out \<and> wa_writes a \<noteq> []"
  proof (rule ccontr)
    assume no: "\<not> (wo_ok out \<and> wa_writes a \<noteq> [])"
    from w ws ne st have "e_records e' = e_records e"
    proof (cases rule: Write_outcome)
      case (stored e2 e4 e5 err')
      with no write_finish_sel(3) [OF stored(5)] show ?thesis by simp
    qed (use c in \<open>auto simp: PersistBatchNow_eq clock_step_sel\<close>)
    with r show False by simp
  qed
  then obtain e4 :: "('s, 'r) MemoryEngine" where
    e4: "e_records e4 = e_records (fold (UpsertRecordInMemory V) (wa_upserts a) e)" "enforced e4 e'" "filed_ok (e_records e4)"
    using Write_effect [OF f w ws ne st] by metis
  have "r \<in> snd ` set (e_records e4)" using r(1) enforced_sub [OF _ e4(2)] e4(3) by blast
  with fold_Upsert_source [OF _ f, of r V "wa_upserts a"] r(2) have "r \<in> set (wa_upserts a)" by (simp add: e4(1))
  with that st show ?thesis by blast
qed

end
