(* ===== verification/Engine_Properties.thy ===== *)
theory Engine_Properties
  imports Engine
begin

text \<open>
  The claims about the memory engine, each with an instance on the in-memory store, the
  hybrid retriever and the concrete property tree.
\<close>

section \<open>A concrete engine\<close>

definition sample_mem_env :: mem_env where
  "sample_mem_env = \<lparr> std_hash = (\<lambda>s. of_nat (length s)), sizeof_StoredValue = 40 \<rparr>"

definition sample_env_on :: "'s store_ops \<Rightarrow> ('s, LshVectorIndex HybridRetriever, ptree) engine_env" where
  "sample_env_on ops =
     \<lparr> ev_store = ops, ev_retriever = ret_ops, ev_json = pt_api,
       ev_hash = (\<lambda>s. of_nat (length s)), ev_float_format = (\<lambda>x. dec_string (nat \<lfloor>x\<rfloor>)),
       ev_now = (\<lambda>n. of_nat (1000 + n)), ev_elapsed_ms = (\<lambda>_. 1),
       ev_stage = (\<lambda>_. \<lparr> st_sparse_ms = 0, st_dense_ms = 0, st_rerank_ms = 0, st_total_ms = 0 \<rparr>) \<rparr>"

definition sample_env :: "(InMemoryStoreAdapter, LshVectorIndex HybridRetriever, ptree) engine_env" where
  "sample_env = sample_env_on (mem_ops sample_mem_env)"

abbreviation sample_engine_on :: "'s \<Rightarrow> ('s, LshVectorIndex HybridRetriever) MemoryEngine" where
  "sample_engine_on s \<equiv> fresh_engine s (\<lambda>s. of_nat (length s)) ''n1'' default_MemoryEngineOptions"

definition sample_engine :: "(InMemoryStoreAdapter, LshVectorIndex HybridRetriever) MemoryEngine" where
  "sample_engine = fresh_engine CreateInMemoryStoreAdapter (\<lambda>s. of_nat (length s)) ''n1'' default_MemoryEngineOptions"

definition sample_write :: "string \<Rightarrow> string \<Rightarrow> WriteInput" where
  "sample_write ws content =
     \<lparr> wi_workspace_id = ws, wi_session_id = '''',
       wi_records = [\<lparr> wr_record_id = ''m1'', wr_source = '''', wr_content = content, wr_tags = [],
         wr_importance = 1, wr_ttl_s = 0, wr_pin = False, wr_dedup_key = ''k'', wr_metadata = [] \<rparr>],
       wi_write_mode = ''upsert'' \<rparr>"

lemma sample_env_hybrid: "over_hybrid sample_env = sample_env"
  by (simp add: sample_env_def sample_env_on_def)

lemma sample_engine_filed: "filed_ok (e_records sample_engine)"
  by (simp add: sample_engine_def new_MemoryEngine_def filed_ok_def)

lemma sample_runs:
  "\<exists>e. run_calls sample_env cs sample_engine = Some e \<and> resident_ok sample_env e"
  using run_returns [of sample_env cs] by (simp add: sample_env_hybrid sample_engine_def)

lemma sample_Write_returns:
  assumes "resident_ok sample_env e"
  shows "\<exists>out e'. engine_Write sample_env input e = Some (out, e') \<and> resident_ok sample_env e'"
  using hyb.acct.I_Write [of sample_env e input] assms by (simp add: sample_env_hybrid)

lemma sample_engine_ok: "resident_ok sample_env sample_engine"
  using hyb.resident_ok_new [of sample_env] by (simp add: sample_env_hybrid sample_engine_def)

section \<open>Properties\<close>

text \<open>
  C1. Every run of the engine returns, whatever the calls, the store, the clock and the JSON
  library do: no sequence of writes, queries, pins, warm-ups, compactions and collector
  rounds blocks in the eviction loop.  In the state it reaches, each record is filed under
  its own key with its own charge, and the resident byte counter is the sum of the charges.
\<close>

theorem engine_runs_accounted:
  "\<exists>e. run_calls (over_hybrid V) cs (fresh_engine s hash n opts) = Some e \<and> resident_ok (over_hybrid V) e"
  by (rule hyb.acct.I_run_calls [OF hyb.resident_ok_new]) simp

text \<open>
  C4. In every reachable state the eviction loop ends; it keeps every pinned record and adds
  nothing, and it stops within the memory limit (when there is one) unless all the records
  left are pinned.
\<close>

theorem Enforce_terminates:
  "\<exists>e e'. run_calls (over_hybrid V) cs (fresh_engine s hash n opts) = Some e \<and>
     EnforceResidentHardLimit (over_hybrid V) protected_keys e = Some e' \<and> enforced e e' \<and>
     (ResidentLimitBytes e = 0 \<or> e_resident_used_bytes e' \<le> ResidentLimitBytes e' \<or>
      list_all r_pinned (map snd (e_records e')))"
proof -
  obtain e where e: "run_calls (over_hybrid V) cs (fresh_engine s hash n opts) = Some e"
    "resident_ok (over_hybrid V) e" using run_returns [of V cs s hash n opts] by blast
  then have "filed_ok (e_records e)" by (simp add: resident_ok_def)
  from Enforce_returns [OF this, of "over_hybrid V" protected_keys] e(1) show ?thesis
    by (fastforce simp: list_all_iff)
qed

text \<open>
  The victim of an eviction step is a record in memory that is not pinned, and no other
  such record has a smaller rank (or the same rank and an older update); without protected
  keys there is a victim exactly when not everything is pinned.
\<close>

lemma Select_least:
  assumes "SelectEvictionCandidateLocked now None records = Some victim"
  shows "victim \<in> snd ` set records \<and> \<not> r_pinned victim \<and>
    list_all (\<lambda>r. r_pinned r \<or> compact_less now victim r \<or>
      EvictionRank victim now = EvictionRank r now \<and> r_updated_at_ms victim = r_updated_at_ms r) (map snd records)"
proof -
  have p: "pick_candidate now None False records = Some victim"
    using assms by (auto simp: SelectEvictionCandidateLocked_def split: option.splits if_splits)
  have "\<not> compact_less now r victim" if "r \<in> snd ` set records" "\<not> r_pinned r" for r
    using pick_candidate_props(2) [OF p] that by (auto simp: evictable_def)
  then have "r_pinned r \<or> compact_less now victim r \<or>
      EvictionRank victim now = EvictionRank r now \<and> r_updated_at_ms victim = r_updated_at_ms r"
    if "r \<in> snd ` set records" for r
    using that by (force simp: compact_less_def Let_def split: if_splits)
  with Select_in [OF assms] show ?thesis by (auto simp: list_all_iff)
qed

theorem Select_least_witness:
  "list_all (\<lambda>r. r_pinned r \<or> compact_less 1000 default_MemoryRecord r \<or>
      EvictionRank default_MemoryRecord 1000 = EvictionRank r 1000 \<and>
      r_updated_at_ms default_MemoryRecord = r_updated_at_ms r)
    [default_MemoryRecord, default_MemoryRecord\<lparr> r_pinned := True \<rparr>]"
proof -
  have "SelectEvictionCandidateLocked 1000 None [(''a'', default_MemoryRecord),
      (''b'', default_MemoryRecord\<lparr> r_pinned := True \<rparr>)] = Some default_MemoryRecord"
    by (simp add: SelectEvictionCandidateLocked_def pick_candidate_def consider_victim_def
        default_MemoryRecord_def Let_def)
  from Select_least [OF this] show ?thesis by simp
qed

text \<open>
  C3. In every state reached by calls on colon-free workspaces, each hit of a query is a
  record that the engine holds in memory for that very workspace, copied field by field,
  which is not a tombstone, passes the filters and has not expired; no record comes twice.
\<close>

theorem engine_Query_sound:
  assumes "calls_ok colon_free (over_hybrid V) cs (fresh_engine s hash n opts)"
    and "run_calls (over_hybrid V) cs (fresh_engine s hash n opts) = Some e"
    and "colon_free (q_workspace_id input)"
  shows "list_all (\<lambda>hit. \<exists>r.
      map_of (e_records e) (RecordMapKey (q_workspace_id input) (h_memory_id hit)) = Some r \<and>
      hit_of_record r hit \<and> \<not> r_tombstone r \<and> PassesFilter r (q_filters input) \<and>
      \<not> IsExpired r (ev_now V (e_ticks e + 1)))
    (qo_hits (fst (engine_Query (over_hybrid V) input e))) \<and>
    distinct (map h_memory_id (qo_hits (fst (engine_Query (over_hybrid V) input e))))"
proof -
  note sy = run_synced [OF assms(1,2)]
  have "\<exists>r. map_of (e_records e) (RecordMapKey (q_workspace_id input) (h_memory_id hit)) = Some r \<and>
      hit_of_record r hit \<and> \<not> r_tombstone r \<and> PassesFilter r (q_filters input) \<and>
      \<not> IsExpired r (ev_now V (e_ticks e + 1))"
    if "hit \<in> set (qo_hits (fst (engine_Query (over_hybrid V) input e)))" for hit
    using hyb.Query_hit [OF sy assms(3) that] by (metis engine_env.select_convs(6))
  with hyb.Query_hits_distinct [OF hyb.syncedD(3) [OF sy]] show ?thesis
    by (simp add: list_all_iff)
qed

theorem engine_Query_sound_witness:
  "\<exists>e. run_calls sample_env [CallWrite (sample_write ''w'' ''use epoll'')] sample_engine = Some e \<and>
     list_all (\<lambda>hit. \<exists>r. map_of (e_records e) (RecordMapKey ''w'' (h_memory_id hit)) = Some r \<and>
       hit_of_record r hit \<and> \<not> r_tombstone r)
     (qo_hits (fst (engine_Query sample_env sample_query e)))"
proof -
  let ?cs = "[CallWrite (sample_write ''w'' ''use epoll'')]"
  obtain e where e: "run_calls sample_env ?cs sample_engine = Some e" using sample_runs by blast
  have "calls_ok colon_free sample_env ?cs sample_engine"
    by (simp add: call_ok_def sample_write_def colon_free_def del: run_call.simps split: option.split)
  moreover have "colon_free (q_workspace_id sample_query)" "q_workspace_id sample_query = ''w''"
    by (simp_all add: sample_query_def colon_free_def)
  ultimately show ?thesis
    using engine_Query_sound [of sample_env ?cs CreateInMemoryStoreAdapter "\<lambda>s. of_nat (length s)" "''n1''"
        default_MemoryEngineOptions e sample_query] e
    by (auto simp: sample_env_hybrid sample_engine_def list_all_iff)
qed

text \<open>
  The hits of a query are a sub-sequence of what the retriever ranked, so they keep its
  order, and with a positive token budget their estimated tokens never exceed it.
\<close>

lemma engine_Query_budget:
  "subseq (qo_hits (fst (engine_Query V input e)))
     (qo_hits (rt_Query (ev_retriever V) (e_retriever e) input (ev_now V (e_ticks e)) (ev_stage V (e_ticks e + 1)))) \<and>
   (q_token_budget input \<le> 0 \<or>
    sum_list (map (\<lambda>h. EstimateTokenCount (h_content h)) (qo_hits (fst (engine_Query V input e))))
      \<le> nat (q_token_budget input))"
proof (cases "q_workspace_id input = ''''")
  case True
  then show ?thesis by (simp add: engine_Query_def empty_QueryOutput_def)
next
  case False
  show ?thesis
    unfolding engine_Query_hits [OF False]
    using select_hits_sublist select_hits_budget [of input 0]
    by (cases "q_token_budget input \<le> 0") simp_all
qed

text \<open>
  C6. A write that does not succeed leaves no trace in memory: either the workspace is
  missing, or the store refused the batch; then its error is the last warning, and the
  state differs at most in the clock, the sequence number and the store itself.
\<close>

theorem Write_failure_atomic:
  assumes "engine_Write V input e = Some (out, e')" and "wo_ok out = False"
  shows "wi_workspace_id input = '''' \<and> e' = e \<or>
    (\<exists>writes t n. let (s, res) = so_BatchWrite (ev_store V) writes (e_store e) in
       \<not> sr_ok res \<and> last (wo_warnings out) = sr_error res \<and>
       e' = e\<lparr> e_ticks := t, e_local_seq := n, e_store := s \<rparr>)"
proof (cases "wi_workspace_id input = '''' \<or> wi_records input = []")
  case True
  with assms show ?thesis
    by (auto simp: engine_Write_def add_warning_def split: if_splits)
next
  case False
  then have ws: "wi_workspace_id input \<noteq> ''''" and ne: "wi_records input \<noteq> []" by simp_all
  obtain now e1 a where st: "write_stage V input e = (now, e1, a)" by (metis prod_cases3)
  have c: "clock_step e e1" using clock_step_write_stage [of e V input] by (simp add: st)
  from assms(1) ws ne st show ?thesis
  proof (cases rule: Write_outcome)
    case idle
    with assms(2) show ?thesis by simp
  next
    case (failed e2 err)
    from c obtain t n where "e1 = e\<lparr> e_ticks := t, e_local_seq := n \<rparr>" by (auto simp: clock_step_def)
    with failed(2,3,4) show ?thesis
      by (intro disjI2 exI [of _ "wa_writes a"] exI [of _ t] exI [of _ n])
        (auto simp: PersistBatchNow_eq add_warning_def split: if_splits)
  next
    case (stored e2 e4 e5 err')
    with assms(2) write_finish_sel(3) [OF stored(5)] show ?thesis by simp
  qed
qed

definition failing_env :: "(InMemoryStoreAdapter, LshVectorIndex HybridRetriever, ptree) engine_env" where
  "failing_env = sample_env\<lparr> ev_store := (mem_ops sample_mem_env)\<lparr> so_BatchWrite :=
     (\<lambda>_ s. (s, \<lparr> sr_ok = False, sr_error = ''disk full'' \<rparr>)) \<rparr> \<rparr>"

lemma failing_BatchWrite:
  "so_BatchWrite (ev_store failing_env) ws s = (s, \<lparr> sr_ok = False, sr_error = ''disk full'' \<rparr>)"
  by (simp add: failing_env_def)

lemma failing_Write:
  "\<exists>out e1. engine_Write failing_env (sample_write ''w'' ''x'') sample_engine = Some (out, e1) \<and> wo_ok out = False"
  by (simp add: engine_Write_def write_stage_def write_step_def stage_record_def PersistRecord_Some
      AppendProjectionEvent_def AppendProjectionCheckpoint_def PersistBatchNow_def failing_BatchWrite
      sample_write_def sample_engine_def new_MemoryEngine_def build_record_def ComputeRecordSizeBytes_def
      metadata_or_def default_MemoryEngineOptions_def pin_decision_def NowMs_def add_warning_def
      record_writes_nonempty Let_def)

theorem Write_failure_atomic_witness:
  "\<exists>out e1. engine_Write failing_env (sample_write ''w'' ''x'') sample_engine = Some (out, e1) \<and>
     last (wo_warnings out) = ''disk full'' \<and> e_records e1 = e_records sample_engine"
proof -
  obtain out e1 where w: "engine_Write failing_env (sample_write ''w'' ''x'') sample_engine = Some (out, e1)"
    "wo_ok out = False" using failing_Write by blast
  from Write_failure_atomic [OF w] show ?thesis
    using w(1) by (auto simp: failing_BatchWrite sample_write_def)
qed

text \<open>
  C39. A write never takes a workspace over its pin quota: afterwards it has no more pinned
  live records than the quota, or than it had before.
\<close>

theorem Write_pin_quota:
  assumes "engine_Write V input e = Some (out, e')" and "filed_ok (e_records e)"
  shows "ps_pinned (ComputeWorkspacePinStats (e_records e') (wi_workspace_id input)) \<le>
    max (unat (op_pin_quota_per_workspace (e_options e)))
      (ps_pinned (ComputeWorkspacePinStats (e_records e) (wi_workspace_id input)))"
proof (cases "wi_workspace_id input = '''' \<or> wi_records input = []")
  case True
  with assms(1) show ?thesis by (auto simp: engine_Write_def split: if_splits)
next
  case False
  then have ws: "wi_workspace_id input \<noteq> ''''" and ne: "wi_records input \<noteq> []" by simp_all
  obtain now e1 a where st: "write_stage V input e = (now, e1, a)" by (metis prod_cases3)
  have c: "clock_step e e1" using clock_step_write_stage [of e V input] by (simp add: st)
  let ?P = "\<lambda>kv. pinned_in (wi_workspace_id input) (snd kv)"
  let ?before = "umap_count ?P (e_records e)"
  show ?thesis
  proof (cases "wo_ok out \<and> wa_writes a \<noteq> []")
    case True
    then obtain e4 where e4: "e_records e4 = e_records (fold (UpsertRecordInMemory V) (wa_upserts a) e)"
      "filed_ok (e_records e4)" "enforced e4 e'"
      using Write_effect [OF assms(2,1) ws ne st] by metis
    have g: "pins_granted (unat (op_pin_quota_per_workspace (e_options e))) ?before a"
      using pins_granted_stage [of e input V] by (simp add: st pin_stats_counts)
    have "filter (pinned_in (wi_workspace_id input)) (wa_upserts a) = filter r_pinned (wa_upserts a)"
      using staged_ok_stage [of V e input]
      by (intro filter_cong) (auto simp: st staged_ok_def list_all_iff pinned_in_def)
    then have "umap_count ?P (e_records e4) \<le> ?before + length (filter r_pinned (wa_upserts a))"
      using fold_Upsert_count [OF assms(2), of "wi_workspace_id input" V "wa_upserts a"] by (simp add: e4(1))
    moreover have "umap_count ?P (e_records e') \<le> umap_count ?P (e_records e4)"
      using e4(2,3) umap_count_submap [of "e_records e4" "e_records e'"]
      by (simp add: enforced_def filed_okD(2))
    ultimately show ?thesis
      using g by (cases "filter r_pinned (wa_upserts a) = []") (auto simp: pin_stats_counts pins_granted_def)
  next
    case False
    have "e_records e' = e_records e"
      using assms(1) ws ne st
    proof (cases rule: Write_outcome)
      case (stored e2 e4 e5 err')
      with False write_finish_sel(3) [OF stored(5)] show ?thesis by simp
    qed (use c in \<open>auto simp: PersistBatchNow_eq clock_step_sel\<close>)
    then show ?thesis by simp
  qed
qed

theorem Write_pin_quota_witness:
  "\<exists>out e'. engine_Write sample_env (sample_write ''w'' ''x'') sample_engine = Some (out, e') \<and>
     ps_pinned (ComputeWorkspacePinStats (e_records e') ''w'') \<le> 10000"
proof -
  obtain out e' where w: "engine_Write sample_env (sample_write ''w'' ''x'') sample_engine = Some (out, e')"
    using sample_Write_returns [OF sample_engine_ok] by blast
  have "ps_pinned (ComputeWorkspacePinStats (e_records sample_engine) ''w'') = 0"
    by (simp add: sample_engine_def new_MemoryEngine_def ComputeWorkspacePinStats_def)
  moreover have "unat (op_pin_quota_per_workspace (e_options sample_engine)) = 10000"
    by (simp add: sample_engine_def new_MemoryEngine_def default_MemoryEngineOptions_def)
  ultimately show ?thesis
    using Write_pin_quota [OF w sample_engine_filed] w by (auto simp: sample_write_def)
qed



text \<open>
  Deduplication looks at its index only: when the id it finds belongs to a tombstone, the
  new content is still turned away and reported as deduplicated, although no live record
  holds it.
\<close>

lemma dedup_on_tombstone:
  assumes "wi_workspace_id input \<noteq> ''''" and "wi_records input = [r]" and "wr_content r \<noteq> ''''"
    and "wr_dedup_key r \<noteq> ''''" and "wi_write_mode input \<noteq> ''append''"
    and "map_of (e_dedup_index e) (wi_workspace_id input @ '':'' @ wr_dedup_key r) = Some i"
    and "map_of (e_records e) (RecordMapKey (wi_workspace_id input) i) = Some t" and "r_tombstone t"
  shows "engine_Write V input e = Some (default_WriteOutput\<lparr> wo_ok := True, wo_deduped_ids := [i] \<rparr>,
      e\<lparr> e_ticks := e_ticks e + 1 \<rparr>) \<and> live_view (e_records e) (wi_workspace_id input) i = None"
proof -
  have "dedup_id e input r = Some i" using assms by (simp add: dedup_id_def)
  with assms Write_known [OF assms(1), of e V] show ?thesis by (simp add: live_view_def)
qed

theorem dedup_on_tombstone_witness:
  "\<exists>e. engine_Write sample_env (sample_write ''w'' ''x'') e =
     Some (default_WriteOutput\<lparr> wo_ok := True, wo_deduped_ids := [''m0''] \<rparr>, e\<lparr> e_ticks := e_ticks e + 1 \<rparr>) \<and>
     live_view (e_records e) ''w'' ''m0'' = None"
proof -
  let ?i = "sample_write ''w'' ''x''"
  let ?t = "default_MemoryRecord\<lparr> r_id := ''m0'', r_workspace_id := ''w'', r_tombstone := True \<rparr>"
  let ?e = "sample_engine\<lparr> e_dedup_index := [(''w:k'', ''m0'')], e_records := [(''w:m0'', ?t)] \<rparr>"
  have i: "wi_workspace_id ?i = ''w''" "wi_records ?i = [hd (wi_records ?i)]" "wr_content (hd (wi_records ?i)) \<noteq> ''''"
    "wr_dedup_key (hd (wi_records ?i)) = ''k''" "wi_write_mode ?i \<noteq> ''append''"
    by (simp_all add: sample_write_def)
  from dedup_on_tombstone [OF _ i(2,3) _ i(5), of ?e "''m0''" ?t sample_env] i(1,4)
  show ?thesis by (intro exI [of _ ?e]) (simp add: RecordMapKey_def)
qed


text \<open>A log with one event, over documents that all read as one record of workspace \<open>w\<close>.\<close>

definition one_record_api :: "string json_api" where
  "one_record_api =
     \<lparr> j_empty = '''', j_put = (\<lambda>_ _ j. j), j_add_child = (\<lambda>_ _ j. j), j_push_back = (\<lambda>_ _ j. j),
       j_get_string = (\<lambda>_ k. if k = ''id'' then Some ''m1'' else if k = ''workspace_id'' then Some ''w'' else None),
       j_get_bool = (\<lambda>_ _. None),
       j_get_u64 = (\<lambda>_ k. if k = ''updated_at_ms'' then Some 7 else None), j_get_int = (\<lambda>_ _. None),
       j_get_double = (\<lambda>_ _. None), j_get_child = (\<lambda>_ _. None), j_children = (\<lambda>_. []),
       j_value = (\<lambda>j. j), j_write = (\<lambda>_ j. j), j_read = (\<lambda>s. Inr s) \<rparr>"

definition log_env :: "(InMemoryStoreAdapter, LshVectorIndex HybridRetriever, string) engine_env" where
  "log_env =
     \<lparr> ev_store = (mem_ops sample_mem_env)\<lparr> so_Scan := (\<lambda>_ ns _ _ _.
         if ns = kEventsNs
         then ([\<lparr> kv_name_space = ns, kv_key = ''ws/w/ts/1'', kv_value = '''', kv_ts = 7 \<rparr>], '''')
         else ([], '''')) \<rparr>,
       ev_retriever = ret_ops, ev_json = one_record_api, ev_hash = (\<lambda>s. of_nat (length s)),
       ev_float_format = (\<lambda>_. ''0''), ev_now = (\<lambda>n. of_nat (1000 + n)), ev_elapsed_ms = (\<lambda>_. 1),
       ev_stage = (\<lambda>_. \<lparr> st_sparse_ms = 0, st_dense_ms = 0, st_rerank_ms = 0, st_total_ms = 0 \<rparr>) \<rparr>"

lemma log_env_pending:
  "\<exists>r. pending_events log_env sample_engine = [r] \<and> key_of r = ''w:m1'' \<and> stamp_of r = Stamp 7 0 ''''"
  by (simp add: pending_events_def scan_namespace_def log_env_def name_spaces List.map_filter_def
      event_record_def ParseJson_def one_record_api_def GetStringOr_def DeserializeRecord_def
      record_of_json_def GetUint64OrSafe_def GetBoolOr_def GetDoubleOr_def ReadStringArray_def
      read_metadata_def key_of_def RecordMapKey_def stamp_of_def Let_def)


text \<open>
  C7. Compaction, forced or not, and whether or not the store takes its batch, never touches
  a pinned record that is not a tombstone, nor any record outside the named workspace; a
  live record that it changes was one of its victims, and is now that record's tombstone.
\<close>

theorem Compact_spares:
  assumes "filed_ok (e_records e)" and "map_of (e_records e) k = Some r"
    and "CompactInternal V ws force e = (out, e')"
    and "map_of (e_records e') k \<noteq> Some r"
  shows "in_workspace ws r \<and> (r_tombstone r \<or> \<not> r_pinned r) \<and>
    (r_tombstone r \<or> (\<exists>now. r \<in> set (compact_victims e ws now) \<and>
       map_of (e_records e') k = Some (make_tombstone (e_node_id e) now r)))"
  using compact_records [OF assms(1-3)] assms(4) compact_victims_in by blast

text \<open>One live record, compacted by force over the in-memory store.\<close>

definition sample_live :: MemoryRecord where
  "sample_live = default_MemoryRecord\<lparr> r_id := ''m1'', r_workspace_id := ''w'', r_content := ''x'' \<rparr>"

definition sample_holding :: "(InMemoryStoreAdapter, LshVectorIndex HybridRetriever) MemoryEngine" where
  "sample_holding = sample_engine\<lparr> e_records := [(''w:m1'', sample_live)] \<rparr>"

lemma sample_holding_filed: "filed_ok (e_records sample_holding)"
  by (simp add: sample_holding_def sample_live_def filed_ok_def RecordMapKey_def default_MemoryRecord_def)

lemma sample_holding_victims: "compact_victims sample_holding ''w'' now = [sample_live]"
  by (simp add: compact_victims_def sample_holding_def sample_live_def sample_engine_def new_MemoryEngine_def
      default_MemoryEngineOptions_def default_MemoryRecord_def in_workspace_def)

lemma sample_holding_store: "mem_inv sample_mem_env (e_store sample_holding)"
  by (simp add: sample_holding_def sample_engine_def new_MemoryEngine_def mem_inv_init)

theorem Compact_spares_witness:
  "\<exists>out e'. CompactInternal sample_env ''w'' True sample_holding = (out, e') \<and>
     (\<exists>now. map_of (e_records e') ''w:m1'' = Some (make_tombstone ''n1'' now sample_live))"
proof -
  obtain out e' where c: "CompactInternal sample_env ''w'' True sample_holding = (out, e')" by fastforce
  have k: "key_of sample_live = ''w:m1''" "\<not> r_tombstone sample_live"
    by (simp_all add: sample_live_def key_of_def RecordMapKey_def default_MemoryRecord_def)
  have "map_of (e_records e') ''w:m1'' = Some (make_tombstone (e_node_id sample_holding)
      (ev_now sample_env (e_ticks sample_holding)) sample_live)"
    using compact_forced [OF sample_holding_filed _ _ c, of sample_live] mem.BatchWrite_ok [OF sample_holding_store]
    by (simp add: sample_holding_victims k sample_env_def sample_env_on_def)
  then have "map_of (e_records e') ''w:m1'' \<noteq> Some sample_live"
    using k by (auto simp: make_tombstone_def Let_def dest: arg_cong [of _ _ r_tombstone])
  moreover have "map_of (e_records sample_holding) ''w:m1'' = Some sample_live" by (simp add: sample_holding_def)
  ultimately show ?thesis
    using Compact_spares [OF sample_holding_filed _ c, of "''w:m1''" sample_live] c k
    by (auto simp: sample_holding_def sample_engine_def new_MemoryEngine_def)
qed

text \<open>
  C8. A forced compaction over a store that takes every batch makes progress: it turns its
  victims, which are all the live unpinned records of the workspace or a full batch of
  them, into tombstones, even when nothing is near the disk limit; no live unpinned record
  it leaves ranks below one it takes.
\<close>

theorem Compact_forced_tombstones:
  assumes "filed_ok (e_records e)" and "reliable_writes (ev_store V) sinv view nsok" and "sinv (e_store e)"
    and "CompactInternal V ws True e = (out, e')"
  shows "let now = ev_now V (e_ticks e); victims = compact_victims e ws now;
      batch = (if op_gc_batch_size (e_options e) = 0 then 256 else unat (op_gc_batch_size (e_options e)));
      open_records = filter (\<lambda>r. in_workspace ws r \<and> \<not> r_tombstone r \<and> \<not> r_pinned r) (map snd (e_records e)) in
    list_all (\<lambda>r. map_of (e_records e') (key_of r) = Some (make_tombstone (e_node_id e) now r)) victims \<and>
    length victims = min batch (length open_records) \<and> co_tombstoned_count out = of_nat (length victims) \<and>
    list_all (\<lambda>r. r \<in> set victims \<or> list_all (\<lambda>v. \<not> compact_less now r v) victims) open_records"
proof -
  define now where "now = ev_now V (e_ticks e)"
  define L where "L = filter (\<lambda>r. \<not> r_pinned r \<and> \<not> r_tombstone r) (sort_by (compact_less now)
    (filter (\<lambda>r. \<not> r_tombstone r) (filter (in_workspace ws) (map snd (e_records e)))))"
  define open_records where "open_records = filter (\<lambda>r. in_workspace ws r \<and> \<not> r_tombstone r \<and> \<not> r_pinned r)
    (map snd (e_records e))"
  define batch where "batch = (if op_gc_batch_size (e_options e) = 0 then 256 else unat (op_gc_batch_size (e_options e)))"
  have v: "compact_victims e ws now = take batch L" by (simp add: compact_victims_def L_def batch_def)
  have "mset L = mset open_records"
    unfolding L_def filter_mset_sort_by filter_filter open_records_def
    by (rule arg_cong [of _ _ mset]) (auto intro: filter_cong)
  then have len: "length L = length open_records" and set: "set L = set open_records"
    by (auto dest: mset_eq_length mset_eq_setD)
  have "sorted_wrt (\<lambda>a b. \<not> compact_less now b a) L"
    unfolding L_def by (intro sorted_wrt_filter compact_order.sorted_sort_by)
  then have least: "r \<in> set (take batch L) \<or> \<not> compact_less now r v"
    if "r \<in> set L" "v \<in> set (take batch L)" for r v
    using that by (metis Un_iff append_take_drop_id set_append sorted_wrt_append)
  have tomb: "map_of (e_records e') (key_of r) = Some (make_tombstone (e_node_id e) now r)"
    if "r \<in> set (compact_victims e ws now)" for r
    using compact_forced [OF assms(1) that [unfolded now_def] reliable_writes.BatchWrite_ok [OF assms(2,3)] assms(4)]
    by (simp add: now_def)
  have count: "co_tombstoned_count out = of_nat (length (compact_victims e ws now))"
    using compact_forced_count [OF assms(4)] by (simp add: now_def)
  from least tomb count len show ?thesis
    by (simp add: Let_def now_def [symmetric] open_records_def [symmetric] batch_def [symmetric] v list_all_iff set
      min.commute [of batch]) blast
qed

theorem Compact_forced_tombstones_witness:
  "let (out, e') = CompactInternal sample_env ''w'' True sample_holding in
     co_tombstoned_count out = 1 \<and> (\<exists>t. map_of (e_records e') ''w:m1'' = Some t \<and> r_tombstone t)"
proof -
  obtain out e' where c: "CompactInternal sample_env ''w'' True sample_holding = (out, e')" by fastforce
  have "reliable_writes (ev_store sample_env) (mem_inv sample_mem_env) (mem_view sample_mem_env) (\<lambda>_. True)"
    by (simp add: sample_env_def sample_env_on_def mem.reliable_writes_axioms)
  from Compact_forced_tombstones [OF sample_holding_filed this sample_holding_store c] show ?thesis
    by (simp add: c Let_def sample_holding_victims key_of_def RecordMapKey_def make_tombstone_def)
      (simp add: sample_live_def RecordMapKey_def)
qed

text \<open>
  What a successful write has stored is read back by a new engine over any store that answers
  the read of the document as the old one does.
\<close>

lemma Write_reload:
  assumes "reliable_writes (ev_store V) sinv view nsok" and "sinv (e_store e)" and "list_all nsok engine_ns"
    and "json_laws (ev_json V) rnd readable" and "\<And>r. readable (record_json (ev_json V) r)"
    and "list_all (\<lambda>r. list_all plain_key (map fst (wr_metadata r)) \<and> omap_ok (wr_metadata r)) (wi_records input)"
    and "filed_ok (e_records e)" and "engine_Write V input e = Some (out, e')" and "wo_ok out"
    and "i \<in> set (wo_stored_ids out)"
    and same: "so_Get (ev_store V) s2 kDocNs (BuildDocKey (wi_workspace_id input) i) =
      so_Get (ev_store V) (e_store e') kDocNs (BuildDocKey (wi_workspace_id input) i)"
  shows "\<exists>r rec_in. LoadRecord V (wi_workspace_id input) i (new_MemoryEngine s2 retr n opts) = Inr r \<and>
    r_id r = i \<and> r_workspace_id r = wi_workspace_id input \<and> \<not> r_tombstone r \<and>
    rec_in \<in> set (wi_records input) \<and> r_content r = wr_content rec_in \<and> r_tags r = wr_tags rec_in \<and>
    r_metadata r = wr_metadata rec_in \<and> r_dedup_key r = wr_dedup_key rec_in"
proof (rule reliable_writes.Write_stored_doc [OF assms(1) refl assms(2,3,7-10)])
  fix r rec_in rid pinned now and e1 :: "('a, 'b) MemoryEngine"
  assume id: "r_id r = i" and rin: "rec_in \<in> set (wi_records input)"
    and r: "r = build_record e1 input rec_in rid pinned now"
    and get: "gr_found (so_Get (ev_store V) (e_store e') kDocNs (BuildDocKey (wi_workspace_id input) i))"
      "gr_value (so_Get (ev_store V) (e_store e') kDocNs (BuildDocKey (wi_workspace_id input) i)) =
        SerializeRecord (ev_json V) r"
  have md: "list_all plain_key (map fst (r_metadata r))" "omap_ok (r_metadata r)"
    using assms(6) rin by (auto simp: r build_record_def Let_def list_all_iff)
  have "DeserializeRecord (ev_json V) (SerializeRecord (ev_json V) r) =
      Inr (r\<lparr> r_importance_score := rnd (r_importance_score r) \<rparr>)"
    by (rule read_back_sized [OF assms(4) md assms(5)]) (simp add: r build_record_size)
  then have "LoadRecord V (wi_workspace_id input) i (new_MemoryEngine s2 retr n opts) =
      Inr (r\<lparr> r_importance_score := rnd (r_importance_score r) \<rparr>)"
    using get by (simp add: LoadRecord_def new_MemoryEngine_def same)
  then show ?thesis
    using id rin
    by (intro exI [of _ "r\<lparr> r_importance_score := rnd (r_importance_score r) \<rparr>"] exI [of _ rec_in])
      (simp add: r build_record_def Let_def)
qed


lemma sample_Write_stores_on:
  assumes ok: "\<And>ws. sr_ok (snd (so_BatchWrite ops ws s))"
  shows "\<exists>out e'. engine_Write (sample_env_on ops) (sample_write ''w'' ''x'') (sample_engine_on s) = Some (out, e') \<and>
    wo_ok out \<and> wo_stored_ids out = [''m1'']"
proof -
  let ?i = "sample_write ''w'' ''x''" and ?V = "sample_env_on ops" and ?e = "sample_engine_on s"
  have hyb: "over_hybrid ?V = ?V" by (simp add: sample_env_on_def)
  have "resident_ok ?V ?e" using hyb.resident_ok_new [of ?V] by (simp add: hyb)
  then obtain out e' where w: "engine_Write ?V ?i ?e = Some (out, e')"
    using hyb.acct.I_Write [of ?V ?e ?i] by (auto simp: hyb)
  have ws: "wi_workspace_id ?i \<noteq> ''''" and ne: "wi_records ?i \<noteq> []" by (simp_all add: sample_write_def)
  obtain now e1 a where st: "write_stage ?V ?i ?e = (now, e1, a)" by (metis prod_cases3)
  have "wa_writes (snd (snd (write_stage ?V ?i ?e))) \<noteq> []"
    "wo_stored_ids (wa_out (snd (snd (write_stage ?V ?i ?e)))) = [''m1'']" "e_store (fst (snd (write_stage ?V ?i ?e))) = s"
    by (simp_all add: write_stage_def write_step_def stage_record_def PersistRecord_Some
      AppendProjectionEvent_def AppendProjectionCheckpoint_def default_WriteOutput_def
      sample_write_def new_MemoryEngine_def build_record_def ComputeRecordSizeBytes_def
      metadata_or_def default_MemoryEngineOptions_def pin_decision_def NowMs_def
      record_writes_nonempty Let_def)
  then have a: "wa_writes a \<noteq> []" "wo_stored_ids (wa_out a) = [''m1'']" "e_store e1 = s" by (simp_all add: st)
  have ok1: "sr_ok (snd (so_BatchWrite (ev_store ?V) ws (e_store e1)))" for ws
    using ok by (simp add: a(3) sample_env_on_def)
  from w ws ne st have "wo_ok out \<and> wo_stored_ids out = [''m1'']"
  proof (cases rule: Write_outcome)
    case idle
    with a show ?thesis by simp
  next
    case (failed e2 err)
    with ok1 show ?thesis by (auto simp: PersistBatchNow_eq)
  next
    case (stored e2 e4 e5 err')
    with a(2) write_finish_sel [OF stored(5)] show ?thesis by simp
  qed
  with w show ?thesis by blast
qed

lemma sample_Write_stores:
  "\<exists>out e'. engine_Write sample_env (sample_write ''w'' ''x'') sample_engine = Some (out, e') \<and> wo_ok out \<and>
     wo_stored_ids out = [''m1'']"
  using sample_Write_stores_on [of "mem_ops sample_mem_env" CreateInMemoryStoreAdapter]
  by (simp add: mem_BatchWrite_ok sample_env_def sample_engine_def)


text \<open>
  Pinning a record that is in memory counts it twice: the ratio is checked for one live
  record more than the workspace has, so the only record of a workspace can be pinned
  under a limit of one half, after which all of its records are pinned.
\<close>

lemma pin_ratio_counts_twice:
  assumes "op_max_pinned_ratio (e_options e) = 1 / 2" and "0 < unat (op_pin_quota_per_workspace (e_options e))"
    and "ps_active (ComputeWorkspacePinStats (e_records e) ws) = 1"
    and "ps_pinned (ComputeWorkspacePinStats (e_records e) ws) = 0"
  shows "pin_refusal e ws = None \<and> IsPinBlockedByRatio 1 1 (op_max_pinned_ratio (e_options e))"
  using assms by (simp add: pin_refusal_def IsPinBlockedByRatio_def PinnedRatio_def Let_def)

text \<open>
  The vector code of a record is written under a bucket taken from its embedding and
  deleted under one taken from the hash of its id: the delete names the entry that was
  written only when the two buckets happen to agree, and otherwise it stays in the store
  for good.  The fingerprint entry is always deleted.
\<close>

definition deletes_key :: "string \<Rightarrow> string \<Rightarrow> WriteEntry list \<Rightarrow> bool" where
  "deletes_key ns key ws \<longleftrightarrow>
     list_ex (\<lambda>w. we_op w = WDelete \<and> kv_name_space (we_entry w) = ns \<and> kv_key (we_entry w) = key) ws"

lemma vector_code_deleted_iff:
  "deletes_key kVecCodeNs (kv_key (we_entry (vector_writes V r ! 0))) (delete_vectors_for V ts r) =
     (EncodeVectorBucketSignature (BuildEmbedding (ev_hash V) (r_content r) 64) mod 256 =
      BucketForPosting (ev_hash V) (r_workspace_id r) (r_id r)) \<and>
   deletes_key kVecFpNs (kv_key (we_entry (vector_writes V r ! 1))) (delete_vectors_for V ts r)"
proof -
  have "BuildVecCodeKey ws b i = BuildVecCodeKey ws b' i \<longleftrightarrow> b = b'" for ws b b' i
    unfolding BuildVecCodeKey_def by (auto simp: word_unat_eq_iff dest: arg_cong [of _ _ dec_val])
  then show ?thesis
    by (simp add: deletes_key_def delete_vectors_for_def vector_writes_def upsert_entry_def delete_entry_def
        name_spaces Let_def) metis
qed

text \<open>
  C10. Whatever a write brings into memory is well formed: a live record of the workspace of
  the request, at version 1, with content, a non-negative importance, and a recorded size
  that is its true size and within the limit.
\<close>

theorem Write_well_formed:
  assumes "filed_ok (e_records e)" and "engine_Write V input e = Some (out, e')"
    and "r \<in> snd ` set (e_records e')" and "r \<notin> snd ` set (e_records e)"
  shows "r_workspace_id r = wi_workspace_id input \<and> r_content r \<noteq> [] \<and> \<not> r_tombstone r \<and>
    r_version r = 1 \<and> 0 \<le> r_importance_score r \<and> r_size_bytes r = ComputeRecordSizeBytes r \<and>
    r_size_bytes r \<le> op_max_record_bytes (e_options e)"
proof (rule Write_new_record [OF assms])
  fix now a and e1 :: "('a, 'b) MemoryEngine"
  assume st: "write_stage V input e = (now, e1, a)" and r: "r \<in> set (wa_upserts a)"
  obtain rec_in rid pinned now' and e0 :: "('a, 'b) MemoryEngine" where
    b: "wr_content rec_in \<noteq> []" "r = build_record e0 input rec_in rid pinned now'"
    using staged_from [of r V input e] r by (auto simp: st)
  then have "r_content r \<noteq> [] \<and> 0 \<le> r_importance_score r" by (simp add: build_record_def Let_def)
  with staged_ok_stage [of V e input] r show ?thesis by (auto simp: st staged_ok_def list_all_iff)
qed

theorem Write_well_formed_witness:
  "\<exists>out e'. engine_Write sample_env (sample_write ''w'' ''x'') sample_engine = Some (out, e') \<and>
     list_all (\<lambda>kv. r_workspace_id (snd kv) = ''w'' \<and> r_version (snd kv) = 1) (e_records e')"
proof -
  obtain out e' where w: "engine_Write sample_env (sample_write ''w'' ''x'') sample_engine = Some (out, e')"
    using sample_Write_returns [OF sample_engine_ok] by blast
  have "e_records sample_engine = []" by (simp add: sample_engine_def new_MemoryEngine_def)
  then have "r_workspace_id (snd kv) = ''w'' \<and> r_version (snd kv) = 1" if "kv \<in> set (e_records e')" for kv
    using Write_well_formed [OF sample_engine_filed w imageI [OF that]] by (simp add: sample_write_def)
  then have "list_all (\<lambda>kv. r_workspace_id (snd kv) = ''w'' \<and> r_version (snd kv) = 1) (e_records e')"
    unfolding list_all_iff by blast
  with w show ?thesis by blast
qed

text \<open>
  A compaction whose batch the store refuses changes no record, no index and no charge;
  its answer, though, still counts every victim as tombstoned.
\<close>

lemma Compact_refused:
  assumes "\<And>writes s. \<not> sr_ok (snd (so_BatchWrite (ev_store V) writes s))"
    and "CompactInternal V ws True e = (out, e')"
  shows "e_records e' = e_records e \<and> e_retriever e' = e_retriever e \<and> e_dedup_index e' = e_dedup_index e \<and>
    e_resident_charge_bytes e' = e_resident_charge_bytes e \<and>
    co_tombstoned_count out = of_nat (length (compact_victims e ws (ev_now V (e_ticks e))))"
proof -
  obtain now e1 where n: "NowMs V e = (now, e1)" by fastforce
  obtain e2 ups dels where pl: "compact_plan V ws now e1 = (e2, ups, dels)" by (metis prod_cases3)
  have "clock_step e e1" using clock_step_NowMs [of e V] by (simp add: n)
  then have c: "clock_step e e2"
    using clock_step_trans [OF _ clock_step_compact_plan [of e1 V ws now]] by (simp add: pl)
  obtain b e3 where ap: "compact_apply V (ca_writes dels) (ca_records ups) (ca_records dels)
      (ca_count dels) e2 = (b, e3)" by fastforce
  have "same_memory e2 e3"
    using ap assms(1) by (auto simp: compact_apply_def same_memory_def Let_def case_prod_beta split: if_splits)
  moreover have "same_memory e3 e'" using assms(2)
    by (auto simp: CompactInternal_def n pl ap Let_def same_memory_def)
  ultimately have "same_memory e e'" using same_memory_clock [OF c] same_memory_trans by blast
  then show ?thesis using compact_forced_count [OF assms(2)] by (simp add: same_memory_def)
qed

theorem Compact_refused_witness:
  "let (out, e') = CompactInternal failing_env ''w'' True sample_holding in
     co_tombstoned_count out = 1 \<and> e_records e' = [(''w:m1'', sample_live)]"
proof -
  obtain out e' where c: "CompactInternal failing_env ''w'' True sample_holding = (out, e')" by fastforce
  from Compact_refused [OF _ c] show ?thesis
    by (simp add: c failing_BatchWrite sample_holding_victims) (simp add: sample_holding_def)
qed

end
