(* ===== verification/Eloq_Properties.thy ===== *)
theory Eloq_Properties
  imports Eloq_Layout Engine_Properties
begin

text \<open>
  The claims about the EloqStore adapter, with a small concrete store underneath for their
  instances, and the claims about the memory engine over this adapter.
\<close>

section \<open>A concrete store\<close>

text \<open>
  Ordered tables for the partitions that have been written; reads and scans of any other
  partition say that it is not found.
\<close>

record list_kv =
  lk_tables :: "(u32, (string, string \<times> u64) omap) omap"
  lk_meta :: "string option"

definition lk_row :: "list_kv \<Rightarrow> u32 \<Rightarrow> (string, string \<times> u64) omap" where
  "lk_row k pid = (case map_of (lk_tables k) pid of None \<Rightarrow> [] | Some row \<Rightarrow> row)"

definition lk_apply :: "WriteDataEntry \<Rightarrow> (string, string \<times> u64) omap \<Rightarrow> (string, string \<times> u64) omap" where
  "lk_apply d row = (case data_result d of None \<Rightarrow> umap_erase (wd_key d) row | Some x \<Rightarrow> omap_put (wd_key d) x row)"

definition lk_write :: "u32 \<Rightarrow> WriteDataEntry list \<Rightarrow> list_kv \<Rightarrow> list_kv \<times> KvError" where
  "lk_write pid ws k = (k\<lparr> lk_tables := omap_put pid (fold lk_apply ws (lk_row k pid)) (lk_tables k) \<rparr>, KvNoError)"

definition lk_read :: "list_kv \<Rightarrow> u32 \<Rightarrow> string \<Rightarrow> KvError \<times> string" where
  "lk_read k pid key =
     (case map_of (lk_row k pid) key of None \<Rightarrow> (KvNotFound, []) | Some x \<Rightarrow> (KvNoError, fst x))"

definition lk_scan :: "list_kv \<Rightarrow> u32 \<Rightarrow> string \<Rightarrow> string \<Rightarrow> (u64 \<times> u64) option \<Rightarrow> KvError \<times> KvEntry list" where
  "lk_scan k pid b e page =
     (if map_of (lk_tables k) pid = None then (KvNotFound, [])
      else
        (let es = map (\<lambda>p. kv_entry_of (fst p) (snd p)) (filter (\<lambda>p. b \<le> fst p \<and> fst p < e) (lk_row k pid))
         in (KvNoError, case page of None \<Rightarrow> es | Some (n, _) \<Rightarrow> take (unat n) es)))"

definition lk_error :: "KvError \<Rightarrow> string" where
  "lk_error err = (if err = KvNotFound then ''Resource not found'' else ''Error'')"

definition lk_env :: "(string \<Rightarrow> u64) \<Rightarrow> list_kv el_env" where
  "lk_env hash =
     \<lparr> le_kv = \<lparr> kv_Start = \<lambda>k. (k, KvNoError), kv_Stop = \<lambda>k. k, kv_Read = lk_read, kv_BatchWrite = lk_write,
         kv_Scan = lk_scan, kv_Compact = \<lambda>_ k. (k, KvNoError), kv_ErrorString = lk_error \<rparr>,
       le_hash = hash, le_hardware_concurrency = 4, fs_size = \<lambda>_. 0, fs_read_meta = lk_meta,
       fs_write_meta = \<lambda>s k. (k\<lparr> lk_meta := Some s \<rparr>, True, True),
       fs_dirs = \<lambda>k. map (\<lambda>p. partition_dir (fst p)) (lk_tables k),
       fs_remove_all = \<lambda>name k. k\<lparr> lk_tables := filter (\<lambda>p. partition_dir (fst p) \<noteq> name) (lk_tables k) \<rparr>,
       fs_is_empty = \<lambda>k name. list_all (\<lambda>p. partition_dir (fst p) = name \<longrightarrow> snd p = []) (lk_tables k),
       fs_remove_legacy_marker = \<lambda>k. k \<rparr>"

definition lk_inv :: "list_kv \<Rightarrow> bool" where
  "lk_inv k \<longleftrightarrow> omap_ok (lk_tables k) \<and> (\<forall>p \<in> set (lk_tables k). omap_ok (snd p))"

definition lk_table :: "list_kv \<Rightarrow> u32 \<Rightarrow> kv_row" where
  "lk_table k pid = map_of (lk_row k pid)"

lemma lk_env_sel [simp]:
  "kv_Start (le_kv (lk_env h)) k = (k, KvNoError)" "kv_Read (le_kv (lk_env h)) = lk_read"
  "kv_BatchWrite (le_kv (lk_env h)) = lk_write" "kv_Scan (le_kv (lk_env h)) = lk_scan"
  "kv_Compact (le_kv (lk_env h)) pid k = (k, KvNoError)" "kv_ErrorString (le_kv (lk_env h)) = lk_error"
  "le_hash (lk_env h) = h" "fs_read_meta (lk_env h) = lk_meta"
  "fs_write_meta (lk_env h) s k = (k\<lparr> lk_meta := Some s \<rparr>, True, True)"
  "fs_dirs (lk_env h) k = map (\<lambda>p. partition_dir (fst p)) (lk_tables k)"
  "fs_remove_all (lk_env h) name k = k\<lparr> lk_tables := filter (\<lambda>p. partition_dir (fst p) \<noteq> name) (lk_tables k) \<rparr>"
  "fs_is_empty (lk_env h) k name = list_all (\<lambda>p. partition_dir (fst p) = name \<longrightarrow> snd p = []) (lk_tables k)"
  "fs_remove_legacy_marker (lk_env h) k = k"
  by (simp_all add: lk_env_def)

lemma lk_row_ok: "lk_inv k \<Longrightarrow> omap_ok (lk_row k pid)"
  by (auto simp: lk_inv_def lk_row_def split: option.split dest!: map_of_SomeD)

lemma lk_apply_ok: "omap_ok row \<Longrightarrow> omap_ok (lk_apply d row)"
  by (simp add: lk_apply_def split: option.split)

lemma lk_fold_ok: "omap_ok row \<Longrightarrow> omap_ok (fold lk_apply ws row)"
  by (induction ws arbitrary: row) (simp_all add: lk_apply_ok)

lemma map_of_lk_fold: "map_of (fold lk_apply ws row) = fold data_apply ws (map_of row)"
  by (induction ws arbitrary: row)
    (auto simp: lk_apply_def data_apply_def umap_simps split: option.split)

lemma fold_data_apply_frame: "key \<notin> wd_key ` set ws \<Longrightarrow> fold data_apply ws r key = r key"
  by (induction ws arbitrary: r) (simp_all add: data_apply_def)

lemma lk_write_row: "lk_row (fst (lk_write pid ws k)) pid' =
    (if pid' = pid then fold lk_apply ws (lk_row k pid) else lk_row k pid')"
  by (simp add: lk_write_def lk_row_def umap_simps)

lemma lk_scan_table:
  assumes "lk_inv k"
  shows "scan_of (lk_table k pid) b e (snd (lk_scan k pid b e None))"
proof (cases "map_of (lk_tables k) pid")
  case None
  then show ?thesis by (simp add: lk_scan_def scan_of_def lk_table_def lk_row_def)
next
  case (Some row)
  let ?f = "filter (\<lambda>p. b \<le> fst p \<and> fst p < e) (lk_row k pid)"
  have ok: "omap_ok (lk_row k pid)" by (rule lk_row_ok [OF assms])
  then have "sorted_wrt (\<lambda>p q. fst p < fst q) (lk_row k pid)" by (simp add: sorted_wrt_map)
  then have "sorted_wrt (<) (map fst ?f)" by (simp add: sorted_wrt_map sorted_wrt_filter)
  moreover have "map ke_key (snd (lk_scan k pid b e None)) = map fst ?f"
    using Some by (simp add: lk_scan_def kv_entry_of_def Let_def)
  moreover have "p \<in> set (lk_row k pid) \<longleftrightarrow> lk_table k pid (fst p) = Some (snd p)" for p
    using umap_mem_iff [OF omap_ok_distinct [OF ok], of "fst p" "snd p"] by (simp add: lk_table_def)
  then have "set (snd (lk_scan k pid b e None)) =
      {kv_entry_of key x |key x. lk_table k pid key = Some x \<and> b \<le> key \<and> key < e}"
    using Some by (force simp: lk_scan_def Let_def)
  ultimately show ?thesis by (simp only: scan_of_def)
qed

lemma map_of_filter_key: "map_of (filter (\<lambda>p. fst p \<noteq> a) m) = (map_of m)(a := None)"
  by (induction m) auto

interpretation lk: healthy_kv "lk_env h" lk_inv lk_table for h
proof unfold_locales
  fix k pid ws k' pid' key v b e es err x and h :: "string \<Rightarrow> u64"
  assume inv: "lk_inv k"
  note ok = lk_row_ok [OF inv]
  show "lk_inv (fst (kv_BatchWrite (le_kv (lk_env h)) pid ws k))"
    using inv lk_fold_ok [OF ok] by (auto simp: lk_write_def lk_inv_def dest!: set_omap_put_sub)
  show "lk_table k' = (lk_table k)(pid := fold data_apply ws (lk_table k pid))"
    if "kv_BatchWrite (le_kv (lk_env h)) pid ws k = (k', KvNoError)"
    using that lk_write_row [of pid ws k] by (auto simp: fun_eq_iff lk_table_def map_of_lk_fold)
  show "lk_table (fst (kv_BatchWrite (le_kv (lk_env h)) pid ws k)) pid' key = lk_table k pid' key"
    if "pid' \<noteq> pid \<or> key \<notin> wd_key ` set ws"
    using that fold_data_apply_frame [of key ws]
    by (auto simp: lk_table_def lk_write_row map_of_lk_fold)
  show "\<exists>ts. lk_table k pid key = Some (v, ts)"
    if "kv_Read (le_kv (lk_env h)) k pid key = (KvNoError, v)"
    using that by (auto simp: lk_read_def lk_table_def split: option.splits)
  show "lk_table k pid key = None" if "kv_Read (le_kv (lk_env h)) k pid key = (KvNotFound, v)"
    using that by (auto simp: lk_read_def lk_table_def split: option.splits)
  show "scan_of (lk_table k pid) b e es" if "kv_Scan (le_kv (lk_env h)) k pid b e None = (KvNoError, es)"
    using lk_scan_table [OF inv, of pid b e] that by simp
  show "scan_of (lk_table k pid) b e []" if "kv_Scan (le_kv (lk_env h)) k pid b e None = (KvNotFound, es)"
    using that by (auto simp: lk_scan_def scan_of_def lk_table_def lk_row_def Let_def split: if_splits)
  show "lk_inv (fs_remove_all (lk_env h) (partition_dir pid) k) \<and>
      lk_table (fs_remove_all (lk_env h) (partition_dir pid) k) = (lk_table k)(pid := Map.empty)"
  proof -
    have "map_of (filter (\<lambda>p. fst p \<noteq> pid) (lk_tables k)) = (map_of (lk_tables k))(pid := None)"
      by (rule map_of_filter_key)
    moreover have "sorted_wrt (<) (map fst (filter (\<lambda>p. fst p \<noteq> pid) (lk_tables k)))"
      using inv by (simp add: lk_inv_def sorted_wrt_map sorted_wrt_filter)
    ultimately show ?thesis using inv
      by (auto simp: lk_inv_def lk_table_def lk_row_def fun_eq_iff split: option.split)
  qed
  show "lk_table k pid = Map.empty" if "fs_is_empty (lk_env h) k (partition_dir pid)"
    using that by (auto simp: lk_table_def lk_row_def list_all_iff split: option.split dest!: map_of_SomeD)
  show "partition_dir pid \<in> set (fs_dirs (lk_env h) k)" if "lk_table k pid \<noteq> Map.empty"
    using that by (force simp: lk_table_def lk_row_def split: option.splits dest!: map_of_SomeD)
  show "lk_inv (fst (fs_write_meta (lk_env h) x k)) \<and> lk_table (fst (fs_write_meta (lk_env h) x k)) = lk_table k"
    using inv by (simp add: lk_inv_def lk_table_def [abs_def] lk_row_def)
next
  show "err \<noteq> KvNoError \<Longrightarrow> kv_ErrorString (le_kv (lk_env h)) err \<noteq> []" for err h
    by (simp add: lk_error_def)
qed (simp_all add: lk_write_def lk_read_def split: option.split)

text \<open>An adapter over two partitions of this store; the hash is the length of the routing seed.\<close>

definition lk_len :: "list_kv el_env" where
  "lk_len = lk_env (\<lambda>s. of_nat (length s))"

definition sample_config :: StoreAdapterConfig where
  "sample_config = default_StoreAdapterConfig\<lparr> sc_root_path := ''data'', sc_num_partitions := 2 \<rparr>"

definition sample_el :: "list_kv EloqStoreAdapter" where
  "sample_el = (new_EloqStoreAdapter lk_len sample_config 2 \<lparr> lk_tables = [], lk_meta = None \<rparr>)\<lparr> el_started := True \<rparr>"

lemma lk_len_laws: "kv_laws lk_len lk_inv lk_table"
  unfolding lk_len_def by (rule lk.kv_laws_axioms)

lemma sample_el_inv: "el_inv lk_len lk_inv lk_table sample_el"
  by (simp add: el_inv_def sample_el_def new_EloqStoreAdapter_def sample_config_def default_StoreAdapterConfig_def
      lk_inv_def placed_def lk_table_def lk_row_def)

definition sample_entry :: "string \<Rightarrow> string \<Rightarrow> WriteEntry" where
  "sample_entry key val = \<lparr> we_op = WUpsert,
     we_entry = \<lparr> kv_name_space = ''mem_docs'', kv_key = key, kv_value = val, kv_ts = 1 \<rparr> \<rparr>"

definition sample_batch :: "WriteEntry list" where
  "sample_batch = [sample_entry ''ws/w/doc/a'' ''x'', sample_entry ''ws/w/doc/bb'' ''y'', sample_entry ''ws/w/doc/a'' ''z'']"

lemma sample_batch_plain:
  "list_all (\<lambda>w. plain_ns (kv_name_space (we_entry w))) sample_batch" "plain_ns ''mem_docs''"
  by (simp_all add: sample_batch_def sample_entry_def plain_ns_def)

lemma lk_len_live: "reliable_writes (eloq_ops lk_len) (el_inv lk_len lk_inv lk_table) (el_view lk_len lk_table) plain_ns"
  unfolding lk_len_def by (rule lk.eloq.reliable_writes_axioms)

text \<open>Two documents in two partitions, the later key in the first one.\<close>

definition two_env :: "list_kv el_env" where
  "two_env = lk_env (\<lambda>s. if s = ''mem_docs|w:a'' then 1 else 0)"

definition two_kv :: list_kv where
  "two_kv = \<lparr> lk_tables = [(0, [(''mem_docs:ws/w/doc/b'', (''y'', 2))]), (1, [(''mem_docs:ws/w/doc/a'', (''x'', 1))])],
     lk_meta = None \<rparr>"

definition two_el :: "list_kv EloqStoreAdapter" where
  "two_el = sample_el\<lparr> el_store := two_kv \<rparr>"

lemma two_laws: "kv_laws two_env lk_inv lk_table"
  unfolding two_env_def by (rule lk.kv_laws_axioms)

lemma two_el_sel [simp]: "el_started two_el" "el_num_partitions two_el = 2" "el_store two_el = two_kv"
  by (simp_all add: two_el_def sample_el_def new_EloqStoreAdapter_def sample_config_def
      default_StoreAdapterConfig_def max_def word_le_nat_alt)

lemma two_routing:
  "ResolvePartitionId two_env np ''mem_docs'' ''ws/w/doc/b'' = ucast ((0 :: u64) mod ucast np)"
  "ResolvePartitionId two_env np ''mem_docs'' ''ws/w/doc/a'' = ucast ((1 :: u64) mod ucast np)"
  by (simp_all add: ResolvePartitionId_def two_env_def PartitionRoutingSeed_def RoutingShardKey_def WorkspacePrefix_def
      SuffixAfterLastColon_def before_first_def after_last_def Let_def)

lemma two_table:
  "lk_table two_kv pid full = (if pid = 0 \<and> full = ComposeKey ''mem_docs'' ''ws/w/doc/b'' then Some (''y'', 2)
     else if pid = 1 \<and> full = ComposeKey ''mem_docs'' ''ws/w/doc/a'' then Some (''x'', 1) else None)"
  by (auto simp: lk_table_def lk_row_def two_kv_def ComposeKey_def)

lemma lk_inv_two: "lk_inv two_kv"
  by (simp add: lk_inv_def two_kv_def)

lemma two_el_inv: "el_inv two_env lk_inv lk_table two_el"
proof -
  have "plain_ns ''mem_docs''" by (simp add: plain_ns_def)
  then have "placed two_env 2 (lk_table two_kv)"
    by (auto simp: placed_def two_table ComposeKey_iff two_routing split: if_splits)
  then show ?thesis by (simp add: el_inv_def lk_inv_two)
qed

lemma two_scan:
  "el_Scan two_env two_el ''mem_docs'' [] [] 0 =
    ([\<lparr> kv_name_space = ''mem_docs'', kv_key = ''ws/w/doc/a'', kv_value = ''x'', kv_ts = 1 \<rparr>,
      \<lparr> kv_name_space = ''mem_docs'', kv_key = ''ws/w/doc/b'', kv_value = ''y'', kv_ts = 2 \<rparr>], [])"
  by (simp add: el_Scan_def two_env_def lk_scan_def lk_row_def two_kv_def ComposeKey_def Let_def upt_rec
      less_char_def kv_entry_of_def scan_entries_def key_ts_less_def dedup_keys_def)

section \<open>Properties of the adapter\<close>

text \<open>
  C13. Over a store with the documented behaviour, reads through the adapter after a batch that
  succeeded are those of the abstract map, whatever the hash and the number of partitions:
  last write wins, deletes remove, and the entries of one key stay in one partition.
\<close>

theorem eloq_BatchWrite_refines:
  assumes "kv_laws E kinv table" and "el_inv E kinv table s"
    and "list_all (\<lambda>w. plain_ns (kv_name_space (we_entry w))) entries" and "plain_ns ns"
    and "el_BatchWrite E entries s = (s', res)" and "sr_ok res" and "gr_error (el_Get E s' ns key) = []"
  shows "el_inv E kinv table s' \<and>
    (case fold view_apply entries (el_view E table s) ns key of
       None \<Rightarrow> \<not> gr_found (el_Get E s' ns key)
     | Some (val, ts) \<Rightarrow> gr_found (el_Get E s' ns key) \<and> gr_value (el_Get E s' ns key) = val)"
proof -
  have inv: "el_inv E kinv table s'" using kv_laws.BatchWrite_keeps [OF assms(1-3)] assms(5) by (metis fst_conv)
  have "el_view E table s' = fold view_apply entries (el_view E table s)"
    by (rule kv_laws.BatchWrite_does [OF assms(1-3,5,6)])
  with kv_laws.Get_reads [OF assms(1) inv assms(4,7)] inv show ?thesis by (auto split: option.split)
qed

theorem eloq_BatchWrite_refines_witness:
  "\<exists>s' res. el_BatchWrite lk_len sample_batch sample_el = (s', res) \<and> sr_ok res \<and>
     gr_found (el_Get lk_len s' ''mem_docs'' ''ws/w/doc/a'') \<and>
     gr_value (el_Get lk_len s' ''mem_docs'' ''ws/w/doc/a'') = ''z''"
proof -
  obtain s' res where w: "el_BatchWrite lk_len sample_batch sample_el = (s', res)" by fastforce
  have ok: "sr_ok res" using reliable_writes.BatchWrite_ok [OF lk_len_live sample_el_inv, of sample_batch] w by simp
  have "el_inv lk_len lk_inv lk_table s'"
    using kv_laws.BatchWrite_keeps [OF lk_len_laws sample_el_inv sample_batch_plain(1)] w by (metis fst_conv)
  then have "gr_error (el_Get lk_len s' ''mem_docs'' ''ws/w/doc/a'') = []"
    using reliable_writes.Get_ok [OF lk_len_live] by simp
  from eloq_BatchWrite_refines [OF lk_len_laws sample_el_inv sample_batch_plain w ok this] w ok
  show ?thesis
    by (simp add: sample_batch_def sample_entry_def view_apply_def view_put_def)
qed

text \<open>
  C14. A scan without a limit that succeeds returns the entries of the name space in the key
  range, merged from all partitions, each once and in key order.
\<close>

theorem eloq_Scan_exact:
  assumes "kv_laws E kinv table" and "el_inv E kinv table s" and "plain_ns ns"
    and "el_Scan E s ns b e 0 = (out, [])"
  shows "scan_spec (el_view E table s) ns b e 0 out"
  by (rule kv_laws.Scan_lists [OF assms])

theorem eloq_Scan_exact_witness:
  "scan_spec (el_view two_env lk_table two_el) ''mem_docs'' [] [] 0
     [\<lparr> kv_name_space = ''mem_docs'', kv_key = ''ws/w/doc/a'', kv_value = ''x'', kv_ts = 1 \<rparr>,
      \<lparr> kv_name_space = ''mem_docs'', kv_key = ''ws/w/doc/b'', kv_value = ''y'', kv_ts = 2 \<rparr>]"
  by (rule eloq_Scan_exact [OF two_laws two_el_inv _ two_scan]) (simp add: plain_ns_def)


lemma two_held:
  "unique_home (lk_table two_kv)" "known_keys (lk_table two_kv)"
  by (auto simp: unique_home_def known_keys_def two_table kNamespaces_def split: if_splits)

lemma two_rehash:
  "RehashStoredEntries two_env 1 [0, 1] two_kv =
    (\<lparr> lk_tables = [(0, [(''mem_docs:ws/w/doc/a'', (''x'', 1)), (''mem_docs:ws/w/doc/b'', (''y'', 2))])],
       lk_meta = None \<rparr>, None)"
  by (simp add: RehashStoredEntries_def kNamespaces_def rehash_namespace_def two_kv_def lk_scan_def lk_row_def
      two_env_def less_char_def kv_entry_of_def Let_def target_of_def ResolvePartitionId_def add_move_def move_of_def
      lk_write_def lk_apply_def data_result_def CleanupOutdatedPartitionDirs_def CleanupEmptyPartitionDirs_def)


lemma Create_ok:
  assumes "kv_laws E kinv table" and "kinv k" and "unique_home (table k)" and "known_keys (table k)"
    and "sc_root_path config \<noteq> []"
    and "layout_truthful E table (new_EloqStoreAdapter E config amp (fst (kv_Start (le_kv E) (fs_remove_legacy_marker E k))))"
    and "CreateEloqStoreAdapter E config amp k = Inr s" and "plain_ns ns"
  shows "el_inv E kinv table s \<and>
    (el_view E table s ns key = Some x \<longleftrightarrow> (\<exists>pid. table k pid (ComposeKey ns key) = Some x))"
proof -
  let ?s = "new_EloqStoreAdapter E config amp k"
  have "el_Start E ?s = (s, None)"
    using assms(7) by (auto simp: CreateEloqStoreAdapter_def split: prod.splits option.splits)
  moreover have "0 < el_num_partitions ?s"
    by (simp add: new_EloqStoreAdapter_def max_def word_le_nat_alt word_less_nat_alt)
  ultimately show ?thesis
    using kv_laws.Start_ok [OF assms(1), of ?s s ns key x] assms(2-6,8)
    by (simp add: new_EloqStoreAdapter_def held_def)
qed

text \<open>
  A start that succeeds on a store whose layout file tells the truth gives an adapter that
  keeps its contract and shows exactly the entries that the store held before, wherever they
  were: a change of the number of partitions changes nothing for the callers.
\<close>

lemma CreateEloqStoreAdapter_shows:
  assumes "kv_laws E kinv table" and "kinv k" and "unique_home (table k)" and "known_keys (table k)"
    and "sc_root_path config \<noteq> []"
    and "layout_truthful E table (new_EloqStoreAdapter E config amp (fst (kv_Start (le_kv E) (fs_remove_legacy_marker E k))))"
    and "CreateEloqStoreAdapter E config amp k = Inr s" and "plain_ns ns"
  shows "el_inv E kinv table s \<and>
    (el_view E table s ns key = Some x \<longleftrightarrow> (\<exists>pid. table k pid (ComposeKey ns key) = Some x))"
  by (rule Create_ok [OF assms])

definition one_config :: StoreAdapterConfig where
  "one_config = sample_config\<lparr> sc_num_partitions := 1 \<rparr>"

abbreviation one_new :: "list_kv EloqStoreAdapter" where
  "one_new \<equiv> new_EloqStoreAdapter two_env one_config 2 two_kv"

lemma one_sel [simp]:
  "el_num_partitions one_new = 1" "el_store one_new = two_kv" "el_root_path one_new = ''data''"
  by (simp_all add: new_EloqStoreAdapter_def one_config_def sample_config_def default_StoreAdapterConfig_def)

lemma one_partitions: "DetectExistingPartitions two_env s = [0, 1]"
  if "el_root_path s \<noteq> []" "el_store s = two_kv"
  using that by (simp add: DetectExistingPartitions_def two_env_def two_kv_def map_filter_def)

lemma one_needs: "needs_rehash 1 (LoadLayoutMeta two_env two_kv) [0, 1]"
  by (simp add: needs_rehash_def LoadLayoutMeta_def two_env_def two_kv_def)

lemma one_start: "\<exists>s. CreateEloqStoreAdapter two_env one_config 2 two_kv = Inr s"
proof -
  have "kv_Start (le_kv two_env) (fs_remove_legacy_marker two_env two_kv) = (two_kv, KvNoError)"
    "\<And>k. snd (PersistLayoutMeta two_env 1 k) = None"
    by (simp_all add: two_env_def PersistLayoutMeta_def)
  then show ?thesis
    by (simp add: CreateEloqStoreAdapter_def el_Start_def RefreshLayoutOnStartup_def one_partitions one_needs
        two_rehash case_prod_beta Let_def)
qed

theorem CreateEloqStoreAdapter_shows_witness:
  "\<exists>s. CreateEloqStoreAdapter two_env one_config 2 two_kv = Inr s \<and>
     el_view two_env lk_table s ''mem_docs'' ''ws/w/doc/a'' = Some (''x'', 1)"
proof -
  obtain s where s: "CreateEloqStoreAdapter two_env one_config 2 two_kv = Inr s" using one_start by blast
  have k: "fst (kv_Start (le_kv two_env) (fs_remove_legacy_marker two_env two_kv)) = two_kv" by (simp add: two_env_def)
  have "sc_root_path one_config \<noteq> []" by (simp add: one_config_def sample_config_def)
  moreover have "layout_truthful two_env lk_table one_new"
    by (simp add: layout_truthful_def one_partitions one_needs)
  ultimately show ?thesis
    using CreateEloqStoreAdapter_shows [OF two_laws lk_inv_two two_held _ _ s, of "''mem_docs''" "''ws/w/doc/a''" "(''x'', 1)"] s
    by (auto simp: k plain_ns_def two_table)
qed

section \<open>Usage counters\<close>

definition counted :: "'k EloqStoreAdapter \<Rightarrow> bool" where
  "counted s \<longleftrightarrow> umap_ok (el_key_size_bytes s) \<and>
     el_approx_item_count s = of_nat (length (el_key_size_bytes s)) \<and>
     el_approx_mem_used_bytes s = umap_sum snd (el_key_size_bytes s)"

datatype el_call = CallPut string string string u64 | CallDelete string string u64 | CallBatch "WriteEntry list"
  | CallTrigger | CallCompactWorker u32

definition el_step :: "'k el_env \<Rightarrow> el_call \<Rightarrow> 'k EloqStoreAdapter \<Rightarrow> 'k EloqStoreAdapter" where
  "el_step E c s =
     (case c of
        CallPut ns key val ts \<Rightarrow> fst (el_Put E ns key val ts s)
      | CallDelete ns key ts \<Rightarrow> fst (el_Delete E ns key ts s)
      | CallBatch entries \<Rightarrow> fst (el_BatchWrite E entries s)
      | CallTrigger \<Rightarrow> fst (el_TriggerStoreCompactAsync s)
      | CallCompactWorker n \<Rightarrow> RunCompactWorker E n s)"

lemma counted_frame [simp]:
  "counted (s\<lparr> el_store := k \<rparr>) = counted s" "counted (s\<lparr> el_compact_running := b \<rparr>) = counted s"
  "counted (s\<lparr> el_compact_job_id := j \<rparr>) = counted s"
  by (simp_all add: counted_def)

lemma counted_OnUpsert: "counted s \<Longrightarrow> counted (OnUpsertCommitted key n s)"
  using umap_sum_put [of "el_key_size_bytes s" snd key "of_nat n"] length_umap_put [of "el_key_size_bytes s" key "of_nat n :: u64"]
  by (cases "map_of (el_key_size_bytes s) key")
    (auto simp: counted_def OnUpsertCommitted_def Let_def algebra_simps simp del: map_of_eq_Some_iff)

lemma counted_OnDelete: "counted s \<Longrightarrow> counted (OnDeleteCommitted key s)"
  using umap_sum_erase [of "el_key_size_bytes s" snd key] umap_sum_erase [of "el_key_size_bytes s" "\<lambda>_. 1 :: u64" key]
  by (cases "map_of (el_key_size_bytes s) key")
    (auto simp: counted_def OnDeleteCommitted_def sum_list_triv algebra_simps simp del: map_of_eq_Some_iff)

lemma counted_fold: "counted s \<Longrightarrow> counted (fold committed_entry ds s)"
  by (induction ds arbitrary: s) (simp_all add: committed_entry_def counted_OnUpsert counted_OnDelete)

lemma counted_step: "counted s \<Longrightarrow> counted (el_step E c s)"
  by (cases c)
    (auto simp: el_step_def el_Put_def el_Delete_def el_BatchWrite_def el_TriggerStoreCompactAsync_def
      RunCompactWorker_def Let_def counted_OnUpsert counted_OnDelete counted_fold case_prod_beta
      split: option.split)



section \<open>The layout file\<close>

text \<open>
  C16. The layout file is read back as it was written, so a start with the same number of
  partitions moves nothing unless a directory of a partition beyond that number exists.
\<close>

theorem layout_roundtrip:
  assumes "0 < np" and "fs_read_meta E k = Some (layout_text np)"
  shows "LoadLayoutMeta E k = Some \<lparr> lm_partition_count = np, lm_routing_schema = kRoutingSchema \<rparr> \<and>
    (needs_rehash np (LoadLayoutMeta E k) pids \<longleftrightarrow> pids \<noteq> [] \<and> np \<le> last pids)"
  using LoadLayoutMeta_written [OF assms] by (simp add: needs_rehash_def)

theorem layout_roundtrip_witness:
  "LoadLayoutMeta two_env (fst (PersistLayoutMeta two_env 64 two_kv)) =
     Some \<lparr> lm_partition_count = 64, lm_routing_schema = kRoutingSchema \<rparr>"
  using layout_roundtrip [of 64 two_env "fst (PersistLayoutMeta two_env 64 two_kv)"]
  by (simp add: two_env_def PersistLayoutMeta_def)

section \<open>The memory engine over the adapter\<close>

lemma same_view_same_Get:
  assumes "reliable_writes (eloq_ops E) sinv (el_view E table) nsok" and "nsok ns" and "sinv s1" and "sinv s2"
    and "gr_found (el_Get E s1 ns key)" and "\<And>x. el_view E table s1 ns key = Some x \<Longrightarrow> el_view E table s2 ns key = Some x"
  shows "el_Get E s2 ns key = el_Get E s1 ns key"
proof -
  note live = assms(1)
  have g: "gr_error (el_Get E s1 ns key) = []" "gr_error (el_Get E s2 ns key) = []"
    using reliable_writes.Get_ok [OF live assms(3)] reliable_writes.Get_ok [OF live assms(4)] by simp_all
  note st = reliable_writes.axioms(1) [OF live]
  from store_adapter.Get_view [OF st assms(2,3), of key] g(1) assms(5)
  obtain ts where v1: "el_view E table s1 ns key = Some (gr_value (el_Get E s1 ns key), ts)" by auto
  from store_adapter.Get_view [OF st assms(2,4), of key] g(2) assms(6) [OF v1]
  have "gr_found (el_Get E s2 ns key)" "gr_value (el_Get E s2 ns key) = gr_value (el_Get E s1 ns key)" by auto
  with g assms(5) show ?thesis by simp
qed


text \<open>An instance: all keys go to the second of two partitions, and the restart has one partition.\<close>

definition end_env :: "list_kv el_env" where
  "end_env = lk_env (\<lambda>_. 1)"

lemma lk_write_moves: "snd (write_moves (lk_env h) ns ups k) = None"
  by (induction ups arbitrary: k) (auto simp: lk_write_def)

lemma lk_rehash_loop: "snd (rehash_loop (lk_env h) np work k) = None"
proof (induction work arbitrary: k)
  case (Cons p work)
  obtain pid ns where p: "p = (pid, ns)" by (cases p)
  have "snd (rehash_namespace (lk_env h) np pid ns k) = None"
    using lk_write_moves [of h ns]
    by (auto simp: rehash_namespace_def lk_scan_def lk_write_def Let_def case_prod_beta split: option.split)
  then show ?case using Cons.IH by (cases "rehash_namespace (lk_env h) np pid ns k") (simp add: p)
qed simp

lemma lk_Create: "\<exists>s. CreateEloqStoreAdapter (lk_env h) config amp k = Inr s"
proof -
  have "snd (RehashStoredEntries (lk_env h) np pids k) = None" for np pids k
    using lk_rehash_loop [of h np "List.product pids kNamespaces" k]
    by (cases "rehash_loop (lk_env h) np (List.product pids kNamespaces) k") (simp add: RehashStoredEntries_def)
  then have "snd (RefreshLayoutOnStartup (lk_env h) s) = None" for s
    by (simp add: RefreshLayoutOnStartup_def PersistLayoutMeta_def Let_def case_prod_beta)
  then show ?thesis
    by (simp add: CreateEloqStoreAdapter_def el_Start_def Let_def case_prod_beta split: option.split)
qed

lemma sample_el_known: "el_known end_env lk_inv lk_table sample_el"
  by (simp add: el_known_def el_inv_def sample_el_def new_EloqStoreAdapter_def sample_config_def
      default_StoreAdapterConfig_def lk_inv_def placed_def known_keys_def lk_table_def lk_row_def)

lemma end_live: "healthy_kv end_env lk_inv lk_table"
  unfolding end_env_def by (rule lk.healthy_kv_axioms)

lemma sorted_last_ge: "x \<in> set xs \<Longrightarrow> sorted xs \<Longrightarrow> x \<le> last xs"
  by (induction xs) auto

lemma one_partition_truthful:
  assumes "kv_laws E kinv table" "kinv (el_store s)" "el_root_path s \<noteq> []" "el_num_partitions s = 1"
  shows "layout_truthful E table s"
  unfolding layout_truthful_def
proof
  let ?pids = "DetectExistingPartitions E s"
  assume none: "\<not> needs_rehash (el_num_partitions s) (LoadLayoutMeta E (el_store s)) ?pids"
  have zero: "pid = 0" if "table (el_store s) pid \<noteq> Map.empty" for pid
  proof -
    have mem: "pid \<in> set ?pids"
      using kv_laws.dirs [OF assms(1,2) that] Detect_complete [OF assms(3)] by blast
    moreover have "sorted ?pids" by (simp add: DetectExistingPartitions_def)
    ultimately have "pid \<le> last ?pids" by (rule sorted_last_ge)
    moreover have "last ?pids < 1" using none mem assms(4) by (auto simp: needs_rehash_def not_le)
    ultimately have "pid < 1" by (rule order_le_less_trans)
    then show ?thesis by (simp add: word_less_nat_alt unat_eq_0)
  qed
  have "pid = 0" if "table (el_store s) pid key = Some x" for pid key x
    by (rule zero) (use that in auto)
  then show "placed E (el_num_partitions s) (table (el_store s))"
    by (auto simp: placed_def assms(4) ResolvePartitionId_def)
qed


lemma dec_string_0 [simp]: "dec_string 0 = ''0''"
  by code_simp

lemma gap_missing: "IsMissingScanNamespaceError ''scan partition 0 failed: Resource not found''"
  by code_simp

text \<open>
  C15. A scan gives up at the first partition that was never written, and the engine takes
  that error for an empty name space: when partition 0 does not exist, the warm-up reports
  success and loads no document and no event, whatever the other partitions hold.
\<close>

theorem Warmup_misses_partitions:
  fixes V :: "('k EloqStoreAdapter, 'r, 'j) engine_env"
  assumes "ev_store V = eloq_ops E" and "el_started (e_store e)" and "0 < el_num_partitions (e_store e)"
    and "\<And>b t. fst (kv_Scan (le_kv E) (el_store (e_store e)) 0 b t None) = KvNotFound"
    and "IsMissingScanNamespaceError (''scan partition 0 failed: '' @ kv_ErrorString (le_kv E) KvNotFound)"
  shows "engine_Warmup V e = map_option (\<lambda>e. (None, e)) (EnforceResidentHardLimit V None e)"
proof -
  obtain n where n: "unat (el_num_partitions (e_store e)) = Suc n"
    using assms(3) by (cases "unat (el_num_partitions (e_store e))") (auto simp: word_gt_0 unat_eq_0)
  have "scan_partitions E (el_store (e_store e)) ns b t 0 [0..<Suc n] [] =
      ([], Some (''scan partition 0 failed: '' @ kv_ErrorString (le_kv E) KvNotFound))" for ns b t
    using assms(4) [of b t] by (simp add: upt_rec [of 0] case_prod_beta)
  then have "so_Scan (ev_store V) (e_store e) ns [] [] 0 =
      ([], ''scan partition 0 failed: '' @ kv_ErrorString (le_kv E) KvNotFound)" for ns
    using assms(1,2) n by (simp add: el_Scan_def Let_def)
  then have "scan_namespace V ns e = Inr []" for ns
    using assms(5) by (simp add: scan_namespace_def)
  then show ?thesis by (simp add: engine_Warmup_def ReplayProjectionEvents_def)
qed

definition gap_el :: "list_kv EloqStoreAdapter" where
  "gap_el = sample_el\<lparr> el_store := \<lparr> lk_tables = [(1, [(''mem_docs:ws/w/doc/a'', (''x'', 1))])], lk_meta = None \<rparr> \<rparr>"

theorem Warmup_misses_partitions_witness:
  "engine_Warmup (sample_env_on (eloq_ops two_env)) (sample_engine_on gap_el) =
     map_option (\<lambda>e. (None, e)) (EnforceResidentHardLimit (sample_env_on (eloq_ops two_env)) None (sample_engine_on gap_el)) \<and>
   gr_found (el_Get two_env gap_el ''mem_docs'' ''ws/w/doc/a'') \<and> e_records (sample_engine_on gap_el) = []"
proof
  have np: "el_num_partitions gap_el = 2" "el_started gap_el"
    by (simp_all add: gap_el_def sample_el_def new_EloqStoreAdapter_def sample_config_def default_StoreAdapterConfig_def
        max_def word_le_nat_alt)
  show "engine_Warmup (sample_env_on (eloq_ops two_env)) (sample_engine_on gap_el) =
     map_option (\<lambda>e. (None, e)) (EnforceResidentHardLimit (sample_env_on (eloq_ops two_env)) None (sample_engine_on gap_el))"
    by (rule Warmup_misses_partitions [of _ two_env])
      (simp_all add: sample_env_on_def new_MemoryEngine_def np two_env_def lk_scan_def gap_missing lk_error_def,
       simp_all add: gap_el_def)
  show "gr_found (el_Get two_env gap_el ''mem_docs'' ''ws/w/doc/a'') \<and> e_records (sample_engine_on gap_el) = []"
    using two_routing(2) [of 2]
    by (simp add: el_Get_def np two_env_def [symmetric]) (simp add: gap_el_def two_env_def lk_read_def lk_row_def
        ComposeKey_def new_MemoryEngine_def)
qed

end
