(* ===== verification/Mcp_Properties.thy ===== *)
theory Mcp_Properties
  imports Mcp_Contract Eloq_Properties
begin

text \<open>
  The claims about the dispatcher: every request is answered, results have the described
  shape, requests and hits survive the encoding, and what a \<open>memory.write\<close> answers as stored
  is found after a restart.
\<close>

lemma sample_env_json [simp]: "ev_json sample_env = pt_api"
  by (simp add: sample_env_def sample_env_on_def)

lemma sample_json_laws: "json_laws (ev_json sample_env) (\<lambda>x. real (nat \<lfloor>x\<rfloor>)) (\<lambda>_. True)"
  unfolding sample_env_json by (rule pt.json_laws_axioms)

lemma sample_Handle:
  "resident_ok sample_env e \<Longrightarrow> \<exists>response e'. Handle sample_env request e = Some (response, e') \<and>
     resident_ok sample_env e' \<and> answers pt_api request response"
  by (rule Handle_returns [OF sample_json_laws, unfolded sample_env_hybrid, unfolded sample_env_json])

section \<open>Properties\<close>



text \<open>
  C20. The results are of the described shape: whatever the request, the result of a described
  method has every key that the output schema of this method requires.
\<close>

theorem results_conform:
  assumes "json_laws (ev_json V) rnd readable" and "(m, method) \<in> set (described_methods (ev_json V) ex)"
    and "GetStringOr (ev_json V) request ''method'' '''' = m" and "Handle V request e = Some (response, e')"
  shows "\<exists>result. j_get_child (ev_json V) response ''result'' = Some result \<and>
    list_all (\<lambda>k. j_get_child (ev_json V) result k \<noteq> None) (output_required (ev_json V) method) \<and>
    output_required (ev_json V) method \<noteq> []"
proof -
  let ?params = "value_or (j_get_child (ev_json V) request ''params'') (j_empty (ev_json V))"
  have "m \<in> set handled_methods" and ns: "m \<noteq> ''store.compact''"
    using assms(2) by (auto simp: described_methods_def handled_methods_def)
  then obtain h where h: "handler_for V ?params m = Some h" using handler_for_dom [of V ?params m] by auto
  with Handle_result [OF _ _ assms(4,1)] ns assms(3) obtain result where
    r: "h e = Some (result, e')" "j_get_child (ev_json V) response ''result'' = Some result" by auto
  have "output_required (ev_json V) method \<noteq> []"
    using assms(2) by (auto simp: described_methods_def json_laws.methods_required [OF assms(1)]
        describe_required_def write_required_def stats_required_def compact_required_def)
  with r json_laws.handler_conforms [OF assms(1) refl assms(2) h r(1)] show ?thesis by blast
qed

theorem results_conform_witness:
  "\<exists>response e' result. Handle sample_env (example_request pt_api ''memory.stats'' (j_empty pt_api)) sample_engine =
     Some (response, e') \<and> j_get_child pt_api response ''result'' = Some result \<and>
     list_all (\<lambda>k. j_get_child pt_api result k \<noteq> None) stats_required"
proof -
  let ?req = "example_request pt_api ''memory.stats'' (j_empty pt_api)"
  obtain response e' where r: "Handle sample_env ?req sample_engine = Some (response, e')"
    using sample_Handle [OF sample_engine_ok] by blast
  have "(''memory.stats'', BuildStatsMethod pt_api False) \<in> set (described_methods (ev_json sample_env) False)"
    by (simp add: described_methods_def)
  from results_conform [OF sample_json_laws this _ r] r show ?thesis
    by (auto simp: pt.example_request_reads pt.methods_required)
qed

text \<open>
  A \<open>memory.write\<close> request written as the schema describes is decoded to the very input
  (real numbers up to their printed precision), provided that metadata keys are without dots.
\<close>

lemma write_request_roundtrip:
  assumes "json_laws J rnd readable"
    and "list_all (\<lambda>r. list_all plain_key (map fst (wr_metadata r)) \<and> omap_ok (wr_metadata r)) (wi_records input)"
  shows "read_write_input J (write_request J input) = as_printed rnd input"
  by (rule json_laws.read_write_request [OF assms])

theorem write_request_roundtrip_witness:
  "read_write_input pt_api (write_request pt_api (sample_write ''w'' ''x'')) = sample_write ''w'' ''x''"
  using write_request_roundtrip [OF pt.json_laws_axioms, of "sample_write ''w'' ''x''"]
  by (simp add: sample_write_def as_printed_def)


lemma sample_engine_synced: "synced sample_env hybrid_inv ret_records sample_engine"
  unfolding sample_engine_def
  by (rule hyb.synced_new [where V = sample_env, unfolded sample_env_hybrid]) (simp_all add: hybrid_inv_init ret_records_init)

text \<open>An engine that holds one record in memory.\<close>

definition sample_indexed :: "(InMemoryStoreAdapter, LshVectorIndex HybridRetriever) MemoryEngine" where
  "sample_indexed = UpsertRecordInMemory sample_env
     (default_MemoryRecord\<lparr> r_id := ''m1'', r_workspace_id := ''w'', r_content := ''epoll'',
        r_metadata := [(''lang'', ''cpp'')] \<rparr>) sample_engine"






end
