(* ===== verification/Service_Properties.thy ===== *)
theory Service_Properties
  imports Service_Routes Summary Mcp_Properties
begin

text \<open>
  The claims about the service around the dispatcher: the daemon starts and answers every
  call, refuses them before it is ready, escapes and types its JSON as a client reads it, how
  far the body of a parsed HTTP request reaches, and what the unit of the installer does.
\<close>

section \<open>A concrete service\<close>

definition ping_api :: rapid_api where
  "ping_api =
     \<lparr> rj_parse = (\<lambda>s. if s = ''ping'' then Some (RObject [(''jsonrpc'', RString ''2.0''), (''id'', RInt 7), (''method'', RString ''ping'')])
                      else None),
       rj_write = (\<lambda>_. ''{}''), rj_strtod = (\<lambda>_. None), rj_format = (\<lambda>_. ''0'') \<rparr>"

definition sample_surroundings :: "list_kv surroundings" where
  "sample_surroundings =
     \<lparr> su_with_eloqstore = False, su_uring_queue_init = - 1, su_strerror = (\<lambda>_. ''no''), su_mem = sample_mem_env,
       su_eloq = two_env, su_file_amplify_factor = 2, su_disk = \<lparr> lk_tables = [], lk_meta = None \<rparr>,
       su_brpc_start = (\<lambda>_ _. None),
       su_flags = \<lparr> fl_bthread_concurrency = 9, fl_event_dispatcher_num = 1, fl_use_io_uring = False \<rparr> \<rparr>"

definition health_call :: brpc_call where
  "health_call = \<lparr> bc_method = None, bc_path = ''/health'', bc_query = '''', bc_headers = [], bc_attachment = '''' \<rparr>"

definition mcp_call :: "string \<Rightarrow> brpc_call" where
  "mcp_call body = \<lparr> bc_method = Some ''POST'', bc_path = ''/mcp'', bc_query = '''', bc_headers = [], bc_attachment = body \<rparr>"

lemma sample_warm:
  "\<exists>e. engine_Warmup (service_env sample_env sample_surroundings) (fresh_engine (InMemory CreateInMemoryStoreAdapter) hash n opts) =
     Some (None, e)"
proof -
  let ?V = "service_env sample_env sample_surroundings" and ?e = "fresh_engine (InMemory CreateInMemoryStoreAdapter) hash n opts"
  have "scan_namespace ?V ns ?e = Inr []" for ns
    by (simp add: scan_namespace_def service_env_def new_MemoryEngine_def mem_Scan_def
        CreateInMemoryStoreAdapter_def shard_scan_def)
  then have "engine_Warmup ?V ?e = map_option (\<lambda>e. (None, e)) (EnforceResidentHardLimit ?V None ?e)"
    by (simp add: engine_Warmup_def ReplayProjectionEvents_def)
  moreover have "\<exists>e'. EnforceResidentHardLimit ?V None ?e = Some e'"
    using hyb.acct.I_Enforce [OF hyb.resident_ok_new, of ?V None "InMemory CreateInMemoryStoreAdapter"
        "CreateHybridRetriever hash" n opts]
    unfolding service_env_hybrid by blast
  ultimately show ?thesis by auto
qed

section \<open>Properties\<close>



text \<open>
  Until the warm-up has ended no call reaches the engine: whatever calls come, each is
  answered 503, or 404 off the routes, and the state stays as it is.
\<close>

lemma not_ready_refuses:
  "\<exists>resps. serve_calls (with_routes V P (new_HttpServer host port num_threads)) calls \<lparr> sv_ready = False, sv_engine = e \<rparr> =
     Some (resps, \<lparr> sv_ready = False, sv_engine = e \<rparr>) \<and>
   list_all2 (\<lambda>c resp. rs_status_code resp =
     (if route_of (request_of_call c) \<in> {''GET /health'', ''GET /mcp/describe'', ''POST /mcp''} then 503 else 404)) calls resps"
proof -
  obtain resps where "serve_calls (with_routes V P (new_HttpServer host port num_threads)) calls \<lparr> sv_ready = False, sv_engine = e \<rparr> =
      Some (resps, \<lparr> sv_ready = False, sv_engine = e \<rparr>)" "list_all2 (\<lambda>c. refused (request_of_call c)) calls resps"
    using unready.calls_answered [OF with_routes_new refl, of V P host port num_threads calls e] by blast
  then show ?thesis unfolding refused_def by (intro exI conjI)
qed


text \<open>
  C28. What the daemon quotes is a JSON string: it has no raw control byte, and a reader that
  resolves its escapes gets the text back and continues right after the closing quote.
\<close>

theorem JsonQuote_reads:
  "hd (JsonQuote s) = CHR 0x22 \<and> read_string (tl (JsonQuote s) @ rest) = Some (s, rest) \<and>
   list_all (\<lambda>c. 32 \<le> byte c) (JsonQuote s)"
proof -
  have "list_all (\<lambda>n. 32 \<le> byte (hex_digit n)) [0..<16]" by code_simp
  then have hex: "n < 16 \<Longrightarrow> 32 \<le> byte (hex_digit n)" for n by (simp add: list_all_iff)
  have "byte c div 16 < 16" for c by (simp add: less_mult_imp_div_less)
  then have "list_all (\<lambda>c. 32 \<le> byte c) (escape_char c)" for c by (simp add: escape_char_def hex)
  then have "list_all (\<lambda>c. 32 \<le> byte c) (JsonEscape s)" by (induction s) (simp_all add: JsonEscape_def)
  then show ?thesis by (simp add: JsonQuote_def read_JsonEscape)
qed

text \<open>
  C24. The property tree loses the types of scalars, and the daemon gives them back: a required
  member of a described result that the schema calls a boolean, an integer or a number comes
  as one in the JSON-RPC answer.  An integer from 2^63 on, as unsigned counters may reach,
  stays a string.
\<close>

theorem normalised_types:
  assumes "json_laws J rnd readable" and "(m, method) \<in> set (described_methods J ex)"
    and "k \<in> set (output_required J method)" and "output_type J method k = Some t"
    and "t \<in> {''boolean'', ''integer'', ''number''}" and "rj_member k result = Some (RString s)"
  shows "\<exists>v. rj_member k (NormalizeResultByMethod P m result) = Some v \<and>
    (t = ''boolean'' \<and> s = bool_string b \<longrightarrow> v = RBool b) \<and>
    (t = ''integer'' \<and> s = int_string n \<longrightarrow> v = (if - (2 ^ 63) \<le> n \<and> n < 2 ^ 63 then RInt n else RString s)) \<and>
    (t = ''number'' \<and> rj_strtod P (c_str s) = Some (x, []) \<longrightarrow> v = RDouble x)"
proof -
  have t: "t \<in> set scalar_types" using assms(5) by (simp add: scalar_types_def)
  have "typed P ''number'' (RString s) = RDouble x" if "rj_strtod P (c_str s) = Some (x, [])"
    using that by (simp add: typed_simps ConvertValueToDoubleIfString_def ParseDoubleLiteral_def)
  then show ?thesis
    using json_laws.required_converted [OF assms(1-4) t assms(6), of P] typed_printed [of P] by auto
qed

theorem normalised_types_witness:
  "rj_member ''item_count'' (NormalizeResultByMethod ping_api ''memory.stats'' (RObject [(''item_count'', RString (int_string 12))])) =
     Some (RInt 12) \<and>
   rj_member ''item_count'' (NormalizeResultByMethod ping_api ''memory.stats''
     (RObject [(''item_count'', RString (int_string 18446744073709551615))])) =
     Some (RString (int_string 18446744073709551615)) \<and>
   rj_member ''capacity_blocked'' (NormalizeResultByMethod ping_api ''memory.stats''
     (RObject [(''capacity_blocked'', RString (bool_string True))])) = Some (RBool True)"
proof -
  note laws = pt.json_laws_axioms
  have m: "(''memory.stats'', BuildStatsMethod pt_api False) \<in> set (described_methods pt_api False)"
    by (simp add: described_methods_def)
  have k: "''item_count'' \<in> set (output_required pt_api (BuildStatsMethod pt_api False))"
    "''capacity_blocked'' \<in> set (output_required pt_api (BuildStatsMethod pt_api False))"
    by (simp_all add: pt.methods_required stats_required_def)
  have t: "output_type pt_api (BuildStatsMethod pt_api False) ''item_count'' = Some ''integer''"
    "output_type pt_api (BuildStatsMethod pt_api False) ''capacity_blocked'' = Some ''boolean''"
    using pt.stats_types by (simp_all add: stats_table_def)
  have "rj_member ''item_count'' (NormalizeResultByMethod ping_api ''memory.stats'' (RObject [(''item_count'', RString (int_string n))])) =
      Some (if - (2 ^ 63) \<le> n \<and> n < 2 ^ 63 then RInt n else RString (int_string n))" for n
    using normalised_types [OF laws m k(1) t(1), of "RObject [(''item_count'', RString (int_string n))]" "int_string n" ping_api undefined n]
    by (simp add: rj_member_def)
  moreover have "rj_member ''capacity_blocked'' (NormalizeResultByMethod ping_api ''memory.stats''
      (RObject [(''capacity_blocked'', RString (bool_string True))])) = Some (RBool True)"
    using normalised_types [OF laws m k(2) t(2), of "RObject [(''capacity_blocked'', RString (bool_string True))]" "bool_string True"
        ping_api True] by (simp add: rj_member_def)
  ultimately show ?thesis by simp
qed

text \<open>
  C25. The daemon refuses the command line that the installer puts into its systemd unit: the
  unit starts it with flags it no longer knows, so a service installed this way exits with
  code 2 at once, whatever the options of the installer.
\<close>

theorem installed_unit_rejected:
  assumes "word_ok (io_pgmemd_bin options)"
  shows "(\<exists>before after. unit_text fmt options store_root = before @ ''ExecStart='' @ exec_line fmt options store_root @ CHR 0x0A # after) \<and>
    pgmemd_main V P S dflt (tl (split_words (exec_line fmt options store_root))) =
      Some (Inl (2, ''[pgmemd] invalid arguments: unknown argument: --gc-high-watermark; allowed flags: '' @ AllowedPgmemdFlags))"
proof -
  have line: "\<exists>before after. concat (map (\<lambda>l. l @ [CHR 0x0A]) ls) = before @ l @ CHR 0x0A # after" if "l \<in> set ls" for l ls
    using split_list [OF that] by force
  have "\<exists>before after. unit_text fmt options store_root =
      before @ (''ExecStart='' @ exec_line fmt options store_root) @ CHR 0x0A # after"
    unfolding unit_text_def by (rule line) simp
  moreover obtain more where words: "tl (split_words (exec_line fmt options store_root)) =
    [''--host'', ''0.0.0.0'', ''--port'', ''8765'', ''--store-backend'', ''eloqstore'',
     ''--core-number'', int_string (io_core_number options), ''--mem-budget-mb'', ''512'', ''--disk-budget-gb'', ''20'',
     ''--gc-high-watermark''] @ more"
    using unit_words [OF assms, of fmt store_root] by auto
  have unknown: "ar_invalid_message (ParseArgs args (''--gc-high-watermark'' # more)) =
      Some (''unknown argument: --gc-high-watermark; allowed flags: '' @ AllowedPgmemdFlags)" for args
    by (cases more) (simp_all add: flag_with_value_def flag_alone_def unknown_argument_def)
  have "ar_invalid_message (ParseArgs (default_Args dflt) (tl (split_words (exec_line fmt options store_root)))) =
      Some (''unknown argument: --gc-high-watermark; allowed flags: '' @ AllowedPgmemdFlags)"
    by (simp add: words flag_with_value_def unknown)
  then have "pgmemd_main V P S dflt (tl (split_words (exec_line fmt options store_root))) =
      Some (Inl (2, ''[pgmemd] invalid arguments: unknown argument: --gc-high-watermark; allowed flags: '' @ AllowedPgmemdFlags))"
    by (simp add: pgmemd_main_def Let_def)
  ultimately show ?thesis by simp
qed

theorem installed_unit_rejected_witness:
  "pgmemd_main sample_env ping_api sample_surroundings ''eloqstore''
     (tl (split_words (exec_line (\<lambda>_. ''0.9'')
        \<lparr> io_pgmemd_bin = ''/usr/bin/pgmemd'', io_pgmemd_extra_args = '''', io_store_root = '''', io_core_number = 4,
          io_manage_systemd = True \<rparr> ''/root/.pgmem/store''))) =
   Some (Inl (2, ''[pgmemd] invalid arguments: unknown argument: --gc-high-watermark; allowed flags: '' @ AllowedPgmemdFlags))"
  by (rule installed_unit_rejected [THEN conjunct2]) (simp add: word_ok_def is_space_def)

section \<open>A disk that commands look at\<close>

text \<open>The files, and for each command that ran what the unit held at that time.\<close>

record disk =
  dk_files :: "string \<Rightarrow> string option"
  dk_seen :: "(string \<times> string option) list"

definition disk_os :: "string \<Rightarrow> (string \<Rightarrow> nat) \<Rightarrow> disk os_api" where
  "disk_os home buffered =
     \<lparr> os_home = Some home, os_create_directories = (\<lambda>_ d. d),
       os_open = (\<lambda>p d. Some (d\<lparr> dk_files := (dk_files d)(p \<mapsto> '''') \<rparr>)),
       os_append = (\<lambda>p t d. d\<lparr> dk_files := (dk_files d)(p := map_option (\<lambda>s. s @ t) (dk_files d p)) \<rparr>),
       os_buffered = buffered,
       os_remove = (\<lambda>p d. (None, d\<lparr> dk_files := (dk_files d)(p := None) \<rparr>)),
       os_popen = (\<lambda>cmd d. (Some ('''', Exited 0),
         d\<lparr> dk_seen := dk_seen d @ [(cmd, dk_files d (UserSystemdPath (Some home)))] \<rparr>)) \<rparr>"

text \<open>
  C26. The installer has the unit reloaded, enabled and started before its text is on the
  disk: both commands find only what the stream has passed on, an empty file when the stream
  holds the whole text, and the text is complete only afterwards.
\<close>

theorem unit_enabled_unwritten:
  assumes "io_manage_systemd options"
  shows "let contents = unit_text fmt options (ResolveStoreRoot (Some home) (io_store_root options));
             found = take (length contents - buffered contents) contents
    in \<exists>d'. Install (disk_os home buffered) fmt options d = (None, d') \<and>
         dk_files d' (UserSystemdPath (Some home)) = Some contents \<and>
         dk_seen d' = dk_seen d @ [(''systemctl --user daemon-reload 2>&1'', Some found),
           (''systemctl --user enable --now pgmemd.service 2>&1'', Some found)] \<and>
         (length contents \<le> buffered contents \<longrightarrow> found = '''')"
proof -
  have "UserSystemdPath (Some home) \<noteq> ''''" by (simp add: UserSystemdPath_def path_append_def is_absolute_def)
  with assms show ?thesis
    by (simp add: Install_def WriteSystemdUnit_def RunCommand_def disk_os_def Let_def)
qed

theorem unit_enabled_unwritten_witness:
  "\<exists>d. Install (disk_os ''/root'' length) (\<lambda>_. ''0.9'')
       \<lparr> io_pgmemd_bin = ''pgmemd'', io_pgmemd_extra_args = '''', io_store_root = '''', io_core_number = 4, io_manage_systemd = True \<rparr>
       \<lparr> dk_files = \<lambda>_. None, dk_seen = [] \<rparr> = (None, d) \<and>
     dk_seen d = [(''systemctl --user daemon-reload 2>&1'', Some ''''),
       (''systemctl --user enable --now pgmemd.service 2>&1'', Some '''')]"
  using unit_enabled_unwritten [of "\<lparr> io_pgmemd_bin = ''pgmemd'', io_pgmemd_extra_args = '''', io_store_root = '''',
      io_core_number = 4, io_manage_systemd = True \<rparr>" "\<lambda>_. ''0.9''" "''/root''" "length" "\<lparr> dk_files = \<lambda>_. None, dk_seen = [] \<rparr>"]
  by (auto simp: Let_def)

text \<open>
  C27. The body of a parsed request lies inside the bytes received.  The sum of its offset and
  its announced length wraps: for a length close to 2^64 the check for a complete body passes,
  everything received so far is taken as the body, and fewer bytes than the header are
  reported as consumed.
\<close>

theorem ParseHttpRequest_body:
  assumes "ParseHttpRequest raw = Inr (r, consumed)" and "length raw < 2 ^ 64"
  shows "\<exists>header_end. str_find raw (crlf @ crlf) = Some header_end \<and> header_end + 4 \<le> length raw \<and>
    (unat consumed = header_end + 4 + length (rq_body r) \<and> unat consumed \<le> length raw \<and>
       rq_body r = take (length (rq_body r)) (drop (header_end + 4) raw) \<or>
     unat consumed < header_end + 4 \<and> rq_body r = drop (header_end + 4) raw)"
proof -
  from assms(1) obtain h n where find: "str_find raw (crlf @ crlf) = Some h"
    and complete: "\<not> (of_nat (length raw) :: u64) < of_nat h + 4 + n"
    and r: "rq_body r = substr raw (unat (of_nat h + 4 :: u64)) (unat n)" "consumed = of_nat h + 4 + n"
    unfolding ParseHttpRequest_def Let_def
    by (auto split: option.splits list.splits sum.splits prod.splits if_splits)
  have h: "h + 4 \<le> length raw" using str_find_Some [OF find] by simp
  have off: "unat (of_nat h + 4 :: u64) = h + 4" using unat_u64 [of "h + 4"] h assms(2) by (simp add: add.commute)
  have body: "rq_body r = take (unat n) (drop (h + 4) raw)" by (simp add: r(1) off substr_def)
  have sum: "unat consumed = (h + 4 + unat n) mod 2 ^ 64" unfolding r(2) by (simp only: unat_word_ariths(1) [of "of_nat h + 4" n] off) simp
  have fits: "unat consumed \<le> length raw"
    using complete unat_u64 [OF assms(2)] by (simp add: r(2) word_le_nat_alt not_less)
  show ?thesis
  proof (cases "h + 4 + unat n < 2 ^ 64")
    case True
    with sum fits body find h show ?thesis by auto
  next
    case False
    have n: "unat n < 2 ^ 64" using unsigned_less [of n] by simp
    have "unat consumed = h + 4 + unat n - 2 ^ 64"
      unfolding sum using False h assms(2) n by (simp add: mod_if)
    moreover from this have "unat consumed < h + 4" "length raw - (h + 4) \<le> unat n" using False n h assms(2) by simp_all
    ultimately show ?thesis using body find h by auto
  qed
qed

definition wrapping_request :: string where
  "wrapping_request = ''POST /mcp HTTP/1.1'' @ crlf @ ''Content-Length: -1'' @ crlf @ crlf @ ''ping''"

theorem ParseHttpRequest_body_witness:
  "\<exists>r consumed. ParseHttpRequest wrapping_request = Inr (r, consumed) \<and> unat consumed < length wrapping_request - 4 \<and>
     rq_body r = ''ping''"
proof -
  have find: "str_find wrapping_request (crlf @ crlf) = Some 38" by (simp add: wrapping_request_def)
  have "take 38 wrapping_request = (''POST /mcp HTTP/1.1'' @ [CHR 0x0D]) @ CHR 0x0A # ''Content-Length: -1''"
    by (simp add: wrapping_request_def)
  then have lines: "getlines (take 38 wrapping_request) = [''POST /mcp HTTP/1.1'' @ [CHR 0x0D], ''Content-Length: -1'']"
    by (simp only:) (subst getlines_line, simp, subst getlines_single, simp_all)
  have line: "read_request_line (pop_cr (''POST /mcp HTTP/1.1'' @ [CHR 0x0D])) = Some (''POST'', ''/mcp'', ''HTTP/1.1'')"
    using read_request_line_words [of "''POST''" "''/mcp''" "''HTTP/1.1''"] by (simp add: pop_cr_def word_ok_def is_space_def)
  have lower: "http_ToLower ''Content-Length'' = ''content-length''" by code_simp
  have "header_of ''Content-Length: -1'' = Some (''content-length'', ''-1'')"
    using lower by (simp add: header_of_def pop_cr_def http_Trim_def is_space_def)
  moreover have "std_stoul ''-1'' = Some (- 1)" by (simp add: std_stoul_def sign_split_def is_space_def is_digit_def)
  ultimately have headers: "parse_headers [''Content-Length: -1''] [] 0 = Inr ([(''content-length'', ''-1'')], - 1)" by simp
  have len: "length wrapping_request = 46" by (simp add: wrapping_request_def)
  have rest: "drop 42 wrapping_request = ''ping''" by (simp add: wrapping_request_def)
  from len obtain r where p: "ParseHttpRequest wrapping_request = Inr (r, 41)"
    unfolding ParseHttpRequest_def find option.case lines list.case line prod.case headers sum.case Let_def by simp
  from ParseHttpRequest_body [OF p] have "rq_body r = ''ping''" unfolding find option.inject by (auto simp: len rest)
  with p show ?thesis by (simp add: len)
qed

end
