(* ===== verification/Redact.thy ===== *)
theory Redact
  imports Text
begin

text \<open>
  \<open>RedactSecrets\<close> of \<open>src/util/text.cpp\<close>: four replacements by regular expressions.  In each
  expression neighbouring parts accept disjoint sets of characters, so the greedy runs below
  are the only way to match; a match is tried at every position from left to right and never
  empty.  Case is folded and white space classified as in the C locale.

  The lemmas show that no bearer token, API key or \<open>sk-\<close> token is left in the result.
\<close>

section \<open>Matching\<close>

definition mark :: string where
  "mark = ''[REDACTED]''"

text \<open>A match gives the text that replaces it and what follows it.\<close>

type_synonym matcher = "string \<Rightarrow> (string \<times> string) option"

definition eat_icase :: "string \<Rightarrow> string \<Rightarrow> string option" where
  "eat_icase p s = (if map to_lower_char (take (length p) s) = p then Some (drop (length p) s) else None)"

definition token_char :: "char \<Rightarrow> bool" where
  "token_char c \<longleftrightarrow> is_alnum c \<or> c \<in> {CHR ''.'', CHR ''_'', CHR ''-''}"

definition key_char :: "char \<Rightarrow> bool" where
  "key_char c \<longleftrightarrow> is_alnum c \<or> c \<in> {CHR ''_'', CHR ''-''}"

definition kBearer :: matcher where
  "kBearer s = Option.bind (eat_icase ''bearer'' s) (\<lambda>t.
     (let u = dropWhile is_space t in
      if takeWhile is_space t = [] \<or> takeWhile token_char u = [] then None
      else Some (''Bearer '' @ mark, dropWhile token_char u)))"

definition separator :: "char \<Rightarrow> bool" where
  "separator c \<longleftrightarrow> c \<in> {CHR '':'', CHR ''=''}"

definition separated :: "string \<Rightarrow> string option" where
  "separated t =
     (case dropWhile is_space t of
        c # v \<Rightarrow> if separator c then Some (dropWhile is_space v) else None
      | [] \<Rightarrow> None)"

definition skip_dash :: "string \<Rightarrow> string" where
  "skip_dash t = (case t of c # u \<Rightarrow> if c \<in> {CHR ''_'', CHR ''-''} then u else t | [] \<Rightarrow> t)"

definition kApiKey :: matcher where
  "kApiKey s =
     Option.bind (eat_icase ''api'' s) (\<lambda>t. Option.bind (eat_icase ''key'' (skip_dash t)) (\<lambda>u.
       Option.bind (separated u) (\<lambda>v.
         if length (takeWhile key_char v) < 8 then None
         else Some (take (length s - length v) s @ mark, dropWhile key_char v))))"

definition password_char :: "char \<Rightarrow> bool" where
  "password_char c \<longleftrightarrow> \<not> is_space c \<and> c \<noteq> CHR '','' \<and> c \<noteq> CHR '';''"

definition kPassword :: matcher where
  "kPassword s =
     Option.bind (eat_icase ''password'' s) (\<lambda>t. Option.bind (separated t) (\<lambda>v.
       if takeWhile password_char v = [] then None
       else Some (take (length s - length v) s @ mark, dropWhile password_char v)))"

definition kSkToken :: matcher where
  "kSkToken s =
     (if take 3 s = ''sk-'' \<and> 16 \<le> length (takeWhile is_alnum (drop 3 s))
      then Some (mark, dropWhile is_alnum (drop 3 s)) else None)"

text \<open>\<open>std::regex_replace\<close> for an expression that never matches the empty text.\<close>

function replace_all :: "matcher \<Rightarrow> string \<Rightarrow> string" where
  "replace_all m s =
     (case m s of
        Some (replacement, rest) \<Rightarrow> if length rest < length s then replacement @ replace_all m rest else s
      | None \<Rightarrow> (case s of [] \<Rightarrow> [] | c # t \<Rightarrow> c # replace_all m t))"
  by pat_completeness auto
termination
  by (relation "measure (length \<circ> snd)") auto

declare replace_all.simps [simp del]

definition RedactSecrets :: "string \<Rightarrow> string" where
  "RedactSecrets input = replace_all kSkToken (replace_all kPassword (replace_all kApiKey (replace_all kBearer input)))"

section \<open>Matchers\<close>

text \<open>
  A match depends on a prefix only and does not run over an opening bracket, and none starts
  inside the mark.
\<close>

locale bounded_matcher =
  fixes m :: matcher
  assumes extends: "m a \<noteq> None \<Longrightarrow> m (a @ r) \<noteq> None"
    and stops: "m (a @ CHR ''['' # b) \<noteq> None \<Longrightarrow> m a \<noteq> None"
    and not_in_mark: "k < length mark \<Longrightarrow> m (drop k mark @ b) = None"
    and not_empty: "m [] = None"

definition free_of :: "matcher \<Rightarrow> string \<Rightarrow> bool" where
  "free_of m s \<longleftrightarrow> (\<forall>t. suffix t s \<longrightarrow> m t = None)"

text \<open>Every replacement ends with the mark and stands for a non-empty match.\<close>

definition marks :: "matcher \<Rightarrow> bool" where
  "marks m \<longleftrightarrow> (\<forall>s new rest. m s = Some (new, rest) \<longrightarrow> (\<exists>x y. s = y @ rest \<and> y \<noteq> [] \<and> new = x @ mark))"

text \<open>Most replacements keep the start of what they match.\<close>

definition keeps_start :: "matcher \<Rightarrow> bool" where
  "keeps_start m \<longleftrightarrow> (\<forall>s x rest. m s = Some (x @ mark, rest) \<longrightarrow> prefix x s)"

lemma free_of_Nil [simp]: "m [] = None \<Longrightarrow> free_of m []"
  by (simp add: free_of_def)

lemma free_of_Cons: "free_of m (c # s) \<longleftrightarrow> m (c # s) = None \<and> free_of m s"
  by (auto simp: free_of_def suffix_Cons)

lemma free_of_suffix: "free_of m (a @ s) \<Longrightarrow> free_of m s"
  by (auto simp: free_of_def suffix_def)

lemma replace_all_None: "m (c # s) = None \<Longrightarrow> replace_all m (c # s) = c # replace_all m s"
  by (subst replace_all.simps) simp

lemma replace_all_Nil: "m [] = None \<Longrightarrow> replace_all m [] = []"
  by (subst replace_all.simps) simp

lemma replace_all_Some: "m s = Some (out, rest) \<Longrightarrow> length rest < length s \<Longrightarrow> replace_all m s = out @ replace_all m rest"
  by (subst replace_all.simps) simp

context bounded_matcher begin

lemma free_of_mark: "free_of m b \<Longrightarrow> free_of m (mark @ b)"
proof -
  assume b: "free_of m b"
  have "m t = None" if "suffix t (mark @ b)" for t
  proof (cases "suffix t b")
    case True
    with b show ?thesis by (simp add: free_of_def)
  next
    case False
    with that obtain t' where t': "t = t' @ b" "suffix t' mark" by (auto simp: suffix_append)
    then have k: "t' = drop (length mark - length t') mark" by (metis suffix_take append_eq_conv_conj suffix_def length_append add_diff_cancel_right')
    moreover have "t' \<noteq> []" using False t'(1) by auto
    moreover have "0 < length mark" by (simp add: mark_def)
    ultimately have "m (drop (length mark - length t') mark @ b) = None" by (intro not_in_mark) simp
    then show ?thesis using k t'(1) by simp
  qed
  then show ?thesis by (simp add: free_of_def)
qed

text \<open>Text that ends where the mark begins can be judged by itself.\<close>

lemma free_of_before_mark:
  assumes "free_of m x" "free_of m b"
  shows "free_of m (x @ mark @ b)"
  using assms(1)
proof (induction x)
  case Nil
  with free_of_mark [OF assms(2)] show ?case by simp
next
  case (Cons c x)
  have "mark = CHR ''['' # tl mark" by (simp add: mark_def)
  then have "m (c # x @ mark @ b) = None"
    using stops [of "c # x" "tl mark @ b"] Cons.prems by (metis append_Cons free_of_Cons)
  with Cons show ?case by (simp add: free_of_Cons)
qed

lemma free_of_part: "free_of m (a @ r) \<Longrightarrow> free_of m a"
  unfolding free_of_def using extends by (metis suffix_append suffix_def append.assoc)

end

lemma marksD: "marks m \<Longrightarrow> m s = Some (new, rest) \<Longrightarrow> \<exists>x. new = x @ mark \<and> length rest < length s \<and> suffix rest s"
  unfolding marks_def suffix_def by (metis length_append length_greater_0_conv less_add_same_cancel2)

text \<open>The result is the text itself or starts with what stands before and for the first match.\<close>

lemma replace_all_starts:
  assumes "marks m" "m [] = None"
  shows "replace_all m s = s \<or>
    (\<exists>a s' x rest b. s = a @ s' \<and> m s' = Some (x @ mark, rest) \<and> replace_all m s = a @ x @ mark @ b)"
proof (induction s)
  case Nil
  then show ?case by (simp add: replace_all_Nil assms(2))
next
  case (Cons c s)
  show ?case
  proof (cases "m (c # s)")
    case None
    with Cons show ?thesis by (simp add: replace_all_None) (metis append_Cons)
  next
    case (Some r)
    then obtain new rest where r: "m (c # s) = Some (new, rest)" by (cases r) simp
    with marksD [OF assms(1)] obtain x where x: "new = x @ mark" "length rest < length (c # s)" by blast
    from replace_all_Some [of m, OF r x(2)] r x(1) show ?thesis by (metis append_Nil append.assoc)
  qed
qed

context bounded_matcher begin

text \<open>
  A replacement by \<open>m'\<close> brings no match of \<open>m\<close>: not where \<open>m'\<close> did not match, provided that the
  kept text stands for the match, and not in the kept text.
\<close>

lemma replace_all_free:
  assumes m': "marks m'" "m' [] = None"
    and stands: "\<And>a s x rest. m' s = Some (x @ mark, rest) \<Longrightarrow> m (a @ x) \<noteq> None \<Longrightarrow> m (a @ s) \<noteq> None"
    and kept: "\<And>t x rest. suffix t s \<Longrightarrow> m' t = Some (x @ mark, rest) \<Longrightarrow> free_of m x"
    and unmatched: "\<And>t. suffix t s \<Longrightarrow> m' t = None \<Longrightarrow> m t = None"
  shows "free_of m (replace_all m' s)"
  using kept unmatched
proof (induction "length s" arbitrary: s rule: less_induct)
  case less
  show ?case
  proof (cases "m' s")
    case None
    show ?thesis
    proof (cases s)
      case Nil
      then show ?thesis by (simp add: replace_all_Nil m'(2) not_empty)
    next
      case (Cons c t)
      have IH: "free_of m (replace_all m' t)" by (rule less.hyps) (use less.prems Cons in \<open>auto simp: suffix_Cons\<close>)
      have here: "m (c # t) = None" using less.prems(2) [of s] None Cons by simp
      have "m (c # replace_all m' t) = None"
      proof (rule ccontr)
        assume new: "m (c # replace_all m' t) \<noteq> None"
        with here replace_all_starts [OF m', of t] obtain a s' x rest b where
          s': "t = a @ s'" "m' s' = Some (x @ mark, rest)" "replace_all m' t = a @ x @ mark @ b" by auto
        have "mark = CHR ''['' # tl mark" by (simp add: mark_def)
        with new s'(3) stops [of "c # a @ x" "tl mark @ b"] have "m ((c # a) @ x) \<noteq> None" by (metis append_Cons append.assoc)
        from stands [OF s'(2) this] here s'(1) show False by simp
      qed
      with IH None Cons show ?thesis by (simp add: replace_all_None free_of_Cons)
    qed
  next
    case (Some r)
    then obtain new rest where r: "m' s = Some (new, rest)" by (cases r) simp
    with marksD [OF m'(1)] obtain x where x: "new = x @ mark" "length rest < length s" "suffix rest s" by blast
    have "free_of m (replace_all m' rest)"
      by (rule less.hyps [OF x(2)]) (use less.prems x(3) in \<open>blast intro: suffix_order.trans\<close>)+
    moreover have "free_of m x" using less.prems(1) [of s x rest] r x(1) by simp
    ultimately show ?thesis using free_of_before_mark by (simp add: replace_all_Some [of m', OF r x(2)] x(1))
  qed
qed

lemma stays_free:
  assumes "marks m'" "keeps_start m'" "m' [] = None" "free_of m s"
  shows "free_of m (replace_all m' s)"
proof (rule replace_all_free [OF assms(1,3)])
  fix a t x rest
  assume "m' t = Some (x @ mark, rest)"
  with assms(2) obtain y where y: "t = x @ y" by (auto simp: keeps_start_def prefix_def)
  { assume "m (a @ x) \<noteq> None"
    then show "m (a @ t) \<noteq> None" using extends [of "a @ x" y] y by simp }
  assume "suffix t s"
  then show "free_of m x" using assms(4) free_of_part [of x y] y by (metis free_of_suffix suffix_def)
qed (use assms(4) in \<open>simp add: free_of_def\<close>)

end

section \<open>The four expressions\<close>

lemma bracket_simps [simp]:
  "\<not> is_space (CHR ''['')" "\<not> token_char (CHR ''['')" "\<not> key_char (CHR ''['')" "\<not> is_alnum (CHR ''['')"
  "\<not> separator (CHR ''['')"
  by (simp_all add: separator_def is_space_def token_char_def key_char_def is_alnum_def is_digit_def)

lemma runs_stop:
  assumes "\<not> Q c"
  shows "takeWhile Q (s @ c # b) = takeWhile Q s" "dropWhile Q (s @ c # b) = dropWhile Q s @ c # b"
  using assms by (induction s) simp_all

lemma dropWhile_more: "dropWhile Q s \<noteq> [] \<Longrightarrow> dropWhile Q (s @ r) = dropWhile Q s @ r"
  by (induction s) auto

lemma takeWhile_more: "prefix (takeWhile Q s) (takeWhile Q (s @ r))"
  by (induction s) auto

lemma eat_more: "eat_icase p s = Some t \<Longrightarrow> eat_icase p (s @ r) = Some (t @ r)"
proof -
  assume e: "eat_icase p s = Some t"
  then have "length p \<le> length s" unfolding eat_icase_def by (metis length_map length_take min.cobounded1 option.distinct(1))
  with e show ?thesis by (auto simp: eat_icase_def split: if_splits)
qed

lemma eat_stops:
  assumes "list_all is_alnum p"
  shows "eat_icase p (s @ CHR ''['' # b) = map_option (\<lambda>t. t @ CHR ''['' # b) (eat_icase p s)"
proof (cases "length p \<le> length s")
  case True
  then show ?thesis by (simp add: eat_icase_def)
next
  case False
  then obtain k where k: "length p - length s = Suc k" by (metis Suc_diff_Suc not_le)
  have "CHR ''['' \<notin> set p" using assms by (auto simp: list_all_iff)
  moreover have "CHR ''['' \<in> set (map to_lower_char (take (length p) (s @ CHR ''['' # b)))"
    using False by (simp add: k) (simp add: to_lower_char_def)
  ultimately have "map to_lower_char (take (length p) (s @ CHR ''['' # b)) \<noteq> p" by metis
  moreover have "length (map to_lower_char (take (length p) s)) \<noteq> length p" using False by simp
  then have "map to_lower_char (take (length p) s) \<noteq> p" by metis
  ultimately show ?thesis by (simp add: eat_icase_def)
qed

lemma eat_Some: "eat_icase p s = Some t \<longleftrightarrow> map to_lower_char (take (length p) s) = p \<and> t = drop (length p) s"
  by (auto simp: eat_icase_def)

lemma eat_first: "eat_icase (c # p) s = Some t \<Longrightarrow> \<exists>d s'. s = d # s' \<and> to_lower_char d = c"
  by (cases s) (auto simp: eat_icase_def split: if_splits)

lemma eat_second: "eat_icase (c # d # p) s = Some t \<Longrightarrow> \<exists>x y s'. s = x # y # s' \<and> to_lower_char x = c \<and> to_lower_char y = d"
  by (cases s; cases "tl s") (auto simp: eat_icase_def split: if_splits)

lemma mark_chars: "list_all (\<lambda>c. to_lower_char c \<notin> {CHR ''b'', CHR ''p'', CHR ''s''}) mark"
  by code_simp

lemma drop_mark:
  assumes "k < length mark"
  shows "\<exists>d s. drop k mark @ b = d # s \<and> d \<in> set mark \<and> to_lower_char d \<notin> {CHR ''b'', CHR ''p'', CHR ''s''}"
proof -
  have "drop k mark @ b = mark ! k # drop (Suc k) mark @ b" using Cons_nth_drop_Suc [OF assms] by simp
  moreover have "mark ! k \<in> set mark" using assms by simp
  ultimately show ?thesis using mark_chars by (auto simp: list_all_iff simp del: drop_append)
qed

lemma words_alnum: "list_all is_alnum ''bearer''" "list_all is_alnum ''api''" "list_all is_alnum ''key''"
  by (simp_all add: is_alnum_def is_digit_def)

subsection \<open>Bearer tokens\<close>

lemma eat_bearer: "eat_icase ''bearer'' s = Some t \<longleftrightarrow> map to_lower_char (take 6 s) = ''bearer'' \<and> t = drop 6 s"
proof -
  have len: "length ''bearer'' = 6" by simp
  show ?thesis unfolding eat_Some len ..
qed

lemma kBearer_iff:
  "kBearer s \<noteq> None \<longleftrightarrow> (\<exists>t c u d v. eat_icase ''bearer'' s = Some t \<and> t = c # u \<and> is_space c \<and> dropWhile is_space u = d # v \<and> token_char d)"
proof (cases "eat_icase ''bearer'' s")
  case (Some t)
  show ?thesis
  proof (cases t)
    case (Cons c u)
    with Some show ?thesis by (cases "is_space c"; cases "dropWhile is_space u") (simp_all add: kBearer_def Let_def del: dropWhile_eq_Nil_conv)
  qed (simp add: Some kBearer_def)
qed (simp add: kBearer_def)

lemma kBearer_stops: "kBearer (s @ CHR ''['' # b) = map_option (\<lambda>(new, r). (new, r @ CHR ''['' # b)) (kBearer s)"
  by (cases "eat_icase ''bearer'' s") (simp_all add: kBearer_def eat_stops [OF words_alnum(1)] runs_stop Let_def)

interpretation bearer: bounded_matcher kBearer
proof
  fix a r b k
  show "kBearer (a @ r) \<noteq> None" if "kBearer a \<noteq> None"
  proof -
    from that obtain t c u d v where m: "eat_icase ''bearer'' a = Some t" "t = c # u" "is_space c"
      "dropWhile is_space u = d # v" "token_char d" unfolding kBearer_iff by blast
    have "eat_icase ''bearer'' (a @ r) = Some (c # u @ r)" using eat_more [OF m(1)] m(2) by simp
    moreover have "dropWhile is_space (u @ r) = d # v @ r" using dropWhile_more [of is_space u r] m(4) by simp
    ultimately show ?thesis using m(3,5) unfolding kBearer_iff by blast
  qed
  show "kBearer (a @ CHR ''['' # b) \<noteq> None \<Longrightarrow> kBearer a \<noteq> None" by (auto simp: kBearer_stops)
  show "kBearer (drop k mark @ b) = None" if k: "k < length mark"
  proof -
    obtain d u where "drop k mark @ b = d # u" "to_lower_char d \<noteq> CHR ''b''" using drop_mark [OF k, of b] by auto
    then show ?thesis using eat_first [of "CHR ''b''" "''earer''" "d # u"]
      by (cases "eat_icase ''bearer'' (d # u)") (auto simp: kBearer_def)
  qed
qed (simp add: kBearer_def eat_icase_def)

lemma eat_lower:
  "eat_icase p (map to_lower_char s) = map_option (map to_lower_char) (eat_icase p s)"
  by (simp add: eat_icase_def take_map drop_map o_def)

lemma lower_class [simp]: "is_space (to_lower_char c) = is_space c" "token_char (to_lower_char c) = token_char c"
  by (auto simp: is_space_def token_char_def to_lower_char_def of_char_of is_alnum_def is_digit_def)

lemma dropWhile_lower: "(\<And>c. Q (to_lower_char c) = Q c) \<Longrightarrow> dropWhile Q (map to_lower_char s) = map to_lower_char (dropWhile Q s)"
  by (simp add: dropWhile_map o_def)

lemma kBearer_lower: "kBearer (map to_lower_char s) \<noteq> None \<longleftrightarrow> kBearer s \<noteq> None"
  unfolding kBearer_iff eat_lower by (auto simp: dropWhile_lower map_eq_Cons_conv)

lemma kBearer_trailing_space:
  assumes "kBearer (s @ '' '') \<noteq> None"
  shows "kBearer s \<noteq> None"
proof -
  obtain t c u d v where m: "eat_icase ''bearer'' (s @ '' '') = Some t" "t = c # u" "is_space c"
    "dropWhile is_space u = d # v" "token_char d"
    using assms unfolding kBearer_iff by blast
  have blank: "is_space (CHR '' '')" "\<not> token_char (CHR '' '')" by (simp_all add: is_space_def token_char_def is_alnum_def is_digit_def)
  have "t = drop 6 (s @ '' '')" using m(1) unfolding eat_bearer by simp
  then have "\<not> length (s @ '' '') \<le> 6" using m(2) by (metis drop_all list.distinct(1))
  then have "6 \<le> length s" by simp
  with m(1) obtain t' where t': "eat_icase ''bearer'' s = Some t'" "t = t' @ '' ''"
    unfolding eat_bearer by simp
  show ?thesis
  proof (cases t')
    case Nil
    with m(2,4) t'(2) show ?thesis by simp
  next
    case (Cons c' u')
    with m t'(2) have u: "c' = c" "dropWhile is_space (u' @ '' '') = d # v" by auto
    have "dropWhile is_space u' \<noteq> []"
    proof
      assume "dropWhile is_space u' = []"
      then have "dropWhile is_space (u' @ '' '') = []" using blank by (simp add: dropWhile_eq_Nil_conv)
      with u(2) show False by simp
    qed
    with u m(5) blank obtain v' where "dropWhile is_space u' = d # v'"
      by (cases "dropWhile is_space u'") (simp_all add: dropWhile_more)
    with Cons u(1) m(3,5) t'(1) show ?thesis unfolding kBearer_iff by blast
  qed
qed

lemma bearer_stands:
  assumes "kBearer s = Some (x @ mark, rest)" "kBearer (a @ x) \<noteq> None"
  shows "kBearer (a @ s) \<noteq> None"
proof -
  obtain t where t: "eat_icase ''bearer'' s = Some t" and x: "x = ''Bearer ''"
    using assms(1) by (cases "eat_icase ''bearer'' s") (auto simp: kBearer_def Let_def split: if_splits)
  define w where "w = take 6 s"
  have w: "map to_lower_char w = ''bearer''" "s = w @ drop 6 s" using t unfolding eat_bearer w_def by simp_all
  have "kBearer (a @ ''Bearer'') \<noteq> None" using assms(2) kBearer_trailing_space [of "a @ ''Bearer''"] by (simp add: x)
  moreover have "map to_lower_char ''Bearer'' = ''bearer''" by code_simp
  ultimately have "kBearer (map to_lower_char (a @ w)) \<noteq> None"
    using kBearer_lower [of "a @ ''Bearer''"] w(1) by simp
  then have "kBearer (a @ w) \<noteq> None" by (rule kBearer_lower [THEN iffD1])
  then show ?thesis using bearer.extends [of "a @ w" "drop 6 s"] w(2) by (metis append.assoc)
qed

text \<open>What is left after the parts of an expression is an end of the text, and a shorter one.\<close>

lemma eat_suffix: "eat_icase p s = Some t \<Longrightarrow> suffix t s"
  by (auto simp: eat_icase_def suffix_drop split: if_splits)

lemma marksI:
  assumes "\<And>s new rest. m s = Some (new, rest) \<Longrightarrow> \<exists>x v. new = x @ mark \<and> suffix v s \<and> strict_suffix rest v"
  shows "marks m"
  unfolding marks_def
proof (intro allI impI)
  fix s new rest
  assume "m s = Some (new, rest)"
  with assms obtain x v where "new = x @ mark" "suffix v s" "strict_suffix rest v" by blast
  moreover from this(2,3) obtain y z where "s = z @ y @ rest" "y \<noteq> []" by (auto simp: suffix_def strict_suffix_def)
  ultimately show "\<exists>x y. s = y @ rest \<and> y \<noteq> [] \<and> new = x @ mark" by (metis append.assoc append_is_Nil_conv)
qed

lemma dropWhile_strict: "takeWhile Q s \<noteq> [] \<Longrightarrow> strict_suffix (dropWhile Q s) s"
proof -
  assume "takeWhile Q s \<noteq> []"
  then obtain a l where s: "s = a # l" "Q a" by (cases s) (auto split: if_splits)
  have "length (dropWhile Q l) < length s" using length_dropWhile_le [of Q l] s(1) by simp
  then show ?thesis using suffix_dropWhile [of Q s] s by (auto simp: strict_suffix_def)
qed

lemma kBearer_marks: "marks kBearer"
proof (rule marksI)
  fix s new rest
  assume "kBearer s = Some (new, rest)"
  then obtain t where "eat_icase ''bearer'' s = Some t" "new = ''Bearer '' @ mark"
    "takeWhile token_char (dropWhile is_space t) \<noteq> []" "rest = dropWhile token_char (dropWhile is_space t)"
    by (cases "eat_icase ''bearer'' s") (auto simp: kBearer_def Let_def split: if_splits)
  then show "\<exists>x v. new = x @ mark \<and> suffix v s \<and> strict_suffix rest v"
    using eat_suffix suffix_dropWhile dropWhile_strict suffix_order.trans by metis
qed

subsection \<open>Keys and passwords\<close>

lemma separated_Some:
  "separated t = Some v \<longleftrightarrow> (\<exists>c w. dropWhile is_space t = c # w \<and> separator c \<and> v = dropWhile is_space w)"
  by (cases "dropWhile is_space t") (auto simp: separated_def simp del: dropWhile_eq_Nil_conv)

lemma separated_stops: "separated (t @ CHR ''['' # b) = map_option (\<lambda>v. v @ CHR ''['' # b) (separated t)"
  by (cases "dropWhile is_space t") (auto simp: separated_def runs_stop simp del: dropWhile_eq_Nil_conv)

lemma separated_more: "separated t = Some v \<Longrightarrow> v \<noteq> [] \<Longrightarrow> separated (t @ r) = Some (v @ r)"
  by (auto simp: separated_Some dropWhile_more simp del: dropWhile_eq_Nil_conv)

lemma separated_suffix: "separated t = Some v \<Longrightarrow> suffix v t"
  unfolding separated_Some by (metis suffix_ConsD suffix_dropWhile suffix_order.trans)

lemma skip_dash_suffix: "suffix (skip_dash t) t"
  by (auto simp: skip_dash_def suffix_ConsI split: list.splits)

lemma skip_dash_stops: "skip_dash (t @ CHR ''['' # b) = skip_dash t @ CHR ''['' # b"
  by (auto simp: skip_dash_def split: list.splits)

lemma skip_dash_more: "t \<noteq> [] \<Longrightarrow> skip_dash (t @ r) = skip_dash t @ r"
  by (auto simp: skip_dash_def split: list.splits)

text \<open>The parts of a match of the API key expression.\<close>

lemma kApiKey_Some:
  "kApiKey s = Some (new, rest) \<longleftrightarrow> (\<exists>t u v. eat_icase ''api'' s = Some t \<and> eat_icase ''key'' (skip_dash t) = Some u \<and>
     separated u = Some v \<and> 8 \<le> length (takeWhile key_char v) \<and> new = take (length s - length v) s @ mark \<and>
     rest = dropWhile key_char v)"
  by (auto simp: kApiKey_def bind_eq_Some_conv not_less)

lemma kApiKey_iff:
  "kApiKey s \<noteq> None \<longleftrightarrow> (\<exists>t u v. eat_icase ''api'' s = Some t \<and> eat_icase ''key'' (skip_dash t) = Some u \<and>
     separated u = Some v \<and> 8 \<le> length (takeWhile key_char v))"
  using kApiKey_Some by (metis option.exhaust option.distinct(1) surj_pair)

lemma kApiKey_stops: "kApiKey (s @ CHR ''['' # b) \<noteq> None \<longleftrightarrow> kApiKey s \<noteq> None"
  unfolding kApiKey_iff eat_stops [OF words_alnum(2)]
  by (auto simp: skip_dash_stops eat_stops [OF words_alnum(3)] separated_stops runs_stop)

lemma key_more: "8 \<le> length (takeWhile key_char v) \<Longrightarrow> 8 \<le> length (takeWhile key_char (v @ r))"
  using prefix_length_le [OF takeWhile_more [of key_char v r]] by linarith

interpretation api_key: bounded_matcher kApiKey
proof
  fix a r b k
  show "kApiKey (a @ r) \<noteq> None" if "kApiKey a \<noteq> None"
  proof -
    from that obtain t u v where m: "eat_icase ''api'' a = Some t" "eat_icase ''key'' (skip_dash t) = Some u"
      "separated u = Some v" "8 \<le> length (takeWhile key_char v)" unfolding kApiKey_iff by blast
    have "t \<noteq> []" using m(2) by (auto simp: skip_dash_def eat_icase_def)
    moreover have "v \<noteq> []" using m(4) by auto
    ultimately show ?thesis unfolding kApiKey_iff
      using eat_more [OF m(1), of r] eat_more [OF m(2), of r] separated_more [OF m(3), of r] key_more [OF m(4), of r]
        skip_dash_more [of t r] by metis
  qed
  show "kApiKey (a @ CHR ''['' # b) \<noteq> None \<Longrightarrow> kApiKey a \<noteq> None" by (rule kApiKey_stops [THEN iffD1])
  show "kApiKey (drop k mark @ b) = None" if k: "k < length mark"
  proof (rule ccontr)
    assume "kApiKey (drop k mark @ b) \<noteq> None"
    then obtain t where "eat_icase ''api'' (drop k mark @ b) = Some t" unfolding kApiKey_iff by blast
    then obtain c d s where s: "drop k mark @ b = c # d # s" "to_lower_char c = CHR ''a''" "to_lower_char d = CHR ''p''"
      using eat_second by blast
    show False
    proof (cases "Suc k < length mark")
      case True
      have "drop (Suc k) mark @ b = tl (drop k mark @ b)" using k by (simp add: drop_Suc tl_drop)
      with s drop_mark [OF True, of b] show False by auto
    next
      case False
      with k have "drop k mark = ''D]'' \<or> drop k mark = '']''" by (auto simp: mark_def less_Suc_eq)
      with s show False by (auto simp: to_lower_char_def)
    qed
  qed
qed (simp add: kApiKey_def eat_icase_def)

lemma take_before: "suffix v s \<Longrightarrow> s = take (length s - length v) s @ v"
  by (auto simp: suffix_def)

lemma api_suffix: "eat_icase ''api'' s = Some t \<Longrightarrow> eat_icase ''key'' (skip_dash t) = Some u \<Longrightarrow> separated u = Some v \<Longrightarrow> suffix v s"
  using eat_suffix skip_dash_suffix separated_suffix suffix_order.trans by metis

lemma kApiKey_marks: "marks kApiKey" "keeps_start kApiKey"
proof -
  show "marks kApiKey"
  proof (rule marksI)
    fix s new rest
    assume "kApiKey s = Some (new, rest)"
    then obtain t u v where m: "eat_icase ''api'' s = Some t" "eat_icase ''key'' (skip_dash t) = Some u" "separated u = Some v"
      "8 \<le> length (takeWhile key_char v)" "new = take (length s - length v) s @ mark" "rest = dropWhile key_char v"
      unfolding kApiKey_Some by blast
    then have "takeWhile key_char v \<noteq> []" by auto
    with m(5,6) api_suffix [OF m(1,2,3)] show "\<exists>x v. new = x @ mark \<and> suffix v s \<and> strict_suffix rest v"
      using dropWhile_strict by blast
  qed
  show "keeps_start kApiKey"
    unfolding keeps_start_def kApiKey_Some by (auto simp: take_is_prefix)
qed

lemma kPassword_Some:
  "kPassword s = Some (new, rest) \<longleftrightarrow> (\<exists>t v. eat_icase ''password'' s = Some t \<and> separated t = Some v \<and>
     takeWhile password_char v \<noteq> [] \<and> new = take (length s - length v) s @ mark \<and> rest = dropWhile password_char v)"
  by (auto simp: kPassword_def bind_eq_Some_conv simp del: takeWhile_eq_Nil_iff)

lemma kPassword_marks: "marks kPassword" "keeps_start kPassword"
proof -
  show "marks kPassword"
  proof (rule marksI)
    fix s new rest
    assume "kPassword s = Some (new, rest)"
    then obtain t v where m: "eat_icase ''password'' s = Some t" "separated t = Some v"
      "takeWhile password_char v \<noteq> []" "new = take (length s - length v) s @ mark" "rest = dropWhile password_char v"
      unfolding kPassword_Some by blast
    have "suffix v s" using eat_suffix [OF m(1)] separated_suffix [OF m(2)] suffix_order.trans by blast
    with m(3-5) show "\<exists>x v. new = x @ mark \<and> suffix v s \<and> strict_suffix rest v"
      using dropWhile_strict by blast
  qed
  show "keeps_start kPassword"
    unfolding keeps_start_def kPassword_Some by (auto simp: take_is_prefix)
qed

text \<open>The kept part of an API key has one separator, with nothing but white space behind it.\<close>

lemma one_separator:
  assumes "p @ c # q = p' @ c' # q'" "\<forall>a \<in> set p. \<not> S a" "\<forall>a \<in> set q. \<not> S a" "S c'"
  shows "q' = q"
  using assms by (auto simp: append_eq_append_conv2 append_eq_Cons_conv Cons_eq_append_conv)

lemma eaten_plain:
  assumes "eat_icase p s = Some t" "list_all is_alnum p"
  shows "\<exists>w. s = w @ t \<and> (\<forall>a \<in> set w. \<not> separator a)"
proof (intro exI conjI)
  let ?w = "take (length p) s"
  have w: "map to_lower_char ?w = p" "t = drop (length p) s" using assms(1) by (simp_all add: eat_Some)
  show "s = ?w @ t" using w(2) by simp
  show "\<forall>a \<in> set ?w. \<not> separator a"
  proof
    fix a
    assume "a \<in> set ?w"
    then have "to_lower_char a \<in> set p" using arg_cong [OF w(1), of set] by auto
    with assms(2) have "is_alnum (to_lower_char a)" unfolding list_all_iff by blast
    then have "is_alnum a" by simp
    then show "\<not> separator a" by (auto simp: separator_def is_alnum_def is_digit_def)
  qed
qed

lemma space_run: "\<exists>w. t = w @ dropWhile is_space t \<and> (\<forall>a \<in> set w. is_space a)"
  by (intro exI [of _ "takeWhile is_space t"]) (auto dest: set_takeWhileD)

lemma skip_dash_split: "\<exists>d. t = d @ skip_dash t \<and> (\<forall>a \<in> set d. \<not> separator a)"
proof (cases "t = skip_dash t")
  case True
  then show ?thesis by (intro exI [of _ "[]"]) simp
next
  case False
  then show ?thesis by (intro exI [of _ "[hd t]"]) (auto simp: skip_dash_def separator_def split: list.splits if_splits)
qed

lemma api_parts:
  assumes "eat_icase ''api'' s = Some t" "eat_icase ''key'' (skip_dash t) = Some u" "separated u = Some v"
  shows "\<exists>p c q. s = p @ c # q @ v \<and> separator c \<and> (\<forall>a \<in> set p. \<not> separator a) \<and> (\<forall>a \<in> set q. is_space a)"
proof -
  obtain w1 where w1: "s = w1 @ t" "\<forall>a \<in> set w1. \<not> separator a" using eaten_plain [OF assms(1) words_alnum(2)] by blast
  obtain d where d: "t = d @ skip_dash t" "\<forall>a \<in> set d. \<not> separator a" using skip_dash_split by blast
  obtain w2 where w2: "skip_dash t = w2 @ u" "\<forall>a \<in> set w2. \<not> separator a" using eaten_plain [OF assms(2) words_alnum(3)] by blast
  obtain c w where c: "dropWhile is_space u = c # w" "separator c" "v = dropWhile is_space w"
    using assms(3) unfolding separated_Some by blast
  obtain s1 where s1: "u = s1 @ c # w" "\<forall>a \<in> set s1. is_space a" using space_run [of u] c(1) by metis
  obtain s2 where s2: "w = s2 @ v" "\<forall>a \<in> set s2. is_space a" using space_run [of w] c(3) by metis
  have tail: "skip_dash t = w2 @ s1 @ c # s2 @ v" using w2(1) s1(1) s2(1) by simp
  have "s = w1 @ d @ skip_dash t" unfolding w1(1) using d(1) by (rule arg_cong)
  then have parts: "s = (w1 @ d @ w2 @ s1) @ c # s2 @ v" unfolding tail by simp
  have plain: "\<not> separator a" if "is_space a" for a using that by (auto simp: separator_def is_space_def)
  show ?thesis
  proof (intro exI conjI)
    show "s = (w1 @ d @ w2 @ s1) @ c # s2 @ v" by (rule parts)
    show "\<forall>a \<in> set (w1 @ d @ w2 @ s1). \<not> separator a" using w1(2) d(2) w2(2) s1(2) plain by (simp only: set_append) blast
  qed (fact c(2) s2(2))+
qed

lemma api_kept:
  assumes "kApiKey s = Some (x @ mark, rest)"
  shows "free_of kApiKey x"
proof -
  obtain t u v where m: "eat_icase ''api'' s = Some t" "eat_icase ''key'' (skip_dash t) = Some u" "separated u = Some v"
    and x: "x = take (length s - length v) s" using assms unfolding kApiKey_Some append_same_eq by blast
  obtain p c q where pq: "s = p @ c # q @ v" "separator c" "\<forall>a \<in> set p. \<not> separator a" "\<forall>a \<in> set q. is_space a"
    using api_parts [OF m] by (elim exE conjE)
  then have x: "x = p @ c # q" by (simp add: x)
  have "kApiKey y = None" if y: "suffix y x" for y
  proof (rule ccontr)
    assume "kApiKey y \<noteq> None"
    then obtain t u v where n: "eat_icase ''api'' y = Some t" "eat_icase ''key'' (skip_dash t) = Some u" "separated u = Some v"
      "8 \<le> length (takeWhile key_char v)" unfolding kApiKey_iff by blast
    obtain p' c' q' where p': "y = p' @ c' # q' @ v" "separator c'" using api_parts [OF n(1-3)] by (elim exE conjE)
    obtain z where "x = z @ y" using y by (auto simp: suffix_def)
    with p' x have y': "p @ c # q = (z @ p') @ c' # q' @ v" by simp
    have "\<forall>a \<in> set q. \<not> separator a" using pq(4) by (auto simp: separator_def is_space_def)
    from one_separator [OF y' pq(3) this p'(2)] have "q' @ v = q" .
    moreover obtain e where "e \<in> set v" "key_char e" using n(4) by (cases v) (auto split: if_splits)
    ultimately have "is_space e" "key_char e" using pq(4) by auto
    then show False by (auto simp: key_char_def is_alnum_def is_digit_def is_space_def)
  qed
  then show ?thesis by (simp add: free_of_def)
qed

subsection \<open>Tokens\<close>

lemma kSkToken_iff:
  "kSkToken s \<noteq> None \<longleftrightarrow> (\<exists>t. s = ''sk-'' @ t \<and> 16 \<le> length (takeWhile is_alnum t))"
proof -
  have "take 3 s = ''sk-'' \<longleftrightarrow> (\<exists>t. s = ''sk-'' @ t)"
  proof
    assume "take 3 s = ''sk-''"
    then have "s = ''sk-'' @ drop 3 s" by (metis append_take_drop_id)
    then show "\<exists>t. s = ''sk-'' @ t" by blast
  qed auto
  then show ?thesis by (auto simp: kSkToken_def)
qed

lemma kSkToken_stops: "kSkToken (s @ CHR ''['' # b) \<noteq> None \<Longrightarrow> kSkToken s \<noteq> None"
  unfolding kSkToken_iff by (auto simp: append_eq_append_conv2 Cons_eq_append_conv append_eq_Cons_conv runs_stop)

interpretation sk_token: bounded_matcher kSkToken
proof
  fix a r b k
  show "kSkToken (a @ r) \<noteq> None" if "kSkToken a \<noteq> None"
    using that prefix_length_le [OF takeWhile_more] unfolding kSkToken_iff by (metis append.assoc le_trans)
  show "kSkToken (a @ CHR ''['' # b) \<noteq> None \<Longrightarrow> kSkToken a \<noteq> None" by (rule kSkToken_stops)
  show "kSkToken (drop k mark @ b) = None" if k: "k < length mark"
  proof -
    obtain d u where "drop k mark @ b = d # u" "to_lower_char d \<noteq> CHR ''s''" using drop_mark [OF k, of b] by auto
    then have "kSkToken (drop k mark @ b) \<noteq> None \<Longrightarrow> False" unfolding kSkToken_iff by (auto simp: to_lower_char_def)
    then show ?thesis by blast
  qed
qed (simp add: kSkToken_def)

lemma kSkToken_marks: "marks kSkToken" "keeps_start kSkToken"
proof -
  show "marks kSkToken"
  proof (rule marksI)
    fix s new rest
    assume m: "kSkToken s = Some (new, rest)"
    then have "takeWhile is_alnum (drop 3 s) \<noteq> []" "new = [] @ mark" "rest = dropWhile is_alnum (drop 3 s)"
      by (auto simp: kSkToken_def split: if_splits)
    then show "\<exists>x v. new = x @ mark \<and> suffix v s \<and> strict_suffix rest v"
      using dropWhile_strict suffix_drop by metis
  qed
  show "keeps_start kSkToken" by (auto simp: keeps_start_def kSkToken_def split: if_splits)
qed

section \<open>What is left\<close>

lemma kBearer_kept: "kBearer s = Some (x @ mark, rest) \<Longrightarrow> free_of kBearer x"
proof -
  assume "kBearer s = Some (x @ mark, rest)"
  then have x: "x = ''Bearer ''"
    by (cases "eat_icase ''bearer'' s") (auto simp: kBearer_def Let_def split: if_splits)
  have "list_all (\<lambda>k. kBearer (drop k ''Bearer '') = None) [0..<8]" by code_simp
  then have none: "kBearer (drop k ''Bearer '') = None" if "k < 8" for k using that by (simp add: list_all_iff)
  have "kBearer t = None" if "suffix t x" for t
  proof -
    from that obtain z where z: "x = z @ t" by (auto simp: suffix_def)
    have "length ''Bearer '' = length z + length t" using arg_cong [OF z, of length] unfolding x by simp
    then have "length z < 8" by simp
    from none [OF this] show ?thesis using z unfolding x by (simp del: drop_Cons')
  qed
  then show ?thesis by (simp add: free_of_def)
qed

text \<open>
  C29. No secret is left: at no position of the redacted text does the expression for bearer
  tokens, for API keys or for \<open>sk-\<close> tokens match again, whatever the four replacements have
  put together.
\<close>

theorem RedactSecrets_clean:
  "let redacted = RedactSecrets input in
     kBearer (drop k redacted) = None \<and> kApiKey (drop k redacted) = None \<and> kSkToken (drop k redacted) = None"
proof -
  note marks = kBearer_marks kApiKey_marks kPassword_marks kSkToken_marks
  note nil = bearer.not_empty api_key.not_empty sk_token.not_empty
  let ?s1 = "replace_all kBearer input" and ?s2 = "replace_all kApiKey (replace_all kBearer input)"
  have pw: "kPassword [] = None" by (simp add: kPassword_def eat_icase_def)
  have b1: "free_of kBearer ?s1"
    by (rule bearer.replace_all_free [OF kBearer_marks nil(1) bearer_stands kBearer_kept])
  have a2: "free_of kApiKey ?s2"
  proof (rule api_key.replace_all_free [OF kApiKey_marks(1) nil(2) _ api_kept])
    fix a s x rest
    assume "kApiKey s = Some (x @ mark, rest)" and here: "kApiKey (a @ x) \<noteq> None"
    with kApiKey_marks(2) obtain y where "s = x @ y" by (auto simp: keeps_start_def prefix_def)
    then show "kApiKey (a @ s) \<noteq> None" using api_key.extends [OF here, of y] by simp
  qed
  have s4: "free_of kSkToken (RedactSecrets input)"
    unfolding RedactSecrets_def
  proof (rule sk_token.replace_all_free [OF kSkToken_marks(1) nil(3)])
    fix a s x rest
    assume "kSkToken s = Some (x @ mark, rest)"
    then have x: "x = []" by (auto simp: kSkToken_def split: if_splits)
    then show "free_of kSkToken x" using nil(3) by simp
    assume "kSkToken (a @ x) \<noteq> None"
    then show "kSkToken (a @ s) \<noteq> None" using sk_token.extends [of a s] x by simp
  qed
  have "free_of kBearer (RedactSecrets input)" "free_of kApiKey (RedactSecrets input)"
    unfolding RedactSecrets_def
    using bearer.stays_free [OF kSkToken_marks nil(3) bearer.stays_free [OF kPassword_marks pw bearer.stays_free [OF kApiKey_marks nil(2) b1]]]
      api_key.stays_free [OF kSkToken_marks nil(3) api_key.stays_free [OF kPassword_marks pw a2]] by blast+
  with s4 show ?thesis by (simp add: free_of_def suffix_drop)
qed

end
