(* ===== verification/Spec2Isabelle.thy ===== *)
theory Spec2Isabelle
  imports Service_Properties Redact
begin

text \<open>
  A model of poorguy-mem (pgmem), a local memory service for coding agents: records of text
  are written into workspaces, kept in a key-value store and in memory, retrieved by a
  hybrid of lexical and dense scoring, and governed by pins, budgets and compaction.

  \<^bold>\<open>Parts and how they interact.\<close>  The memory engine (\<open>src/core/memory_engine.cpp\<close>) is the
  centre.  It turns each request into a batch for a store adapter, a change of its record
  and deduplication maps, and calls of a retriever; it replays its event log at start, evicts
  records over the memory budget, and compacts old ones into tombstones.  The store adapter
  (\<open>src/store/in_memory_store_adapter.cpp\<close>) keeps name spaces of keys in shards.  The
  retriever (\<open>src/core/retriever.cpp\<close>) keeps per-workspace statistics and a vector index
  (\<open>src/core/lsh_vector_index.cpp\<close>) over hash embeddings.  Text, JSON and metrics helpers
  serve all of them.  The dispatcher (\<open>src/mcp/mcp_dispatcher.cpp\<close>) turns requests into
  calls of the engine; the daemon (\<open>src/apps/pgmemd_main.cpp\<close>) opens the store, starts an HTTP
  server (\<open>src/net\<close>) whose three routes lead to the dispatcher, warms the engine up and then
  serves; the installer (\<open>src/install\<close>, \<open>src/apps/pgmem_install_main.cpp\<close>) makes a systemd
  unit for the daemon and asks its health route.

  \<^bold>\<open>Theories.\<close>
  \<^item> \<open>Prelude\<close>: \<open>std::map\<close> and \<open>std::unordered_map\<close> as association lists, sorting with a
    comparator, machine integers; \<open>Byte_Strings\<close>: searching, numerals, padding.
  \<^item> \<open>Model_Types\<close>: the structs and enums of \<open>include/pgmem/types.h\<close>.
  \<^item> \<open>Text\<close>: UTF-8 decoding, tokenizer, trimming of \<open>src/util/text.cpp\<close>; \<open>Redact\<close>: its redaction
    of secrets; \<open>Summary\<close>: the rolling summary of \<open>src/core/summary.cpp\<close>.
  \<^item> \<open>Vector_Index\<close>: embeddings, cosine and the LSH index, with the interface
    \<open>IVectorIndex\<close> as a locale.
  \<^item> \<open>Retriever\<close>: \<open>HybridRetriever\<close> over any vector index that keeps that contract, refined to an
    abstract map of live records; its own contract is a locale for the engine.
  \<^item> \<open>Metrics\<close>: histograms, percentile and ratios of \<open>src/core/metrics.cpp\<close>.
  \<^item> \<open>Store\<close>: the interface \<open>IStoreAdapter\<close> as a locale over an abstract view (name space,
    key to value), and the sharded in-memory adapter that implements it.
  \<^item> \<open>Json_Api\<close>: \<open>src/util/json.cpp\<close> over a parameter record for the property tree library; its
    documented laws are a locale, interpreted on a small concrete tree.
  \<^item> \<open>Records\<close>: keys, ranks, stamps, expiry and serialization in \<open>memory_engine.cpp\<close>.
  \<^item> \<open>Engine_State\<close>, \<open>Engine_Ops\<close>: the engine's state, its private and its public operations.
  \<^item> \<open>Engine_Resident\<close>: the accounting of resident bytes and the eviction loop;
    \<open>Engine_Steps\<close>: what one round of a write or a compaction stages; \<open>Engine_Inv\<close>: runs of
    calls and the invariants they keep; \<open>Engine\<close>: effects of whole operations;
    \<open>Engine_Properties\<close>: the claims, with instances.
  \<^item> \<open>Eloq_Store\<close>: the EloqStore adapter, over a record of the requests of the third-party store; \<open>Eloq_Laws\<close>: its documented behaviour as a locale, from which the
    adapter is shown to keep the contract of \<open>Store\<close>; \<open>Eloq_Layout\<close>: the layout refresh;
    \<open>Eloq_Properties\<close>: the claims, with instances, also of the engine over this adapter;
    \<open>Store_Factory\<close>: the choice of the adapter by \<open>src/store/store_factory.cpp\<close>, the calls through
    the interface with their contract, and the io_uring probe.
  \<^item> \<open>Mcp_Schema\<close>: the self-description of the service, and \<open>Mcp_Dispatcher\<close>: decoding, handlers
    and encoding of \<open>src/mcp/mcp_dispatcher.cpp\<close>; \<open>Mcp_Contract\<close>: what counts as an answer, how
    a client writes requests and reads hits; \<open>Mcp_Properties\<close>: the claims, with instances.
  \<^item> \<open>Http\<close>: messages, server, client and runtime options of \<open>src/net\<close>; \<open>Daemon_Json\<close>: the
    escaping and normalisation of JSON, and \<open>Daemon\<close>: JSON-RPC, routes, command line and start-up
    of \<open>pgmemd_main.cpp\<close>; \<open>Installer\<close>: the unit, its installation and the health check.
  \<^item> \<open>Service_Contract\<close>: a reader of escaped strings, the described types of results, what counts
    as an answer of JSON-RPC; \<open>Service_Routes\<close>: the contract of a table of handlers as a locale,
    which the routes of the daemon keep before and after they are ready, and the start-up;
    \<open>Service_Properties\<close>: the claims, with instances.

  \<^bold>\<open>Correspondence.\<close>  A class is a record with one field per member and one function per
  method, from the state before to the result and the state after.  A virtual interface is a
  record of functions.  \<open>uint64_t\<close> and \<open>uint32_t\<close> are words and wrap; \<open>size_t\<close> counters of
  containers are \<open>nat\<close>; \<open>double\<close> and \<open>float\<close> are reals, so rounding, infinities and NaN are
  not modelled.  A function that returns \<open>false\<close> with an error text is a sum.  An
  unordered map is a list in some order, and \<open>std::sort\<close> keeps the order of elements that
  compare equal; statements do not depend on these orders unless they say so.  Clocks,
  \<open>std::hash\<close>, the stream format of floats, the JSON libraries (the property tree and
  RapidJSON), brpc, EloqStore, the file system and processes are parameters.

  \<^bold>\<open>What the lemmas show.\<close>  For the engine: every run returns and keeps the resident
  accounting and the agreement of retriever and records; the eviction loop ends; writes are
  durable, atomic on failure, idempotent under a deduplication key, well formed, and within
  the pin quota; queries return only live, fresh, matching records of the workspace;
  replay keeps the newest copy; compaction spares pinned records and makes progress.  For
  the parts: refinement of store and retriever to abstract maps, exact counters, ranked and
  complete search, tokenizer and decoder characterised, round trips of records and keys.
  For the dispatcher: every request is answered in the described shape, requests and hits
  survive the encoding, and what it reports as stored is durable.
  For the service: \<open>main\<close> ends with an exit code or in a server that answers every sequence of
  calls; strings it escapes are read back, scalars get their described types back; parsed
  bodies lie in the received bytes; redacted texts hold no secret; summaries fit their budget.
  Some theorems state a deviation of the code from what it means to do (deduplication on
  tombstones, leaked vector codes, counts of refused compactions, wrapping time-to-live, the
  unit that the daemon refuses and that is started before it is written, a length that wraps).

  \<^bold>\<open>Bounds and fuel.\<close>  No fuel is used.  The eviction loop is a \<open>partial_function\<close> whose value
  \<open>None\<close> is divergence; it is shown to return in every reachable state, because each round
  removes a record from a finite map.  All other loops recurse on their list or text, some
  with a measure.

  \<^bold>\<open>Not modelled.\<close>  Locks and threads: each operation is one atomic step, the collector thread
  is a step that may happen between calls, and calls of the server come one after the other.
  Sockets, the waiting loop of the daemon and its stop by a signal, log lines and help texts,
  the clock, and exceptions of the file system that end the installer.
\<close>

end
